(* ===== verification/Prelude.thy ===== *)
theory Prelude
  imports Complex_Main "HOL-Library.Product_Lexorder"
begin

text \<open>
  What the components share: the named collections of the development, the C integers at
  their width, C strings and fixed-size character arrays, linear search over an array, and
  the lemmas on sorted association lists that the balanced trees are related to.

  A pointer parameter that the code tests against NULL is an option value (\<open>None\<close> is NULL).
  The return code of a C function is an \<^typ>\<open>int\<close> (0 for success, -1 for failure, as in
  the source). A \<open>malloc\<close> or \<open>calloc\<close> whose result the code tests is a boolean argument of
  the model that says whether that allocation succeeds.
\<close>

section \<open>Named collections\<close>

named_theorems field_defs \<open>definitions of the straight-line operations on one struct\<close>
named_theorems keeps \<open>what an operation leaves unchanged\<close>
named_theorems invars \<open>an operation preserves its component's invariant\<close>

section \<open>C integers\<close>

type_synonym addr = nat
type_synonym rc = int

definition wrap :: "nat \<Rightarrow> int \<Rightarrow> int" where
  "wrap w n = (n + 2 ^ (w - 1)) mod 2 ^ w - 2 ^ (w - 1)"

abbreviation int32 :: "int \<Rightarrow> int" where
  "int32 \<equiv> wrap 32"

abbreviation int64 :: "int \<Rightarrow> int" where
  "int64 \<equiv> wrap 64"

definition fits :: "nat \<Rightarrow> int \<Rightarrow> bool" where
  "fits w n \<longleftrightarrow> - (2 ^ (w - 1)) \<le> n \<and> n < 2 ^ (w - 1)"

lemma wrap_fits: "0 < w \<Longrightarrow> fits w (wrap w n)"
proof -
  assume "0 < w"
  then have "(2::int) ^ w = 2 * 2 ^ (w - 1)"
    by (cases w) simp_all
  moreover have "0 \<le> (n + 2 ^ (w - 1)) mod (2::int) ^ w" "(n + 2 ^ (w - 1)) mod (2::int) ^ w < 2 ^ w"
    by simp_all
  ultimately show ?thesis
    unfolding wrap_def fits_def by linarith
qed

lemma wrap_id [simp]: "fits w n \<Longrightarrow> 0 < w \<Longrightarrow> wrap w n = n"
proof -
  assume f: "fits w n" and "0 < w"
  then have "(2::int) ^ w = 2 * 2 ^ (w - 1)"
    by (cases w) simp_all
  with f have "(n + 2 ^ (w - 1)) mod (2::int) ^ w = n + 2 ^ (w - 1)"
    unfolding fits_def by (intro mod_pos_pos_trivial) linarith+
  then show ?thesis
    by (simp add: wrap_def)
qed

lemma wrap_add_left [simp]: "wrap w (wrap w a + b) = wrap w (a + b)"
proof -
  have "(wrap w a + b + 2 ^ (w - 1)) = (a + 2 ^ (w - 1)) mod 2 ^ w + b"
    by (simp add: wrap_def)
  then show ?thesis
    by (simp add: wrap_def mod_simps algebra_simps)
qed

lemma wrap_add_right [simp]: "wrap w (a + wrap w b) = wrap w (a + b)"
  using wrap_add_left [of w b a] by (simp add: add.commute)

section \<open>C strings and character arrays\<close>

text \<open>
  A NUL-terminated string is the list of its characters before the terminator. A character
  array of a struct is the list of all its bytes; \<open>c_string\<close> reads it up to the first NUL and
  is \<open>None\<close> where the read would run past the end of the array. \<open>strncpy\<close> pads with NUL up
  to \<open>n\<close> bytes and writes no terminator of its own when the source is longer.
\<close>

definition NUL :: char where
  "NUL = CHR 0x00"

fun c_string :: "char list \<Rightarrow> string option" where
  "c_string [] = None"
| "c_string (c # cs) = (if c = NUL then Some [] else map_option ((#) c) (c_string cs))"

definition strncpy :: "char list \<Rightarrow> string \<Rightarrow> nat \<Rightarrow> char list" where
  "strncpy buf src n = take n (src @ replicate n NUL) @ drop n buf"

text \<open>
  \<open>strncpy(dst, src, n - 1); dst[n - 1] = '\0';\<close> on an array of \<open>n\<close> bytes, as a string.
\<close>

definition copy_field :: "nat \<Rightarrow> string \<Rightarrow> string" where
  "copy_field n src = take (n - 1) src"

lemma copy_field_short [simp]: "length src < n \<Longrightarrow> copy_field n src = src"
  by (simp add: copy_field_def)

lemma length_copy_field: "0 < n \<Longrightarrow> length (copy_field n src) < n"
  by (simp add: copy_field_def)

lemma length_strncpy: "n \<le> length buf \<Longrightarrow> length (strncpy buf src n) = length buf"
  by (simp add: strncpy_def)

lemma c_string_append: "NUL \<notin> set s \<Longrightarrow> c_string (s @ cs) = map_option ((@) s) (c_string cs)"
proof (induction s)
  case Nil
  show ?case by (cases "c_string cs") simp_all
next
  case (Cons a s)
  then show ?case by (cases "c_string cs") auto
qed

lemma c_string_NUL [simp]: "c_string (NUL # cs) = Some []"
  by simp

lemma c_string_strncpy:
  assumes "NUL \<notin> set src" and "n < length buf" and "buf ! n = NUL"
  shows "c_string (strncpy buf src n) = Some (take n src)"
proof (cases "length src < n")
  case True
  then have "strncpy buf src n = src @ NUL # (replicate (n - length src - 1) NUL @ drop n buf)"
    by (cases "n - length src") (auto simp: strncpy_def min_def)
  with True assms(1) show ?thesis
    by (simp add: c_string_append)
next
  case False
  have "drop n buf = NUL # drop (Suc n) buf"
    using assms(2,3) by (metis Cons_nth_drop_Suc)
  with False have "strncpy buf src n = take n src @ NUL # drop (Suc n) buf"
    by (simp add: strncpy_def)
  moreover have "NUL \<notin> set (take n src)"
    using assms(1) set_take_subset by fast
  ultimately show ?thesis
    by (simp add: c_string_append)
qed

lemma c_string_strncpy_short:
  assumes "NUL \<notin> set src" and "length src < n"
  shows "c_string (strncpy buf src n) = Some src"
proof -
  have "strncpy buf src n = src @ NUL # (replicate (n - length src - 1) NUL @ drop n buf)"
    using assms(2) by (cases "n - length src") (auto simp: strncpy_def min_def)
  with assms(1) show ?thesis by (simp add: c_string_append)
qed

text \<open>A source that fills the \<open>n\<close> bytes leaves the end of the string to what was in the array.\<close>

lemma c_string_strncpy_full:
  assumes "NUL \<notin> set src" and "n \<le> length src"
  shows "c_string (strncpy buf src n) = map_option ((@) (take n src)) (c_string (drop n buf))"
proof -
  have "NUL \<notin> set (take n src)" using assms(1) set_take_subset by fast
  with assms(2) show ?thesis by (simp add: strncpy_def c_string_append)
qed

lemma c_string_no_NUL: "c_string cs = Some s \<Longrightarrow> NUL \<notin> set s"
  by (induction cs arbitrary: s) (auto split: if_splits)

section \<open>Linear search over an array\<close>

text \<open>
  \<open>for (i = 0; i < count; i++) if (match) break;\<close>: the first index whose element satisfies
  the test, \<open>None\<close> when the loop runs to its end.
\<close>

fun find_index :: "('a \<Rightarrow> bool) \<Rightarrow> 'a list \<Rightarrow> nat option" where
  "find_index p [] = None"
| "find_index p (x # xs) = (if p x then Some 0 else map_option Suc (find_index p xs))"

lemma find_index_None [simp]: "find_index p xs = None \<longleftrightarrow> (\<forall>x \<in> set xs. \<not> p x)"
  by (induction xs) auto

lemma find_index_SomeD:
  "find_index p xs = Some i \<Longrightarrow> i < length xs \<and> p (xs ! i) \<and> (\<forall>j < i. \<not> p (xs ! j))"
proof (induction xs arbitrary: i)
  case (Cons x xs)
  then show ?case
    by (auto split: if_splits simp: less_Suc_eq_0_disj)
qed simp

lemma find_index_Some_distinct:
  assumes "distinct (map f xs)" and "i < length xs"
  shows "find_index (\<lambda>x. f x = f (xs ! i)) xs = Some i"
  using assms
proof (induction xs arbitrary: i)
  case (Cons x xs)
  show ?case
  proof (cases i)
    case (Suc j)
    with Cons have "f x \<noteq> f (xs ! j)"
      by (metis distinct.simps(2) length_map list.simps(9) nth_map nth_mem Suc_less_eq list.size(4) add.right_neutral add_Suc_right)
    with Cons Suc show ?thesis by simp
  qed simp
qed simp

text \<open>
  The same loop with \<open>strcmp\<close> over an array of character arrays: the index of the first that is equal, a
  fault at one without a terminator.
\<close>

fun find_symbol :: "char list list \<Rightarrow> string \<Rightarrow> nat option option" where
  "find_symbol [] sy = Some None"
| "find_symbol (b # bs) sy = Option.bind (c_string b) (\<lambda>s.
     if s = sy then Some (Some 0) else map_option (map_option Suc) (find_symbol bs sy))"

lemma find_symbol_total:
  "\<forall>b \<in> set bs. c_string b \<noteq> None \<Longrightarrow> find_symbol bs sy = Some (find_index (\<lambda>b. c_string b = Some sy) bs)"
proof (induction bs)
  case (Cons b bs)
  then obtain s where "c_string b = Some s" by auto
  with Cons show ?case by simp
qed simp

section \<open>Arrays\<close>

text \<open>Reading and writing an element; outside the array the result is \<open>None\<close>.\<close>

definition array_get :: "'a list \<Rightarrow> int \<Rightarrow> 'a option" where
  "array_get xs i = (if 0 \<le> i \<and> i < int (length xs) then Some (xs ! nat i) else None)"

definition array_set :: "'a list \<Rightarrow> int \<Rightarrow> 'a \<Rightarrow> 'a list option" where
  "array_set xs i v = (if 0 \<le> i \<and> i < int (length xs) then Some (xs[nat i := v]) else None)"

lemma array_get_in [simp]: "0 \<le> i \<Longrightarrow> i < int (length xs) \<Longrightarrow> array_get xs i = Some (xs ! nat i)"
  and array_set_in [simp]: "0 \<le> i \<Longrightarrow> i < int (length xs) \<Longrightarrow> array_set xs i v = Some (xs[nat i := v])"
  by (simp_all add: array_get_def array_set_def)

section \<open>Sorted association lists\<close>

text \<open>
  The specification the search trees are related to: a list of key-value pairs in strictly
  increasing order of the keys. \<open>ins_key\<close> keeps the entry that is already there, as the
  insertion of the source does with a duplicate key.
\<close>

declare less_prod_simp [simp del] less_eq_prod_simp [simp del]

fun ins_key :: "'k::linorder \<Rightarrow> 'v \<Rightarrow> ('k \<times> 'v) list \<Rightarrow> ('k \<times> 'v) list" where
  "ins_key k v [] = [(k, v)]"
| "ins_key k v ((a, b) # xs) =
     (if k < a then (k, v) # (a, b) # xs else if a < k then (a, b) # ins_key k v xs else (a, b) # xs)"

definition del_key :: "'k \<Rightarrow> ('k \<times> 'v) list \<Rightarrow> ('k \<times> 'v) list" where
  "del_key k xs = filter (\<lambda>x. fst x \<noteq> k) xs"

definition sorted_keys :: "('k::linorder \<times> 'v) list \<Rightarrow> bool" where
  "sorted_keys xs \<longleftrightarrow> sorted_wrt (<) (map fst xs)"

lemma sorted_keys_simps [simp]:
  "sorted_keys []"
  "sorted_keys (x # xs) \<longleftrightarrow> (\<forall>y \<in> set xs. fst x < fst y) \<and> sorted_keys xs"
  by (simp_all add: sorted_keys_def)

lemma sorted_keys_append [simp]:
  "sorted_keys (xs @ ys) \<longleftrightarrow>
     sorted_keys xs \<and> sorted_keys ys \<and> (\<forall>x \<in> set xs. \<forall>y \<in> set ys. fst x < fst y)"
  by (simp add: sorted_keys_def sorted_wrt_append)

lemma ins_key_append_left:
  "\<forall>x \<in> set xs. fst x < k \<Longrightarrow> ins_key k v (xs @ ys) = xs @ ins_key k v ys"
  by (induction xs) auto

lemma ins_key_append_right:
  "k < fst y \<Longrightarrow> ins_key k v (xs @ y # ys) = ins_key k v xs @ y # ys"
  by (induction xs) (cases y; auto)+

lemma set_ins_key:
  "sorted_keys xs \<Longrightarrow> set (ins_key k v xs) = (if k \<in> fst ` set xs then set xs else insert (k, v) (set xs))"
  by (induction xs) force+

lemma set_ins_key_subset: "set (ins_key k v xs) \<subseteq> insert (k, v) (set xs)"
  by (induction xs) (auto split: if_splits)

lemma sorted_ins_key: "sorted_keys xs \<Longrightarrow> sorted_keys (ins_key k v xs)"
proof (induction xs)
  case (Cons x xs)
  obtain a b where x: "x = (a, b)" by (cases x)
  show ?case
    using Cons set_ins_key_subset [of k v xs] by (auto simp: x not_less)
qed simp

lemma del_key_simps [simp]:
  "del_key k [] = []"
  "del_key k (x # xs) = (if fst x = k then del_key k xs else x # del_key k xs)"
  "del_key k (xs @ ys) = del_key k xs @ del_key k ys"
  by (simp_all add: del_key_def)

lemma set_del_key [simp]: "set (del_key k xs) = {x \<in> set xs. fst x \<noteq> k}"
  by (auto simp: del_key_def)

lemma del_key_id: "k \<notin> fst ` set xs \<Longrightarrow> del_key k xs = xs"
  by (force simp: del_key_def filter_id_conv)

lemma sorted_del_key: "sorted_keys xs \<Longrightarrow> sorted_keys (del_key k xs)"
  by (induction xs) auto

lemma del_key_hd: "sorted_keys (x # xs) \<Longrightarrow> del_key (fst x) xs = xs"
  by (rule del_key_id) force

lemma del_key_last: "sorted_keys (xs @ [x]) \<Longrightarrow> del_key (fst x) (xs @ [x]) = xs"
  by (simp add: del_key_id) (rule del_key_id, force)

lemma sorted_keys_distinct: "sorted_keys xs \<Longrightarrow> distinct (map fst xs)"
  by (induction xs) force+

lemma map_of_ins_key:
  "sorted_keys xs \<Longrightarrow>
   map_of (ins_key k v xs) k' = (if k' = k \<and> map_of xs k = None then Some v else map_of xs k')"
proof (induction xs)
  case (Cons x xs)
  obtain a b where x: "x = (a, b)" by (cases x)
  have "map_of xs k = None" if "k < a"
    using that Cons.prems by (force simp: x map_of_eq_None_iff)
  with Cons show ?case by (auto simp: x)
qed simp

lemma sorted_keys_map_of: "sorted_keys xs \<Longrightarrow> (k, v) \<in> set xs \<longleftrightarrow> map_of xs k = Some v"
  by (simp add: sorted_keys_distinct)

end
