(* ===== verification/Machine.thy ===== *)
theory Machine
  imports Prelude
begin

text \<open>
  Runs of a component: the states reachable from its initial states by its steps, and the
  contract under which a property of the initial states that every step keeps holds in all
  of them. Each stateful component of the development is an instance.
\<close>

inductive reachable :: "('s \<Rightarrow> bool) \<Rightarrow> ('s \<Rightarrow> 's \<Rightarrow> bool) \<Rightarrow> 's \<Rightarrow> bool" for init step where
  start: "init s \<Longrightarrow> reachable init step s"
| move: "reachable init step s \<Longrightarrow> step s s' \<Longrightarrow> reachable init step s'"

locale invariant_machine =
  fixes init :: "'s \<Rightarrow> bool"
    and step :: "'s \<Rightarrow> 's \<Rightarrow> bool"
    and inv :: "'s \<Rightarrow> bool"
  assumes init_inv: "init s \<Longrightarrow> inv s"
    and step_inv: "inv s \<Longrightarrow> step s s' \<Longrightarrow> inv s'"
begin

lemma reachable_inv: "reachable init step s \<Longrightarrow> inv s"
  by (induction rule: reachable.induct) (auto intro: init_inv step_inv)

end

text \<open>
  A sequence of calls, each with its arguments, run one after the other: the answers of the calls and the state
  after the last. A call that faults has no result, and neither has the run.
\<close>

fun run_calls :: "('c \<Rightarrow> 's \<Rightarrow> ('r \<times> 's) option) \<Rightarrow> 'c list \<Rightarrow> 's \<Rightarrow> ('r list \<times> 's) option" where
  "run_calls step [] s = Some ([], s)"
| "run_calls step (c # cs) s = Option.bind (step c s) (\<lambda>(r, s1). Option.bind (run_calls step cs s1) (\<lambda>(rs, s2). Some (r # rs, s2)))"

text \<open>
  A component that implements another, call by call: on states that stand for each other the same call returns on
  both sides, with the same answer, and the states after it stand for each other again. Then the same holds of
  every sequence of calls.
\<close>

locale simulation =
  fixes step :: "'c \<Rightarrow> 's \<Rightarrow> ('r \<times> 's) option"
    and abs_step :: "'c \<Rightarrow> 't \<Rightarrow> ('r \<times> 't) option"
    and stands_for :: "'s \<Rightarrow> 't \<Rightarrow> bool"
  assumes step_sim: "stands_for s t \<Longrightarrow> \<exists>r s' t'. step c s = Some (r, s') \<and> abs_step c t = Some (r, t') \<and> stands_for s' t'"
begin

lemma run_sim:
  "stands_for s t \<Longrightarrow> \<exists>rs s' t'. run_calls step cs s = Some (rs, s') \<and> run_calls abs_step cs t = Some (rs, t') \<and> stands_for s' t'"
proof (induction cs arbitrary: s t)
  case (Cons c cs)
  obtain r s1 t1 where 1: "step c s = Some (r, s1)" "abs_step c t = Some (r, t1)" "stands_for s1 t1"
    using step_sim [OF Cons.prems] by blast
  from Cons.IH [OF 1(3)] 1(1,2) show ?case by auto
qed simp

end

end
