(* ===== verification/Double.thy ===== *)
theory Double
  imports Prelude "HOL-Library.Log_Nat"
begin

text \<open>
  C's \<open>double\<close>, as IEEE 754 binary64 with rounding to nearest, ties to even. A finite value
  is the rational it denotes; the two zeros are one value, which no comparison, sum, product
  or quotient by a non-zero value of the program tells apart. Comparisons with NaN are
  false and \<open>!=\<close> is true, as the standard has it: the program compares prices that come
  from a network message or a file without ever testing for NaN.

  The arithmetic rounds through \<open>round_double\<close>, which is executable, and the lemmas give
  what the components rest on: rounding is monotone, is exact on integers of up to 53 bits,
  and a difference of ordered finite values is not negative.
\<close>

section \<open>Values and comparisons\<close>

datatype double = NInf | Fin rat | PInf | NaN

fun d_lt :: "double \<Rightarrow> double \<Rightarrow> bool" where
  "d_lt NaN _ = False"
| "d_lt _ NaN = False"
| "d_lt _ NInf = False"
| "d_lt NInf _ = True"
| "d_lt PInf _ = False"
| "d_lt (Fin a) (Fin b) = (a < b)"
| "d_lt (Fin a) PInf = True"

definition d_eq :: "double \<Rightarrow> double \<Rightarrow> bool" where
  "d_eq a b \<longleftrightarrow> a \<noteq> NaN \<and> a = b"

definition d_le :: "double \<Rightarrow> double \<Rightarrow> bool" where
  "d_le a b \<longleftrightarrow> d_lt a b \<or> d_eq a b"

definition is_nan :: "double \<Rightarrow> bool" where
  "is_nan a \<longleftrightarrow> a = NaN"

text \<open>
  A linear order on the type, with NaN on top, so that the library's sorted lists apply. On
  values other than NaN it is the comparison of C.
\<close>

fun rank :: "double \<Rightarrow> nat \<times> rat" where
  "rank NInf = (0, 0)"
| "rank (Fin a) = (1, a)"
| "rank PInf = (2, 0)"
| "rank NaN = (3, 0)"

lemma rank_inject: "rank a = rank b \<longleftrightarrow> a = b"
  by (cases a; cases b) auto

instantiation double :: linorder
begin

definition less_eq_double :: "double \<Rightarrow> double \<Rightarrow> bool" where
  "less_eq_double a b \<longleftrightarrow> rank a \<le> rank b"

definition less_double :: "double \<Rightarrow> double \<Rightarrow> bool" where
  "less_double a b \<longleftrightarrow> rank a < rank b"

instance
  by standard (auto simp: less_eq_double_def less_double_def rank_inject dest: antisym)

end

lemma d_lt_less: "d_lt a b \<longleftrightarrow> a < b \<and> b \<noteq> NaN"
  by (cases a; cases b) (simp_all add: less_double_def less_prod_simp)

lemma d_le_less_eq: "d_le a b \<longleftrightarrow> a \<le> b \<and> b \<noteq> NaN"
  by (cases a; cases b) (auto simp: d_le_def d_eq_def less_eq_double_def less_eq_prod_simp)

lemma Fin_le [simp]: "Fin a \<le> Fin b \<longleftrightarrow> a \<le> b"
  by (simp add: less_eq_double_def less_eq_prod_simp)

lemma Fin_less [simp]: "Fin a < Fin b \<longleftrightarrow> a < b"
  by (simp add: less_double_def less_prod_simp)

lemma double_top [simp]: "a \<le> NaN" "a < NaN \<longleftrightarrow> a \<noteq> NaN" "NaN \<le> a \<longleftrightarrow> a = NaN" "\<not> NaN < a"
  by (cases a; simp add: less_eq_double_def less_double_def less_prod_simp less_eq_prod_simp)+

lemma double_bot [simp]: "NInf \<le> a" "\<not> a < NInf"
  by (cases a; simp add: less_eq_double_def less_double_def less_prod_simp less_eq_prod_simp)+

section \<open>Rounding\<close>

definition pow2 :: "int \<Rightarrow> rat" where
  "pow2 e = (if 0 \<le> e then 2 ^ nat e else 1 / 2 ^ nat (- e))"

definition ilog2 :: "rat \<Rightarrow> int" where
  "ilog2 q = (case quotient_of q of (a, b) \<Rightarrow>
     let k = bitlen a - bitlen b in if pow2 k \<le> q then k else k - 1)"

definition round_half_even :: "rat \<Rightarrow> int" where
  "round_half_even x =
     (let f = \<lfloor>x\<rfloor>; d = x - of_int f in
      if d < 1 / 2 then f else if 1 / 2 < d then f + 1 else if even f then f else f + 1)"

definition ulp_exp :: "rat \<Rightarrow> int" where
  "ulp_exp q = max (- 1074) (ilog2 q - 52)"

definition round_pos :: "rat \<Rightarrow> rat" where
  "round_pos q = of_int (round_half_even (q / pow2 (ulp_exp q))) * pow2 (ulp_exp q)"

definition round_double :: "rat \<Rightarrow> double" where
  "round_double q =
     (if q = 0 then Fin 0
      else if 0 < q then (let r = round_pos q in if pow2 1024 \<le> r then PInf else Fin r)
      else (let r = round_pos (- q) in if pow2 1024 \<le> r then NInf else Fin (- r)))"

section \<open>Arithmetic\<close>

fun d_neg :: "double \<Rightarrow> double" where
  "d_neg (Fin a) = Fin (- a)"
| "d_neg PInf = NInf"
| "d_neg NInf = PInf"
| "d_neg NaN = NaN"

fun d_add :: "double \<Rightarrow> double \<Rightarrow> double" where
  "d_add (Fin a) (Fin b) = round_double (a + b)"
| "d_add NaN _ = NaN"
| "d_add _ NaN = NaN"
| "d_add PInf NInf = NaN"
| "d_add NInf PInf = NaN"
| "d_add PInf _ = PInf"
| "d_add NInf _ = NInf"
| "d_add _ PInf = PInf"
| "d_add _ NInf = NInf"

definition d_sub :: "double \<Rightarrow> double \<Rightarrow> double" where
  "d_sub a b = d_add a (d_neg b)"

definition inf_signed :: "rat \<Rightarrow> double" where
  "inf_signed s = (if s = 0 then NaN else if 0 < s then PInf else NInf)"

fun d_sign :: "double \<Rightarrow> rat" where
  "d_sign (Fin a) = sgn a"
| "d_sign PInf = 1"
| "d_sign NInf = - 1"
| "d_sign NaN = 0"

fun d_mul :: "double \<Rightarrow> double \<Rightarrow> double" where
  "d_mul (Fin a) (Fin b) = round_double (a * b)"
| "d_mul NaN _ = NaN"
| "d_mul _ NaN = NaN"
| "d_mul a b = inf_signed (d_sign a * d_sign b)"

text \<open>Division; the divisors of the program are positive counts.\<close>

fun d_div :: "double \<Rightarrow> double \<Rightarrow> double" where
  "d_div (Fin a) (Fin b) = (if b = 0 then inf_signed (sgn a) else round_double (a / b))"
| "d_div NaN _ = NaN"
| "d_div _ NaN = NaN"
| "d_div a (Fin b) = inf_signed (d_sign a * (if b < 0 then - 1 else 1))"
| "d_div (Fin a) _ = Fin 0"
| "d_div _ _ = NaN"

text \<open>An \<open>int\<close> converted to \<open>double\<close>: exact, since it has at most 32 bits.\<close>

definition d_of_int :: "int \<Rightarrow> double" where
  "d_of_int n = Fin (of_int n)"

section \<open>Rounding is monotone and exact on small integers\<close>

lemma pow2_powi: "pow2 e = 2 powi e"
  by (simp add: pow2_def power_int_def power_one_over inverse_eq_divide)

lemma pow2_pos [simp]: "0 < pow2 e"
  by (simp add: pow2_def)

lemma pow2_nonneg [simp]: "0 \<le> pow2 e" "pow2 e \<noteq> 0"
  using pow2_pos [of e] by linarith+

lemma pow2_add: "pow2 (a + b) = pow2 a * pow2 b"
  by (simp add: pow2_powi power_int_add)

lemma pow2_mono: "a \<le> b \<Longrightarrow> pow2 a \<le> pow2 b"
  by (simp add: pow2_powi power_int_increasing)

lemma pow2_strict_mono: "a < b \<Longrightarrow> pow2 a < pow2 b"
  by (simp add: pow2_powi power_int_strict_increasing)

lemma pow2_of_nat [simp]: "pow2 (int n) = 2 ^ n"
  by (simp add: pow2_def)

lemma bitlen_pow2_bounds:
  assumes "0 < a"
  shows "pow2 (bitlen a - 1) \<le> of_int a" and "of_int a < pow2 (bitlen a)"
proof -
  have "1 \<le> bitlen a"
    using assms by (simp add: bitlen_ge_iff_power)
  then have e: "pow2 (bitlen a - 1) = of_int (2 ^ nat (bitlen a - 1))"
      "pow2 (bitlen a) = of_int (2 ^ nat (bitlen a))"
    by (simp_all add: pow2_def)
  show "pow2 (bitlen a - 1) \<le> of_int a" "of_int a < pow2 (bitlen a)"
    using bitlen_bounds [OF assms] unfolding e by (simp_all only: of_int_le_iff of_int_less_iff)
qed

lemma ilog2_bounds:
  assumes "0 < q"
  shows "pow2 (ilog2 q) \<le> q" and "q < pow2 (ilog2 q + 1)"
proof -
  obtain a b where ab: "quotient_of q = (a, b)"
    by (cases "quotient_of q")
  have q: "q = of_int a / of_int b" and b: "0 < b"
    using quotient_of_div [OF ab] quotient_of_denom_pos [OF ab] by auto
  with assms have a: "0 < a"
    by (simp add: zero_less_divide_iff)
  let ?k = "bitlen a - bitlen b"
  note A = bitlen_pow2_bounds [OF a] and B = bitlen_pow2_bounds [OF b]
  have "pow2 (?k - 1) * of_int b \<le> pow2 (?k - 1) * pow2 (bitlen b)"
    using B(2) by (intro mult_left_mono) simp_all
  also have "\<dots> = pow2 (bitlen a - 1)"
    by (simp add: pow2_add [symmetric])
  finally have lo: "pow2 (?k - 1) \<le> q"
    using A(1) b by (simp add: q pos_le_divide_eq)
  have "of_int a < pow2 (?k + 1) * pow2 (bitlen b - 1)"
    using A(2) by (simp add: pow2_add [symmetric])
  also have "\<dots> \<le> pow2 (?k + 1) * of_int b"
    using B(1) by (intro mult_left_mono) simp_all
  finally have hi: "q < pow2 (?k + 1)"
    using b by (simp add: q pos_divide_less_eq)
  have l: "ilog2 q = (if pow2 ?k \<le> q then ?k else ?k - 1)"
    by (simp add: ilog2_def ab Let_def)
  show "pow2 (ilog2 q) \<le> q" "q < pow2 (ilog2 q + 1)"
    using lo hi by (auto simp: l not_le)
qed

lemma ilog2_mono: "0 < x \<Longrightarrow> x \<le> y \<Longrightarrow> ilog2 x \<le> ilog2 y"
proof (rule ccontr)
  assume xy: "0 < x" "x \<le> y" and "\<not> ilog2 x \<le> ilog2 y"
  then have "pow2 (ilog2 y + 1) \<le> pow2 (ilog2 x)"
    by (intro pow2_mono) simp
  with xy ilog2_bounds(1) [of x] ilog2_bounds(2) [of y] show False
    by linarith
qed

lemma ilog2_less: "0 < q \<Longrightarrow> q < pow2 n \<Longrightarrow> ilog2 q < n"
  using ilog2_bounds(1) [of q] pow2_mono [of n "ilog2 q"] by fastforce

lemma round_half_even_of_int [simp]: "round_half_even (of_int n) = n"
  by (simp add: round_half_even_def Let_def)

lemma round_half_even_floor: "round_half_even x \<in> {\<lfloor>x\<rfloor>, \<lfloor>x\<rfloor> + 1}"
  by (simp add: round_half_even_def Let_def)

lemma round_half_even_mono: "x \<le> y \<Longrightarrow> round_half_even x \<le> round_half_even y"
proof -
  assume le: "x \<le> y"
  then have "\<lfloor>x\<rfloor> \<le> \<lfloor>y\<rfloor>" by (rule floor_mono)
  then consider "\<lfloor>x\<rfloor> = \<lfloor>y\<rfloor>" | "\<lfloor>x\<rfloor> + 1 \<le> \<lfloor>y\<rfloor>" by linarith
  then show ?thesis
  proof cases
    case 1
    with le show ?thesis by (auto simp: round_half_even_def Let_def)
  next
    case 2
    then show ?thesis
      using round_half_even_floor [of x] round_half_even_floor [of y] by auto
  qed
qed

lemma round_half_even_le_iff: "x \<le> of_int n \<Longrightarrow> round_half_even x \<le> n" and
  round_half_even_ge_iff: "of_int n \<le> x \<Longrightarrow> n \<le> round_half_even x"
  using round_half_even_mono by (metis round_half_even_of_int)+

lemma round_pos_exact:
  assumes "q = of_int n * pow2 (ulp_exp q)"
  shows "round_pos q = q"
proof -
  have "q / pow2 (ulp_exp q) = of_int n"
    by (subst (1) assms) simp
  then have "round_pos q = of_int n * pow2 (ulp_exp q)"
    by (simp add: round_pos_def)
  with assms show ?thesis by simp
qed

lemma round_pos_nonneg: "0 \<le> q \<Longrightarrow> 0 \<le> round_pos q"
  unfolding round_pos_def using round_half_even_ge_iff [of 0] by (simp add: zero_le_mult_iff)

lemma round_pos_upper: "0 < q \<Longrightarrow> round_pos q \<le> pow2 (ulp_exp q + 53)"
proof -
  assume q: "0 < q"
  have "q < pow2 (ilog2 q + 1)" by (rule ilog2_bounds(2) [OF q])
  also have "\<dots> \<le> pow2 (ulp_exp q + 53)"
    by (intro pow2_mono) (simp add: ulp_exp_def)
  also have "\<dots> = pow2 53 * pow2 (ulp_exp q)"
    by (simp only: pow2_add mult.commute)
  finally have "q / pow2 (ulp_exp q) \<le> of_int (2 ^ 53)"
    by (simp add: pos_divide_le_eq pow2_def [of 53])
  from round_half_even_le_iff [OF this]
  have "(of_int (round_half_even (q / pow2 (ulp_exp q))) :: rat) \<le> of_int (2 ^ 53)"
    by (simp only: of_int_le_iff)
  from mult_right_mono [OF this pow2_nonneg(1) [of "ulp_exp q"]] show ?thesis
    by (simp add: round_pos_def pow2_add pow2_def [of 53] mult.commute)
qed

lemma round_pos_lower:
  assumes "0 < q" and "- 1074 < ulp_exp q"
  shows "pow2 (ulp_exp q + 52) \<le> round_pos q"
proof -
  have e: "ulp_exp q + 52 = ilog2 q"
    using assms(2) by (simp add: ulp_exp_def)
  have "pow2 (ulp_exp q + 52) \<le> q"
    unfolding e by (rule ilog2_bounds(1) [OF assms(1)])
  then have "of_int (2 ^ 52) \<le> q / pow2 (ulp_exp q)"
    by (simp add: pos_le_divide_eq pow2_add pow2_def [of 52] mult.commute)
  from round_half_even_ge_iff [OF this]
  have "(of_int (2 ^ 52) :: rat) \<le> of_int (round_half_even (q / pow2 (ulp_exp q)))"
    by (simp only: of_int_le_iff)
  from mult_right_mono [OF this pow2_nonneg(1) [of "ulp_exp q"]] show ?thesis
    by (simp add: round_pos_def pow2_add pow2_def [of 52] mult.commute)
qed

lemma round_pos_mono:
  assumes "0 < x" and "x \<le> y"
  shows "round_pos x \<le> round_pos y"
proof -
  have "ulp_exp x \<le> ulp_exp y"
    using ilog2_mono [OF assms] by (simp add: ulp_exp_def)
  then consider "ulp_exp x = ulp_exp y" | "ulp_exp x < ulp_exp y" by linarith
  then show ?thesis
  proof cases
    case 1
    have "round_half_even (x / pow2 (ulp_exp y)) \<le> round_half_even (y / pow2 (ulp_exp y))"
      using assms(2) by (intro round_half_even_mono divide_right_mono) simp_all
    with 1 show ?thesis
      by (simp add: round_pos_def)
  next
    case 2
    then have "- 1074 < ulp_exp y"
      by (simp add: ulp_exp_def)
    have "round_pos x \<le> pow2 (ulp_exp x + 53)" by (rule round_pos_upper [OF assms(1)])
    also have "\<dots> \<le> pow2 (ulp_exp y + 52)" using 2 by (intro pow2_mono) simp
    also have "\<dots> \<le> round_pos y"
      using assms by (intro round_pos_lower \<open>- 1074 < ulp_exp y\<close>) linarith
    finally show ?thesis .
  qed
qed

lemma round_double_not_NaN [simp]: "round_double q \<noteq> NaN"
  by (simp add: round_double_def Let_def)

lemma round_double_0 [simp]: "round_double 0 = Fin 0"
  by (simp add: round_double_def)

lemma Fin_between_infs [simp]: "Fin a \<le> PInf" "\<not> PInf \<le> Fin a" "\<not> Fin a \<le> NInf"
  "Fin a < PInf" "NInf < Fin a"
  by (simp_all add: less_eq_double_def less_double_def less_prod_simp less_eq_prod_simp)

lemma round_double_mono_pos: "0 < x \<Longrightarrow> x \<le> y \<Longrightarrow> round_double x \<le> round_double y"
  using round_pos_mono [of x y] by (auto simp: round_double_def Let_def)

lemma round_double_neg: "round_double (- q) = d_neg (round_double q)"
  by (auto simp: round_double_def Let_def)

lemma d_neg_le [simp]: "a \<noteq> NaN \<Longrightarrow> b \<noteq> NaN \<Longrightarrow> d_neg a \<le> d_neg b \<longleftrightarrow> b \<le> a"
  by (cases a; cases b) auto

lemma round_double_nonneg: "0 \<le> q \<Longrightarrow> Fin 0 \<le> round_double q"
  using round_pos_nonneg [of q] by (auto simp: round_double_def Let_def)

lemma round_double_nonpos: "q \<le> 0 \<Longrightarrow> round_double q \<le> Fin 0"
  using round_pos_nonneg [of "- q"] by (auto simp: round_double_def Let_def)

lemma round_double_mono: "x \<le> y \<Longrightarrow> round_double x \<le> round_double y"
proof -
  assume le: "x \<le> y"
  consider "0 < x" | "x \<le> 0" "0 \<le> y" | "y < 0" by linarith
  then show ?thesis
  proof cases
    case 1
    with le show ?thesis by (intro round_double_mono_pos)
  next
    case 2
    then show ?thesis
      using round_double_nonneg round_double_nonpos order_trans by blast
  next
    case 3
    with le have "round_double (- y) \<le> round_double (- x)"
      by (intro round_double_mono_pos) simp_all
    then show ?thesis by (simp add: round_double_neg)
  qed
qed

lemma round_double_of_int: "\<bar>n\<bar> < 2 ^ 53 \<Longrightarrow> round_double (of_int n) = Fin (of_int n)"
proof -
  have pos: "round_pos (of_int m) = of_int m \<and> (of_int m :: rat) < pow2 1024"
    if "0 < m" "m < 2 ^ 53" for m :: int
  proof -
    have "(of_int m :: rat) < of_int (2 ^ 53)" using that by (simp only: of_int_less_iff)
    then have lt: "(of_int m :: rat) < pow2 53" by (simp add: pow2_def)
    with that have "ilog2 (of_int m) < 53" by (intro ilog2_less) simp_all
    then have e: "ulp_exp (of_int m) \<le> 0" by (simp add: ulp_exp_def)
    let ?k = "nat (- ulp_exp (of_int m))"
    have "pow2 (- ulp_exp (of_int m)) * pow2 (ulp_exp (of_int m)) = (1 :: rat)"
      by (simp add: pow2_add [symmetric]) (simp add: pow2_def)
    moreover have "pow2 (- ulp_exp (of_int m)) = of_int (2 ^ ?k)"
      using e by (simp add: pow2_def)
    ultimately have "(of_int m :: rat) = of_int (m * 2 ^ ?k) * pow2 (ulp_exp (of_int m))"
      by (simp add: mult.assoc)
    from round_pos_exact [OF this] show ?thesis
      using lt pow2_mono [of 53 1024] by simp
  qed
  assume n: "\<bar>n\<bar> < 2 ^ 53"
  consider "n = 0" | "0 < n" | "0 < - n" by linarith
  then show ?thesis
  proof cases
    case 2
    with n pos [of n] show ?thesis by (auto simp: round_double_def Let_def)
  next
    case 3
    with n pos [of "- n"] show ?thesis by (auto simp: round_double_def Let_def)
  qed simp
qed

lemma round_double_numeral [simp]:
  "(numeral k :: int) < 2 ^ 53 \<Longrightarrow> round_double (numeral k) = Fin (numeral k)"
  using round_double_of_int [of "numeral k"] by simp

section \<open>What the arithmetic of the components rests on\<close>

lemma d_sub_nonneg:
  assumes "d_le b a" and "\<not> (a = PInf \<and> b = PInf)" and "a \<noteq> NInf"
  shows "d_le (Fin 0) (d_sub a b)"
  using assms by (cases a; cases b)
    (auto simp: d_sub_def d_le_less_eq round_double_nonneg)

lemma d_add_nonneg: "d_le (Fin 0) a \<Longrightarrow> d_le (Fin 0) b \<Longrightarrow> d_le (Fin 0) (d_add a b)"
  by (cases a; cases b) (auto simp: d_le_less_eq round_double_nonneg)

lemma d_mul_nonneg: "d_le (Fin 0) a \<Longrightarrow> d_lt (Fin 0) b \<Longrightarrow> d_le (Fin 0) (d_mul a b) \<or> a = Fin 0 \<or> b = PInf"
  by (cases a; cases b) (auto simp: d_le_less_eq d_lt_less round_double_nonneg inf_signed_def sgn_if)

lemma d_lt_irrefl [simp]: "\<not> d_lt a a"
  by (simp add: d_lt_less)

lemma d_lt_trans: "d_lt a b \<Longrightarrow> d_lt b c \<Longrightarrow> d_lt a c"
  by (auto simp: d_lt_less)

lemma d_not_lt: "a \<noteq> NaN \<Longrightarrow> b \<noteq> NaN \<Longrightarrow> \<not> d_lt a b \<longleftrightarrow> d_le b a"
  by (auto simp: d_lt_less d_le_less_eq)

lemma d_lt_NaN [simp]: "\<not> d_lt a NaN" "\<not> d_lt NaN a"
  by (simp_all add: d_lt_less)

end
