(* ===== verification/C_Text.thy ===== *)
theory C_Text
  imports Double
begin

text \<open>
  The part of the C library's text functions that the program calls: character classes,
  \<open>strcasecmp\<close>, \<open>strrchr\<close>, \<open>strtok\<close>, \<open>atoi\<close>, \<open>atof\<close>, and the \<open>%d\<close>, \<open>%.2f\<close> and \<open>%s\<close> conversions
  of \<open>snprintf\<close>. The locale is "C". \<open>atoi\<close> is \<open>(int) strtol(s, NULL, 10)\<close> with a 64-bit
  \<open>long\<close>; \<open>atof\<close> is \<open>strtod\<close> with correct rounding, as in the GNU library.
\<close>

section \<open>Characters\<close>

definition code :: "char \<Rightarrow> int" where
  "code c = of_char c"

definition isspace :: "char \<Rightarrow> bool" where
  "isspace c \<longleftrightarrow> code c = 32 \<or> 9 \<le> code c \<and> code c \<le> 13"

definition isdigit :: "char \<Rightarrow> bool" where
  "isdigit c \<longleftrightarrow> 48 \<le> code c \<and> code c \<le> 57"

definition isupper :: "char \<Rightarrow> bool" where
  "isupper c \<longleftrightarrow> 65 \<le> code c \<and> code c \<le> 90"

definition islower :: "char \<Rightarrow> bool" where
  "islower c \<longleftrightarrow> 97 \<le> code c \<and> code c \<le> 122"

definition isalnum :: "char \<Rightarrow> bool" where
  "isalnum c \<longleftrightarrow> isdigit c \<or> isupper c \<or> islower c"

definition tolower :: "char \<Rightarrow> char" where
  "tolower c = (if isupper c then char_of (code c + 32) else c)"

definition xdigit_val :: "char \<Rightarrow> int option" where
  "xdigit_val c =
     (let l = code (tolower c) in
      if isdigit c then Some (code c - 48) else if 97 \<le> l \<and> l \<le> 102 then Some (l - 87) else None)"

definition strcaseeq :: "string \<Rightarrow> string \<Rightarrow> bool" where
  "strcaseeq a b \<longleftrightarrow> map tolower a = map tolower b"

text \<open>\<open>strrchr(s, c)\<close> with the found character skipped: what follows its last occurrence.\<close>

fun after_last :: "char \<Rightarrow> string \<Rightarrow> string option" where
  "after_last c [] = None"
| "after_last c (x # xs) =
     (case after_last c xs of Some r \<Rightarrow> Some r | None \<Rightarrow> if x = c then Some xs else None)"

section \<open>strtok\<close>

text \<open>
  One call of \<open>strtok\<close>: the text still to be scanned in, the token and the text the next call
  continues with out; \<open>None\<close> is the NULL that ends the scan.
\<close>

definition strtok :: "string \<Rightarrow> string \<Rightarrow> (string \<times> string) option" where
  "strtok delims s =
     (let s' = dropWhile (\<lambda>c. c \<in> set delims) s in
      if s' = [] then None
      else Some (takeWhile (\<lambda>c. c \<notin> set delims) s', drop 1 (dropWhile (\<lambda>c. c \<notin> set delims) s')))"

section \<open>atoi and atof\<close>

definition digits_val :: "int \<Rightarrow> int list \<Rightarrow> int" where
  "digits_val base ds = foldl (\<lambda>a d. base * a + d) 0 ds"

definition dec_digits :: "string \<Rightarrow> int list" where
  "dec_digits s = map (\<lambda>c. code c - 48) (takeWhile isdigit s)"

definition hex_digits :: "string \<Rightarrow> int list" where
  "hex_digits s = map (\<lambda>c. case xdigit_val c of Some d \<Rightarrow> d | None \<Rightarrow> 0)
     (takeWhile (\<lambda>c. xdigit_val c \<noteq> None) s)"

definition split_sign :: "string \<Rightarrow> bool \<times> string" where
  "split_sign s = (case s of [] \<Rightarrow> (False, [])
     | c # cs \<Rightarrow> if c = CHR ''-'' then (True, cs) else if c = CHR ''+'' then (False, cs) else (False, s))"

definition signed :: "bool \<Rightarrow> int \<Rightarrow> int" where
  "signed neg n = (if neg then - n else n)"

definition strtol :: "string \<Rightarrow> int" where
  "strtol s = (case split_sign (dropWhile isspace s) of (neg, t) \<Rightarrow>
     max (- (2 ^ 63)) (min (2 ^ 63 - 1) (signed neg (digits_val 10 (dec_digits t)))))"

definition atoi :: "string \<Rightarrow> int" where
  "atoi s = int32 (strtol s)"

text \<open>The exponent part: the marker, an optional sign and at least one digit, else nothing.\<close>

definition exponent :: "char \<Rightarrow> string \<Rightarrow> int" where
  "exponent marker s = (case s of [] \<Rightarrow> 0
     | c # cs \<Rightarrow> if tolower c \<noteq> marker then 0
         else (case split_sign cs of (neg, t) \<Rightarrow> signed neg (digits_val 10 (dec_digits t))))"

definition scale :: "rat \<Rightarrow> int \<Rightarrow> rat" where
  "scale base e = (if 0 \<le> e then base ^ nat e else 1 / base ^ nat (- e))"

text \<open>Mantissa digits, number of them after the point, and the rest of the text.\<close>

definition mantissa :: "(string \<Rightarrow> int list) \<Rightarrow> string \<Rightarrow> int list \<times> nat \<times> string" where
  "mantissa digs s =
     (let ip = digs s; r = drop (length ip) s in
      if r \<noteq> [] \<and> hd r = CHR ''.'' then
        (let fp = digs (tl r) in (ip @ fp, length fp, drop (length fp) (tl r)))
      else (ip, 0, r))"

definition starts_ci :: "string \<Rightarrow> string \<Rightarrow> bool" where
  "starts_ci p s \<longleftrightarrow> map tolower (take (length p) s) = p"

definition strtod_unsigned :: "string \<Rightarrow> double" where
  "strtod_unsigned t =
     (if starts_ci ''inf'' t then PInf
      else if starts_ci ''nan'' t then NaN
      else let (hd_ds, hn, hr) = mantissa hex_digits (drop 2 t) in
        if starts_ci ''0x'' t \<and> hd_ds \<noteq> [] then
          round_double (of_int (digits_val 16 hd_ds) * scale 2 (exponent (CHR ''p'') hr - 4 * int hn))
        else let (ds, n, r) = mantissa dec_digits t in
          if ds = [] then Fin 0
          else round_double (of_int (digits_val 10 ds) * scale 10 (exponent (CHR ''e'') r - int n)))"

definition atof :: "string \<Rightarrow> double" where
  "atof s = (case split_sign (dropWhile isspace s) of (neg, t) \<Rightarrow>
     if neg then d_neg (strtod_unsigned t) else strtod_unsigned t)"

section \<open>snprintf\<close>

function show_nat :: "int \<Rightarrow> string" where
  "show_nat n = (if n < 10 then [char_of (48 + n)] else show_nat (n div 10) @ [char_of (48 + n mod 10)])"
  by pat_completeness auto
termination
  by (relation "measure nat") auto

declare show_nat.simps [simp del]

definition show_int :: "int \<Rightarrow> string" where
  "show_int n = (if n < 0 then CHR ''-'' # show_nat (- n) else show_nat n)"

definition fixed2 :: "rat \<Rightarrow> string" where
  "fixed2 q = (let n = round_half_even (100 * q) in
     show_nat (n div 100) @ CHR ''.'' # [char_of (48 + n div 10 mod 10), char_of (48 + n mod 10)])"

fun show_f2 :: "double \<Rightarrow> string" where
  "show_f2 (Fin q) = (if q < 0 then CHR ''-'' # fixed2 (- q) else fixed2 q)"
| "show_f2 PInf = ''inf''"
| "show_f2 NInf = ''-inf''"
| "show_f2 NaN = ''nan''"

text \<open>\<open>snprintf(buf, n, ...)\<close> keeps at most \<open>n - 1\<close> characters.\<close>

definition snprintf :: "nat \<Rightarrow> string \<Rightarrow> string" where
  "snprintf n s = take (n - 1) s"

section \<open>Facts\<close>

lemma length_snprintf: "0 < n \<Longrightarrow> length (snprintf n s) < n"
  by (simp add: snprintf_def)

lemma atoi_fits: "fits 32 (atoi s)"
  by (simp add: atoi_def wrap_fits)

lemma code_char_of [simp]: "0 \<le> n \<Longrightarrow> n < 256 \<Longrightarrow> code (char_of n) = n"
  by (simp add: code_def of_char_of)

lemma tolower_tolower [simp]: "tolower (tolower c) = tolower c"
  by (simp add: tolower_def isupper_def)

lemma strcaseeq_refl [simp]: "strcaseeq a a"
  by (simp add: strcaseeq_def)

lemma strtok_token:
  assumes "strtok delims s = Some (t, r)"
  shows "t \<noteq> []" and "set t \<inter> set delims = {}"
proof -
  let ?d = "dropWhile (\<lambda>c. c \<in> set delims) s"
  have t: "t = takeWhile (\<lambda>c. c \<notin> set delims) ?d" and ne: "?d \<noteq> []"
    using assms by (auto simp: strtok_def Let_def split: if_splits)
  from ne have "hd ?d \<notin> set delims"
    by (rule hd_dropWhile)
  with ne show "t \<noteq> []"
    unfolding t by (cases ?d) auto
  show "set t \<inter> set delims = {}"
    unfolding t by (auto dest: set_takeWhileD)
qed

lemma strtok_rest_shorter: "strtok delims s = Some (t, r) \<Longrightarrow> length r < length s"
proof -
  assume a: "strtok delims s = Some (t, r)"
  let ?d = "dropWhile (\<lambda>c. c \<in> set delims) s"
  have ne: "?d \<noteq> []" and r: "r = drop 1 (dropWhile (\<lambda>c. c \<notin> set delims) ?d)"
    using a by (auto simp: strtok_def Let_def split: if_splits)
  have "length r = length (dropWhile (\<lambda>c. c \<notin> set delims) ?d) - 1"
    by (simp only: r length_drop)
  moreover have "0 < length ?d"
    using ne by (simp only: length_greater_0_conv not_False_eq_True)
  ultimately show ?thesis
    using length_dropWhile_le [of "\<lambda>c. c \<notin> set delims" ?d]
      length_dropWhile_le [of "\<lambda>c. c \<in> set delims" s] by linarith
qed

text \<open>Decimal text of a number and back.\<close>

lemma isdigit_char_of: "0 \<le> n \<Longrightarrow> n < 10 \<Longrightarrow> isdigit (char_of (48 + n :: int))"
  by (simp add: isdigit_def)

lemma show_nat_digits: "0 \<le> n \<Longrightarrow> \<forall>c \<in> set (show_nat n). isdigit c"
  by (induction n rule: show_nat.induct) (subst show_nat.simps, auto simp: isdigit_char_of)

lemma show_nat_nonempty: "show_nat n \<noteq> []"
  by (subst show_nat.simps) simp

lemma length_show_nat: "0 \<le> n \<Longrightarrow> n < 10 ^ k \<Longrightarrow> 0 < k \<Longrightarrow> length (show_nat n) \<le> k"
proof (induction n arbitrary: k rule: show_nat.induct)
  case (1 n)
  obtain j where k: "k = Suc j" using "1.prems"(3) by (cases k) auto
  show ?case
  proof (cases "n < 10")
    case False
    have "n div 10 < 10 ^ j" using "1.prems"(2) by (simp add: k div_less_iff_less_mult)
    moreover have "0 < j" using "1.prems"(2) False k by (cases j) auto
    ultimately have "length (show_nat (n div 10)) \<le> j" using "1.IH" [OF False, of j] "1.prems"(1) by simp
    with False show ?thesis by (simp add: show_nat.simps [of n] k)
  qed (simp add: show_nat.simps [of n] k)
qed

lemma digits_val_append: "digits_val b (xs @ [d]) = b * digits_val b xs + d"
  by (simp add: digits_val_def)

lemma dec_digits_all: "\<forall>c \<in> set s. isdigit c \<Longrightarrow> dec_digits s = map (\<lambda>c. code c - 48) s"
  by (simp add: dec_digits_def takeWhile_eq_all_conv [THEN iffD2])

lemma digits_val_show: "0 \<le> n \<Longrightarrow> digits_val 10 (dec_digits (show_nat n)) = n"
proof (induction n rule: show_nat.induct)
  case (1 n)
  show ?case
  proof (cases "n < 10")
    case True
    with "1.prems" show ?thesis
      by (simp add: show_nat.simps [of n] dec_digits_def isdigit_char_of digits_val_def)
  next
    case False
    have "dec_digits (show_nat n) = dec_digits (show_nat (n div 10)) @ [n mod 10]"
      using False "1.prems" show_nat_digits [of n] show_nat_digits [of "n div 10"]
      by (subst (1 2) dec_digits_all) (auto simp: show_nat.simps [of n])
    with False "1.IH" "1.prems" show ?thesis by (simp add: digits_val_append)
  qed
qed

lemma digit_facts: "isdigit c \<Longrightarrow> \<not> isspace c \<and> c \<noteq> CHR '','' \<and> c \<noteq> CHR ''-'' \<and> c \<noteq> CHR ''+'' \<and> tolower c = c \<and>
   c \<noteq> CHR ''i'' \<and> c \<noteq> CHR ''n'' \<and> c \<noteq> CHR ''x''"
  by (auto simp: isdigit_def isspace_def code_def tolower_def isupper_def)

lemma split_sign_digits: "\<forall>c \<in> set s. isdigit c \<Longrightarrow> split_sign (dropWhile isspace s) = (False, s)"
  using digit_facts by (cases s) (auto simp: split_sign_def)

lemma atoi_show: "0 \<le> n \<Longrightarrow> n < 2 ^ 31 \<Longrightarrow> atoi (show_nat n) = n"
  using split_sign_digits [OF show_nat_digits, of n]
  by (simp add: atoi_def strtol_def digits_val_show signed_def fits_def)

lemma starts_ci_digits: "\<forall>c \<in> set s. isdigit c \<Longrightarrow> \<not> starts_ci ''inf'' s \<and> \<not> starts_ci ''nan'' s \<and> \<not> starts_ci ''0x'' s"
  using digit_facts by (cases s rule: list.exhaust; cases "tl s"; cases "tl (tl s)") (auto simp: starts_ci_def)

lemma atof_show:
  assumes "0 \<le> n" "n < 2 ^ 53"
  shows "atof (show_nat n) = Fin (of_int n)"
proof -
  note d = show_nat_digits [OF assms(1)]
  have len: "length (dec_digits (show_nat n)) = length (show_nat n)"
    using d by (simp add: dec_digits_all)
  then have m: "mantissa dec_digits (show_nat n) = (dec_digits (show_nat n), 0, [])"
    by (simp add: mantissa_def Let_def)
  have "dec_digits (show_nat n) \<noteq> []" using len show_nat_nonempty [of n] by auto
  moreover have "round_double (of_int n) = Fin (of_int n)"
    using assms by (intro round_double_of_int) simp
  ultimately have "strtod_unsigned (show_nat n) = Fin (of_int n)"
    using starts_ci_digits [OF d] m digits_val_show [OF assms(1)]
    by (simp add: strtod_unsigned_def exponent_def scale_def split: prod.splits)
  then show ?thesis by (simp add: atof_def split_sign_digits [OF d])
qed

lemma strtok_field:
  assumes "t \<noteq> []" "set t \<inter> set d = {}"
  shows "c \<in> set d \<Longrightarrow> strtok d (t @ c # r) = Some (t, r)" and "strtok d t = Some (t, [])"
proof -
  have h: "dropWhile (\<lambda>c. c \<in> set d) (t @ u) = t @ u" for u
    using assms by (cases t) auto
  have n: "\<forall>c \<in> set t. c \<notin> set d" using assms(2) by blast
  show "strtok d (t @ c # r) = Some (t, r)" if "c \<in> set d"
    using that n assms(1) h [of "c # r"] by (simp add: strtok_def Let_def)
  show "strtok d t = Some (t, [])"
    using n assms(1) h [of "[]"] by (simp add: strtok_def Let_def dropWhile_eq_Nil_conv [THEN iffD2])
qed

end
