(* ===== verification/Orders.thy ===== *)
theory Orders
  imports C_Text
begin

text \<open>
  \<open>src/trading_engine/order.c\<close>: the order struct, its constructor, getters and setters, the
  comparison of two orders and the textual form. A function that takes an \<open>Order*\<close> takes an
  \<^typ>\<open>'a option\<close> here, and one that writes through the pointer returns the written struct.
  The length limits are those of \<open>order.h\<close>.
\<close>

section \<open>Data\<close>

definition MAX_ID_LENGTH :: nat where
  "MAX_ID_LENGTH = 64"

definition MAX_SYMBOL_LENGTH :: nat where
  "MAX_SYMBOL_LENGTH = 16"

record Order =
  order_id :: string
  trader_id :: string
  symbol :: string
  price :: double
  quantity :: int
  remaining_quantity :: int
  is_buy_order :: bool
  timestamp :: int
  is_canceled :: bool

section \<open>Constructor and getters\<close>

definition order_create ::
  "bool \<Rightarrow> int \<Rightarrow> string \<Rightarrow> string \<Rightarrow> string \<Rightarrow> double \<Rightarrow> int \<Rightarrow> bool \<Rightarrow> Order option" where
  "order_create malloc_ok now oid tid sy p q buy =
     (if \<not> malloc_ok then None
      else if MAX_ID_LENGTH \<le> length oid \<or> MAX_ID_LENGTH \<le> length tid \<or> MAX_SYMBOL_LENGTH \<le> length sy then None
      else Some \<lparr>order_id = copy_field MAX_ID_LENGTH oid,
                 trader_id = copy_field MAX_ID_LENGTH tid,
                 symbol = copy_field MAX_SYMBOL_LENGTH sy,
                 price = p, quantity = q, remaining_quantity = q, is_buy_order = buy,
                 timestamp = int64 now, is_canceled = False\<rparr>)"

definition order_get_id :: "Order option \<Rightarrow> string option" where
  "order_get_id o' = map_option order_id o'"

definition order_get_trader_id :: "Order option \<Rightarrow> string option" where
  "order_get_trader_id o' = map_option trader_id o'"

definition order_get_symbol :: "Order option \<Rightarrow> string option" where
  "order_get_symbol o' = map_option symbol o'"

definition order_get_price :: "Order option \<Rightarrow> double" where
  "order_get_price o' = (case o' of None \<Rightarrow> Fin 0 | Some o1 \<Rightarrow> price o1)"

definition order_get_quantity :: "Order option \<Rightarrow> int" where
  "order_get_quantity o' = (case o' of None \<Rightarrow> 0 | Some o1 \<Rightarrow> quantity o1)"

definition order_get_remaining_quantity :: "Order option \<Rightarrow> int" where
  "order_get_remaining_quantity o' = (case o' of None \<Rightarrow> 0 | Some o1 \<Rightarrow> remaining_quantity o1)"

definition order_is_buy_order :: "Order option \<Rightarrow> bool" where
  "order_is_buy_order o' = (case o' of None \<Rightarrow> False | Some o1 \<Rightarrow> is_buy_order o1)"

definition order_get_timestamp :: "Order option \<Rightarrow> int" where
  "order_get_timestamp o' = (case o' of None \<Rightarrow> 0 | Some o1 \<Rightarrow> timestamp o1)"

definition order_is_canceled :: "Order option \<Rightarrow> bool" where
  "order_is_canceled o' = (case o' of None \<Rightarrow> False | Some o1 \<Rightarrow> is_canceled o1)"

section \<open>Setters\<close>

definition order_set_price :: "Order option \<Rightarrow> double \<Rightarrow> Order option" where
  "order_set_price o' p = (case o' of None \<Rightarrow> None
     | Some o1 \<Rightarrow> if d_le p (Fin 0) then Some o1 else Some (o1\<lparr>price := p\<rparr>))"

definition order_set_quantity :: "Order option \<Rightarrow> int \<Rightarrow> rc \<times> Order option" where
  "order_set_quantity o' q = (case o' of None \<Rightarrow> (- 1, None)
     | Some o1 \<Rightarrow> if q < 0 then (- 1, Some o1)
                 else (0, Some (o1\<lparr>quantity := q, remaining_quantity := q\<rparr>)))"

definition order_reduce_quantity :: "Order option \<Rightarrow> int \<Rightarrow> rc \<times> Order option" where
  "order_reduce_quantity o' amount = (case o' of None \<Rightarrow> (- 1, None)
     | Some o1 \<Rightarrow>
         if amount < 0 then (- 1, Some o1)
         else if remaining_quantity o1 < amount then (- 1, Some o1)
         else (0, Some (o1\<lparr>remaining_quantity := remaining_quantity o1 - amount\<rparr>)))"

definition order_cancel :: "Order option \<Rightarrow> Order option" where
  "order_cancel o' = (case o' of None \<Rightarrow> None
     | Some o1 \<Rightarrow> if is_canceled o1 then Some o1 else Some (o1\<lparr>is_canceled := True\<rparr>))"

section \<open>Comparison and textual form\<close>

definition order_equals :: "Order option \<Rightarrow> Order option \<Rightarrow> bool" where
  "order_equals a b = (case (a, b) of (Some x, Some y) \<Rightarrow> order_id x = order_id y | _ \<Rightarrow> False)"

definition order_compare :: "Order option \<Rightarrow> Order option \<Rightarrow> int" where
  "order_compare a b = (case (a, b) of
     (Some x, Some y) \<Rightarrow>
       if \<not> d_eq (price x) (price y) then
         (if is_buy_order x then (if d_lt (price y) (price x) then - 1 else 1)
          else (if d_lt (price x) (price y) then - 1 else 1))
       else if timestamp x \<noteq> timestamp y then (if timestamp x < timestamp y then - 1 else 1)
       else 0
   | _ \<Rightarrow> 0)"

definition order_to_string :: "bool \<Rightarrow> Order option \<Rightarrow> string option" where
  "order_to_string malloc_ok o' = (case o' of None \<Rightarrow> None
     | Some o1 \<Rightarrow> if \<not> malloc_ok then None
         else Some (snprintf 256
           (''Order{id='' @ order_id o1 @ '', trader='' @ trader_id o1 @ '', symbol='' @ symbol o1 @
            '', price='' @ show_f2 (price o1) @ '', qty='' @ show_int (quantity o1) @
            '', remaining='' @ show_int (remaining_quantity o1) @ '', '' @
            (if is_buy_order o1 then ''BUY'' else ''SELL'') @ '', '' @
            (if is_canceled o1 then ''CANCELED'' else ''ACTIVE'') @ ''}'')))"

lemmas order_defs =
  order_create_def order_get_id_def order_get_trader_id_def order_get_symbol_def
  order_get_price_def order_get_quantity_def order_get_remaining_quantity_def
  order_is_buy_order_def order_get_timestamp_def order_is_canceled_def order_set_price_def
  order_set_quantity_def order_reduce_quantity_def order_cancel_def

declare order_defs [field_defs]

section \<open>The invariant of an order\<close>

text \<open>
  What the constructor establishes, for a quantity that is any \<open>int\<close>, and every setter keeps: the strings fit
  their arrays, and \<open>remaining_quantity \<le> quantity\<close>, both in the range of an \<open>int\<close>, so that the subtraction of
  \<open>order_reduce_quantity\<close> does not overflow. A negative quantity is not refused.
\<close>

definition order_ok :: "Order \<Rightarrow> bool" where
  "order_ok o1 \<longleftrightarrow>
     length (order_id o1) < MAX_ID_LENGTH \<and> length (trader_id o1) < MAX_ID_LENGTH \<and>
     length (symbol o1) < MAX_SYMBOL_LENGTH \<and>
     remaining_quantity o1 \<le> quantity o1 \<and> fits 32 (remaining_quantity o1) \<and> fits 32 (quantity o1)"

lemma order_create_SomeD:
  assumes "order_create m now oid tid sy p q buy = Some o1"
  shows "order_id o1 = oid" "trader_id o1 = tid" "symbol o1 = sy" "price o1 = p"
    "quantity o1 = q" "remaining_quantity o1 = q" "is_buy_order o1 = buy"
    "timestamp o1 = int64 now" "\<not> is_canceled o1"
    "length oid < MAX_ID_LENGTH" "length tid < MAX_ID_LENGTH" "length sy < MAX_SYMBOL_LENGTH"
  using assms by (auto simp: order_create_def split: if_splits)

lemma order_create_ok [invars]:
  "order_create m now oid tid sy p q buy = Some o1 \<Longrightarrow> fits 32 q \<Longrightarrow> order_ok o1"
  using order_create_SomeD [of m now oid tid sy p q buy o1] by (simp add: order_ok_def)

lemma order_reduce_ok [invars]:
  "order_reduce_quantity (Some o1) n = (r, Some o2) \<Longrightarrow> order_ok o1 \<Longrightarrow> order_ok o2"
  by (auto simp: order_reduce_quantity_def order_ok_def fits_def split: if_splits)

lemma order_set_quantity_ok [invars]:
  "order_set_quantity (Some o1) n = (r, Some o2) \<Longrightarrow> order_ok o1 \<Longrightarrow> fits 32 n \<Longrightarrow> order_ok o2"
  by (auto simp: order_set_quantity_def order_ok_def split: if_splits)

lemma order_set_price_ok [invars]:
  "order_set_price (Some o1) p = Some o2 \<Longrightarrow> order_ok o1 \<Longrightarrow> order_ok o2"
  by (auto simp: order_set_price_def order_ok_def split: if_splits)

lemma order_cancel_ok [invars]: "order_cancel (Some o1) = Some o2 \<Longrightarrow> order_ok o1 \<Longrightarrow> order_ok o2"
  by (auto simp: order_cancel_def order_ok_def split: if_splits)

lemma order_reduce_quantity_exact:
  "0 \<le> n \<Longrightarrow> n \<le> remaining_quantity o1 \<Longrightarrow>
   order_reduce_quantity (Some o1) n = (0, Some (o1\<lparr>remaining_quantity := remaining_quantity o1 - n\<rparr>))"
  by (simp add: order_reduce_quantity_def)

lemma order_cancel_Some: "order_cancel (Some o1) = Some (o1\<lparr>is_canceled := True\<rparr>)"
  by (simp add: order_cancel_def)

end
