(* ===== verification/Price_Index.thy ===== *)
theory Price_Index
  imports Prelude
begin

text \<open>
  The interface between an order book and the search tree that indexes one of its sides: an
  ordered index from keys (price and timestamp) to order references. The laws relate every
  operation to the sorted list of the items. An operation may fail (\<open>None\<close>); the laws say that
  it does not on a well-formed index and a valid key. The lemmas of the locale are what the
  matching loop of the book uses: the ends of the index are the extreme keys, and deleting
  the key at an end removes exactly that item.
\<close>

locale price_index =
  fixes empty :: "'t"
    and ins :: "'t \<Rightarrow> 'k::linorder \<Rightarrow> 'v \<Rightarrow> 't option"
    and del :: "'t \<Rightarrow> 'k \<Rightarrow> 't option"
    and lowest :: "'t \<Rightarrow> 'v option"
    and highest :: "'t \<Rightarrow> 'v option"
    and items :: "'t \<Rightarrow> ('k \<times> 'v) list"
    and ok :: "'t \<Rightarrow> bool"
    and valid :: "'k \<Rightarrow> bool"
  assumes empty_ok: "ok empty" and items_empty: "items empty = []"
    and ok_sorted: "ok t \<Longrightarrow> sorted_keys (items t)"
    and ok_valid: "ok t \<Longrightarrow> (k, v) \<in> set (items t) \<Longrightarrow> valid k"
    and ins_law: "ok t \<Longrightarrow> valid k \<Longrightarrow> \<exists>t'. ins t k v = Some t' \<and> ok t' \<and> items t' = ins_key k v (items t)"
    and del_law: "ok t \<Longrightarrow> valid k \<Longrightarrow> \<exists>t'. del t k = Some t' \<and> ok t' \<and> items t' = del_key k (items t)"
    and lowest_law: "lowest t = (if items t = [] then None else Some (snd (hd (items t))))"
    and highest_law: "highest t = (if items t = [] then None else Some (snd (last (items t))))"
begin

lemma lowest_least:
  assumes "ok t" "lowest t = Some v"
  shows "\<exists>k. (k, v) \<in> set (items t) \<and> (\<forall>(k', v') \<in> set (items t). k \<le> k')"
proof -
  obtain k where h: "items t = (k, v) # tl (items t)"
    using assms(2) by (cases "items t") (auto simp: lowest_law split: if_splits)
  with ok_sorted [OF assms(1)] have "\<forall>y \<in> set (tl (items t)). k < fst y"
    by (metis fst_conv sorted_keys_simps(2))
  then have "\<forall>(k', v') \<in> set ((k, v) # tl (items t)). k \<le> k'"
    by (auto intro: less_imp_le)
  with h show ?thesis
    by (metis list.set_intros(1))
qed

lemma highest_greatest:
  assumes "ok t" "highest t = Some v"
  shows "\<exists>k. (k, v) \<in> set (items t) \<and> (\<forall>(k', v') \<in> set (items t). k' \<le> k)"
proof -
  obtain k where h: "items t = butlast (items t) @ [(k, v)]"
    using assms(2) by (cases "items t" rule: rev_cases) (auto simp: highest_law split: if_splits)
  with ok_sorted [OF assms(1)] have "\<forall>x \<in> set (butlast (items t)). fst x < k"
    by (metis fst_conv list.set_intros(1) sorted_keys_append)
  then have "\<forall>(k', v') \<in> set (butlast (items t) @ [(k, v)]). k' \<le> k"
    by (auto intro: less_imp_le)
  with h show ?thesis
    by (metis in_set_conv_decomp)
qed

lemma del_lowest:
  assumes "ok t" "items t = (k, v) # xs"
  shows "\<exists>t'. del t k = Some t' \<and> ok t' \<and> items t' = xs"
proof -
  have "valid k" using ok_valid [OF assms(1)] assms(2) by auto
  moreover have "del_key k xs = xs"
    using ok_sorted [OF assms(1)] del_key_hd [of "(k, v)" xs] by (simp add: assms(2))
  ultimately show ?thesis
    using del_law [OF assms(1), of k] by (simp add: assms(2))
qed

lemma del_highest:
  assumes "ok t" "items t = xs @ [(k, v)]"
  shows "\<exists>t'. del t k = Some t' \<and> ok t' \<and> items t' = xs"
proof -
  have "valid k" using ok_valid [OF assms(1)] assms(2) by auto
  moreover have "del_key k (xs @ [(k, v)]) = xs"
    using ok_sorted [OF assms(1)] del_key_last [of xs "(k, v)"] by (simp add: assms(2))
  ultimately show ?thesis
    using del_law [OF assms(1), of k] by (simp add: assms(2))
qed

lemma ins_lookup:
  assumes "ok t" "valid k" "ins t k v = Some t'"
  shows "map_of (items t') = (map_of (items t))(k := Some (case map_of (items t) k of None \<Rightarrow> v | Some w \<Rightarrow> w))"
proof -
  have items: "items t' = ins_key k v (items t)" "ok t'"
    using ins_law [OF assms(1,2), of v] assms(3) by auto
  have "map_of (ins_key k v xs) = (map_of xs)(k := Some (case map_of xs k of None \<Rightarrow> v | Some w \<Rightarrow> w))"
    if "sorted_keys xs" for xs :: "('k \<times> 'v) list"
    using that
  proof (induction xs)
    case (Cons y ys)
    have "k < fst y \<Longrightarrow> map_of ys k = None"
      using Cons.prems by (force simp: map_of_eq_None_iff)
    with Cons show ?case
      by (cases y) (auto simp: fun_eq_iff not_less_iff_gr_or_eq split: option.splits)
  qed auto
  with items ok_sorted [OF assms(1)] show ?thesis by simp
qed

lemma del_lookup:
  assumes "ok t" "valid k" "del t k = Some t'"
  shows "map_of (items t') = (map_of (items t))(k := None)"
proof -
  have "items t' = del_key k (items t)"
    using del_law [OF assms(1,2)] assms(3) by auto
  moreover have "map_of (del_key k xs) = (map_of xs)(k := None)" for xs :: "('k \<times> 'v) list"
    by (induction xs) (auto simp: fun_eq_iff)
  ultimately show ?thesis by simp
qed

end

end
