(* ===== verification/AVL_Tree.thy ===== *)
theory AVL_Tree
  imports Machine Orders Price_Index "HOL-Library.Monad_Syntax"
begin

text \<open>
  \<open>src/trading_engine/avl_tree.c\<close>. A node carries its own copy of the price and timestamp,
  a reference to the order (the type variable: an address of the order store in the
  components above), its two children and the stored height. The nodes of a tree are owned
  by it alone, so the pointer updates of the source are rebuilds of the node here. A
  dereference of NULL in a rotation is \<open>None\<close>: the operations return an option, and the
  correctness theorems show that it is never \<open>None\<close> on a balanced tree. \<open>AVL_Heap\<close> has the
  same functions on pointers, with \<open>malloc\<close>, \<open>free\<close> and \<open>avl_destroy\<close>.
\<close>

section \<open>Nodes and rotations\<close>

datatype 'o avl_node =
    Null
  | Node double int 'o "'o avl_node" "'o avl_node" int

fun is_null :: "'o avl_node \<Rightarrow> bool" where
  "is_null Null = True"
| "is_null (Node _ _ _ _ _ _) = False"

fun get_height :: "'o avl_node \<Rightarrow> int" where
  "get_height Null = 0"
| "get_height (Node _ _ _ _ _ h) = h"

fun get_balance :: "'o avl_node \<Rightarrow> int" where
  "get_balance Null = 0"
| "get_balance (Node _ _ _ l r _) = get_height l - get_height r"

fun find_min_node :: "'o avl_node \<Rightarrow> 'o avl_node" where
  "find_min_node Null = Null"
| "find_min_node (Node p t x l r h) = (if is_null l then Node p t x l r h else find_min_node l)"

fun find_max_node :: "'o avl_node \<Rightarrow> 'o avl_node" where
  "find_max_node Null = Null"
| "find_max_node (Node p t x l r h) = (if is_null r then Node p t x l r h else find_max_node r)"

definition create_node :: "bool \<Rightarrow> double \<Rightarrow> int \<Rightarrow> 'o \<Rightarrow> 'o avl_node" where
  "create_node malloc_ok p t x = (if malloc_ok then Node p t x Null Null 1 else Null)"

text \<open>A node with its height set from its children's stored heights.\<close>

definition mk_node :: "double \<Rightarrow> int \<Rightarrow> 'o \<Rightarrow> 'o avl_node \<Rightarrow> 'o avl_node \<Rightarrow> 'o avl_node" where
  "mk_node p t x l r = Node p t x l r (max (get_height l) (get_height r) + 1)"

fun right_rotate :: "'o avl_node \<Rightarrow> 'o avl_node option" where
  "right_rotate (Node p t x (Node lp lt lx ll lr _) r _) = Some (mk_node lp lt lx ll (mk_node p t x lr r))"
| "right_rotate _ = None"

fun left_rotate :: "'o avl_node \<Rightarrow> 'o avl_node option" where
  "left_rotate (Node p t x l (Node rp rt rx rl rr _) _) = Some (mk_node rp rt rx (mk_node p t x l rl) rr)"
| "left_rotate _ = None"

section \<open>Comparison\<close>

definition compare_nodes :: "double \<Rightarrow> int \<Rightarrow> double \<Rightarrow> int \<Rightarrow> bool \<Rightarrow> int" where
  "compare_nodes p1 t1 p2 t2 is_buy =
     (if \<not> d_eq p1 p2 then
        (if is_buy then (if d_lt p2 p1 then 1 else - 1) else (if d_lt p1 p2 then - 1 else 1))
      else if t1 < t2 then - 1 else if t2 < t1 then 1 else 0)"

text \<open>The comparison with the key of a node, \<open>None\<close> when the node is NULL.\<close>

fun compare_with :: "double \<Rightarrow> int \<Rightarrow> 'o avl_node \<Rightarrow> bool \<Rightarrow> int option" where
  "compare_with p t Null b = None"
| "compare_with p t (Node np nt _ _ _ _) b = Some (compare_nodes p t np nt b)"

section \<open>Insertion and deletion\<close>

text \<open>
  The part of \<open>insert_node\<close> after the recursive call: height update, balance factor and the
  four cases, each guard tested in the source's order with its short-circuit.
\<close>

fun insert_fixup :: "'o avl_node \<Rightarrow> double \<Rightarrow> int \<Rightarrow> bool \<Rightarrow> 'o avl_node option" where
  "insert_fixup Null p t b = None"
| "insert_fixup (Node np nt x l r _) p t b =
     (let node = mk_node np nt x l r; balance = get_balance node in
      if balance > 1 then do {
        c \<leftarrow> compare_with p t l b;
        if c < 0 then right_rotate node
        else if c > 0 then do { l' \<leftarrow> left_rotate l; right_rotate (mk_node np nt x l' r) }
        else Some node }
      else if balance < - 1 then do {
        c \<leftarrow> compare_with p t r b;
        if c > 0 then left_rotate node
        else if c < 0 then do { r' \<leftarrow> right_rotate r; left_rotate (mk_node np nt x l r') }
        else Some node }
      else Some node)"

fun insert_node :: "bool \<Rightarrow> 'o avl_node \<Rightarrow> double \<Rightarrow> int \<Rightarrow> 'o \<Rightarrow> bool \<Rightarrow> 'o avl_node option" where
  "insert_node m Null p t x b = Some (create_node m p t x)"
| "insert_node m (Node np nt nx l r h) p t x b =
     (let cmp = compare_nodes p t np nt b in
      if cmp < 0 then do { l' \<leftarrow> insert_node m l p t x b; insert_fixup (Node np nt nx l' r h) p t b }
      else if cmp > 0 then do { r' \<leftarrow> insert_node m r p t x b; insert_fixup (Node np nt nx l r' h) p t b }
      else Some (Node np nt nx l r h))"

fun delete_fixup :: "'o avl_node \<Rightarrow> 'o avl_node option" where
  "delete_fixup Null = Some Null"
| "delete_fixup (Node p t x l r _) =
     (let node = mk_node p t x l r; balance = get_balance node in
      if balance > 1 \<and> get_balance l \<ge> 0 then right_rotate node
      else if balance > 1 \<and> get_balance l < 0 then do {
        l' \<leftarrow> left_rotate l; right_rotate (mk_node p t x l' r) }
      else if balance < - 1 \<and> get_balance r \<le> 0 then left_rotate node
      else if balance < - 1 \<and> get_balance r > 0 then do {
        r' \<leftarrow> right_rotate r; left_rotate (mk_node p t x l r') }
      else Some node)"

fun delete_node :: "'o avl_node \<Rightarrow> double \<Rightarrow> int \<Rightarrow> bool \<Rightarrow> 'o avl_node option" where
  "delete_node Null p t b = Some Null"
| "delete_node (Node np nt nx l r h) p t b =
     (let cmp = compare_nodes p t np nt b in
      if cmp < 0 then do { l' \<leftarrow> delete_node l p t b; delete_fixup (Node np nt nx l' r h) }
      else if cmp > 0 then do { r' \<leftarrow> delete_node r p t b; delete_fixup (Node np nt nx l r' h) }
      else if is_null l \<or> is_null r then delete_fixup (if is_null l then r else l)
      else (case find_min_node r of
              Null \<Rightarrow> None
            | Node sp st sx _ _ _ \<Rightarrow>
                do { r' \<leftarrow> delete_node r sp st b; delete_fixup (Node sp st sx l r' h) }))"

section \<open>The tree handle\<close>

record 'o AVLTree =
  root :: "'o avl_node"
  is_buy_tree :: bool

definition avl_create :: "bool \<Rightarrow> bool \<Rightarrow> 'o AVLTree option" where
  "avl_create malloc_ok b = (if malloc_ok then Some \<lparr>root = Null, is_buy_tree = b\<rparr> else None)"

definition avl_is_empty :: "'o AVLTree option \<Rightarrow> bool" where
  "avl_is_empty tree = (case tree of None \<Rightarrow> True | Some t \<Rightarrow> is_null (root t))"

text \<open>The outer option is the NULL dereference, the inner one the tree pointer.\<close>

definition avl_insert ::
  "bool \<Rightarrow> 'o AVLTree option \<Rightarrow> double \<Rightarrow> int \<Rightarrow> 'o \<Rightarrow> 'o AVLTree option option" where
  "avl_insert m tree p ts x = (case tree of None \<Rightarrow> Some None
     | Some t \<Rightarrow> do { n \<leftarrow> insert_node m (root t) p ts x (is_buy_tree t); Some (Some (t\<lparr>root := n\<rparr>)) })"

definition avl_delete_order :: "'o AVLTree option \<Rightarrow> double \<Rightarrow> int \<Rightarrow> 'o AVLTree option option" where
  "avl_delete_order tree p ts = (case tree of None \<Rightarrow> Some None
     | Some t \<Rightarrow> do { n \<leftarrow> delete_node (root t) p ts (is_buy_tree t); Some (Some (t\<lparr>root := n\<rparr>)) })"

definition node_order :: "'o avl_node \<Rightarrow> 'o option" where
  "node_order n = (case n of Null \<Rightarrow> None | Node _ _ x _ _ _ \<Rightarrow> Some x)"

definition avl_find_min :: "'o AVLTree option \<Rightarrow> 'o option" where
  "avl_find_min tree = (case tree of None \<Rightarrow> None
     | Some t \<Rightarrow> if is_null (root t) then None else node_order (find_min_node (root t)))"

definition avl_find_max :: "'o AVLTree option \<Rightarrow> 'o option" where
  "avl_find_max tree = (case tree of None \<Rightarrow> None
     | Some t \<Rightarrow> if is_null (root t) then None else node_order (find_max_node (root t)))"

fun inorder_traverse_helper :: "'o avl_node \<Rightarrow> ('o \<Rightarrow> 's \<Rightarrow> 's) \<Rightarrow> 's \<Rightarrow> 's" where
  "inorder_traverse_helper Null callback s = s"
| "inorder_traverse_helper (Node p t x l r h) callback s =
     inorder_traverse_helper r callback (callback x (inorder_traverse_helper l callback s))"

definition avl_inorder_traverse :: "'o AVLTree option \<Rightarrow> ('o \<Rightarrow> 's \<Rightarrow> 's) option \<Rightarrow> 's \<Rightarrow> 's" where
  "avl_inorder_traverse tree callback s =
     (case (tree, callback) of (Some t, Some f) \<Rightarrow> inorder_traverse_helper (root t) f s | _ \<Rightarrow> s)"

section \<open>Abstraction and invariants\<close>

type_synonym key = "double \<times> int"

fun entries :: "'o avl_node \<Rightarrow> (key \<times> 'o) list" where
  "entries Null = []"
| "entries (Node p t x l r h) = entries l @ ((p, t), x) # entries r"

fun real_height :: "'o avl_node \<Rightarrow> int" where
  "real_height Null = 0"
| "real_height (Node _ _ _ l r _) = max (real_height l) (real_height r) + 1"

text \<open>Balanced, with every stored height correct.\<close>

fun avl :: "'o avl_node \<Rightarrow> bool" where
  "avl Null = True"
| "avl (Node _ _ _ l r h) \<longleftrightarrow>
     \<bar>real_height l - real_height r\<bar> \<le> 1 \<and> h = max (real_height l) (real_height r) + 1 \<and> avl l \<and> avl r"

definition no_nan :: "'o avl_node \<Rightarrow> bool" where
  "no_nan n \<longleftrightarrow> (\<forall>e \<in> set (entries n). fst (fst e) \<noteq> NaN)"

definition bst :: "'o avl_node \<Rightarrow> bool" where
  "bst n \<longleftrightarrow> sorted_keys (entries n)"

definition tree_ok :: "'o avl_node \<Rightarrow> bool" where
  "tree_ok n \<longleftrightarrow> avl n \<and> bst n \<and> no_nan n"

section \<open>The comparison is the lexicographic order of the keys\<close>

lemma compare_nodes_key:
  assumes "p1 \<noteq> NaN" and "p2 \<noteq> NaN"
  shows "compare_nodes p1 t1 p2 t2 b =
    (if (p1, t1) < (p2, t2) then - 1 else if (p2, t2) < (p1, t1) then 1 else 0)"
  using assms by (auto simp: compare_nodes_def d_eq_def d_lt_less less_prod_simp)

lemma compare_nodes_refl [simp]: "p \<noteq> NaN \<Longrightarrow> compare_nodes p t p t b = 0"
  by (simp add: compare_nodes_key)

section \<open>Structure: entries and heights\<close>

lemma entries_mk_node [simp]: "entries (mk_node p t x l r) = entries l @ ((p, t), x) # entries r"
  by (simp add: mk_node_def)

lemma real_height_mk_node [simp]: "real_height (mk_node p t x l r) = max (real_height l) (real_height r) + 1"
  by (simp add: mk_node_def)

lemma entries_create_node [simp]: "entries (create_node m p t x) = (if m then [((p, t), x)] else [])"
  by (simp add: create_node_def)

lemma entries_right_rotate: "right_rotate n = Some n' \<Longrightarrow> entries n' = entries n"
  by (cases n rule: right_rotate.cases) auto

lemma entries_left_rotate: "left_rotate n = Some n' \<Longrightarrow> entries n' = entries n"
  by (cases n rule: left_rotate.cases) auto

lemma is_null_iff: "is_null n \<longleftrightarrow> n = Null"
  by (cases n) auto

lemma rotate_mk_node [simp]:
  "right_rotate (mk_node p t x (Node lp lt lx ll lr h) r) = Some (mk_node lp lt lx ll (mk_node p t x lr r))"
  "right_rotate (mk_node p t x (mk_node lp lt lx ll lr) r) = Some (mk_node lp lt lx ll (mk_node p t x lr r))"
  "left_rotate (mk_node p t x l (Node rp rt rx rl rr h)) = Some (mk_node rp rt rx (mk_node p t x l rl) rr)"
  "left_rotate (mk_node p t x l (mk_node rp rt rx rl rr)) = Some (mk_node rp rt rx (mk_node p t x l rl) rr)"
  by (simp_all add: mk_node_def)

lemmas entries_rotate = entries_right_rotate entries_left_rotate

lemma entries_insert_fixup: "insert_fixup n p t b = Some n' \<Longrightarrow> entries n' = entries n"
  by (cases n) (auto simp: Let_def bind_eq_Some_conv dest!: entries_rotate split: if_splits)

lemma entries_delete_fixup: "delete_fixup n = Some n' \<Longrightarrow> entries n' = entries n"
  by (cases n) (auto simp: Let_def bind_eq_Some_conv dest!: entries_rotate split: if_splits)

lemma real_height_nonneg: "0 \<le> real_height n"
  by (induction n) auto

lemma real_height_0 [simp]: "real_height n = 0 \<longleftrightarrow> n = Null"
proof (cases n)
  case (Node p t x l r h)
  then show ?thesis using real_height_nonneg [of l] by simp
qed simp

lemma get_height_avl [simp]: "avl n \<Longrightarrow> get_height n = real_height n"
  by (cases n) auto

lemma avl_mk_node [simp]:
  "avl l \<Longrightarrow> avl r \<Longrightarrow> avl (mk_node p t x l r) \<longleftrightarrow> \<bar>real_height l - real_height r\<bar> \<le> 1"
  by (simp add: mk_node_def)

lemma get_balance_mk_node [simp]: "get_balance (mk_node p t x l r) = get_height l - get_height r"
  by (simp add: mk_node_def)

lemma no_nan_simps [simp]:
  "no_nan Null"
  "no_nan (Node p t x l r h) \<longleftrightarrow> p \<noteq> NaN \<and> no_nan l \<and> no_nan r"
  by (auto simp: no_nan_def)

lemma no_nan_entries: "entries n' = entries n \<Longrightarrow> no_nan n' \<longleftrightarrow> no_nan n"
  by (simp add: no_nan_def)

lemma bst_simps [simp]:
  "bst Null"
  "bst (Node p t x l r h) \<longleftrightarrow> bst l \<and> bst r \<and>
     (\<forall>e \<in> set (entries l). fst e < (p, t)) \<and> (\<forall>e \<in> set (entries r). (p, t) < fst e)"
  by (auto simp: bst_def intro: order_less_trans)

section \<open>Insertion\<close>

text \<open>
  After an insertion that made the tree higher, the higher subtree of the root is the one on
  the side of the inserted key: this is why the source may choose the rotation by comparing
  the new key with the child's.
\<close>

fun grown_towards :: "key \<Rightarrow> 'o avl_node \<Rightarrow> bool" where
  "grown_towards k Null = False"
| "grown_towards k (Node p t _ l r _) \<longleftrightarrow>
     (k < (p, t) \<and> real_height l = real_height r + 1) \<or> ((p, t) < k \<and> real_height r = real_height l + 1)"

lemma insert_fixup_left:
  assumes "avl l" "avl r" "no_nan l" "p \<noteq> NaN"
    and "real_height r - 1 \<le> real_height l" "real_height l \<le> real_height r + 2"
    and "real_height l = real_height r + 2 \<Longrightarrow> grown_towards (p, t) l"
  shows "\<exists>n. insert_fixup (Node np nt x l r h) p t b = Some n \<and> avl n \<and>
    real_height n = (if real_height l = real_height r + 2 then real_height l
                     else max (real_height l) (real_height r) + 1) \<and>
    (real_height l \<noteq> real_height r + 2 \<longrightarrow> n = mk_node np nt x l r)"
proof (cases "real_height l = real_height r + 2")
  case False
  with assms show ?thesis by (auto simp: Let_def)
next
  case True
  then obtain lp lt lx ll lr lh where l: "l = Node lp lt lx ll lr lh"
    using real_height_nonneg [of r] by (cases l) auto
  show ?thesis
  proof (cases "(p, t) < (lp, lt)")
    case c: True
    with True assms show ?thesis
      by (auto simp: l Let_def compare_nodes_key)
  next
    case c: False
    with True assms have g: "(lp, lt) < (p, t)" "real_height lr = real_height ll + 1"
      by (auto simp: l)
    then obtain rp rt rx rl rr rh where lr: "lr = Node rp rt rx rl rr rh"
      using real_height_nonneg [of ll] by (cases lr) auto
    show ?thesis
      using True assms g c by (auto simp: l lr Let_def compare_nodes_key)
  qed
qed

lemma insert_fixup_right:
  assumes "avl l" "avl r" "no_nan r" "p \<noteq> NaN"
    and "real_height l - 1 \<le> real_height r" "real_height r \<le> real_height l + 2"
    and "real_height r = real_height l + 2 \<Longrightarrow> grown_towards (p, t) r"
  shows "\<exists>n. insert_fixup (Node np nt x l r h) p t b = Some n \<and> avl n \<and>
    real_height n = (if real_height r = real_height l + 2 then real_height r
                     else max (real_height l) (real_height r) + 1) \<and>
    (real_height r \<noteq> real_height l + 2 \<longrightarrow> n = mk_node np nt x l r)"
proof (cases "real_height r = real_height l + 2")
  case False
  with assms show ?thesis by (auto simp: Let_def)
next
  case True
  then obtain rp rt rx rl rr rh where r: "r = Node rp rt rx rl rr rh"
    using real_height_nonneg [of l] by (cases r) auto
  show ?thesis
  proof (cases "(rp, rt) < (p, t)")
    case c: True
    with True assms show ?thesis
      by (auto simp: r Let_def compare_nodes_key)
  next
    case c: False
    with True assms have g: "(p, t) < (rp, rt)" "real_height rl = real_height rr + 1"
      by (auto simp: r)
    then obtain sp st sx sl sr sh where rl: "rl = Node sp st sx sl sr sh"
      using real_height_nonneg [of rr] by (cases rl) auto
    show ?thesis
      using True assms g c by (auto simp: r rl Let_def compare_nodes_key)
  qed
qed

definition inserted :: "key \<Rightarrow> 'o \<Rightarrow> 'o avl_node \<Rightarrow> 'o avl_node \<Rightarrow> bool" where
  "inserted k x n n' \<longleftrightarrow> avl n' \<and> no_nan n' \<and> entries n' = ins_key k x (entries n) \<and>
     (real_height n' = real_height n \<or>
      real_height n' = real_height n + 1 \<and> (n \<noteq> Null \<longrightarrow> grown_towards k n'))"

lemma insert_fixup_inserted_left:
  assumes "tree_ok (Node np nt nx l r h)" "p \<noteq> NaN" "(p, t) < (np, nt)" "inserted (p, t) x l l'"
  shows "\<exists>m. insert_fixup (Node np nt nx l' r h) p t b = Some m \<and>
    inserted (p, t) x (Node np nt nx l r h) m"
proof -
  note l' = assms(4) [unfolded inserted_def] and n = assms(1) [unfolded tree_ok_def]
  have g: "grown_towards (p, t) l'" if "real_height l' = real_height r + 2"
  proof -
    have "l \<noteq> Null" using that l' n real_height_nonneg [of r] by fastforce
    with that l' n show ?thesis by auto
  qed
  obtain m where m: "insert_fixup (Node np nt nx l' r h) p t b = Some m" "avl m"
    "real_height m = (if real_height l' = real_height r + 2 then real_height l'
                      else max (real_height l') (real_height r) + 1)"
    "real_height l' \<noteq> real_height r + 2 \<longrightarrow> m = mk_node np nt nx l' r"
    using insert_fixup_left [of l' r p t np nt nx h b] g l' n assms(2) by fastforce
  note e = entries_insert_fixup [OF m(1)]
  have "real_height m = real_height (Node np nt nx l r h) \<or>
      real_height m = real_height (Node np nt nx l r h) + 1 \<and> grown_towards (p, t) m"
    using m(3,4) l' n assms(3)
    by (auto simp: mk_node_def max_def simp del: real_height_0 split: if_splits)
  with m(1,2) e no_nan_entries [OF e] l' n assms(3) show ?thesis
    by (auto simp: inserted_def ins_key_append_right)
qed

lemma insert_fixup_inserted_right:
  assumes "tree_ok (Node np nt nx l r h)" "p \<noteq> NaN" "(np, nt) < (p, t)" "inserted (p, t) x r r'"
  shows "\<exists>m. insert_fixup (Node np nt nx l r' h) p t b = Some m \<and>
    inserted (p, t) x (Node np nt nx l r h) m"
proof -
  note r' = assms(4) [unfolded inserted_def] and n = assms(1) [unfolded tree_ok_def]
  have g: "grown_towards (p, t) r'" if "real_height r' = real_height l + 2"
  proof -
    have "r \<noteq> Null" using that r' n real_height_nonneg [of l] by fastforce
    with that r' n show ?thesis by auto
  qed
  obtain m where m: "insert_fixup (Node np nt nx l r' h) p t b = Some m" "avl m"
    "real_height m = (if real_height r' = real_height l + 2 then real_height r'
                      else max (real_height l) (real_height r') + 1)"
    "real_height r' \<noteq> real_height l + 2 \<longrightarrow> m = mk_node np nt nx l r'"
    using insert_fixup_right [of l r' p t np nt nx h b] g r' n assms(2) by fastforce
  note e = entries_insert_fixup [OF m(1)]
  have "real_height m = real_height (Node np nt nx l r h) \<or>
      real_height m = real_height (Node np nt nx l r h) + 1 \<and> grown_towards (p, t) m"
    using m(3,4) r' n assms(3)
    by (auto simp: mk_node_def max_def simp del: real_height_0 split: if_splits)
  moreover have "\<forall>e \<in> set (entries l). fst e < (p, t)" "\<not> (p, t) < (np, nt)"
    using n assms(3) by (auto intro: order_less_trans)
  ultimately show ?thesis
    using m(1,2) e no_nan_entries [OF e] r' n assms(3)
    by (auto simp: inserted_def ins_key_append_left)
qed

text \<open>
  Insertion into a balanced search tree: it returns, keeps the tree balanced with correct
  stored heights, and its entries are those of the sorted list insertion.
\<close>

lemma insert_node_inserted:
  assumes "tree_ok n" "p \<noteq> NaN"
  shows "\<exists>n'. insert_node True n p t x b = Some n' \<and> inserted (p, t) x n n'"
  using assms
proof (induction n)
  case Null
  then show ?case by (simp add: create_node_def inserted_def)
next
  case (Node np nt nx l r h)
  note ok = Node.prems(1) and np = Node.prems(2)
  have sub: "tree_ok l" "tree_ok r" and cmp: "compare_nodes p t np nt b =
      (if (p, t) < (np, nt) then - 1 else if (np, nt) < (p, t) then 1 else 0)"
    using ok np by (simp_all add: tree_ok_def compare_nodes_key)
  consider "(p, t) < (np, nt)" | "(np, nt) < (p, t)" | "(p, t) = (np, nt)"
    using linorder_less_linear by blast
  then show ?case
  proof cases
    case 1
    from Node.IH(1) [OF sub(1) np] obtain l' where
      "insert_node True l p t x b = Some l'" "inserted (p, t) x l l'" by blast
    with 1 insert_fixup_inserted_left [OF ok np 1] show ?thesis by (auto simp: cmp)
  next
    case 2
    from Node.IH(2) [OF sub(2) np] obtain r' where
      "insert_node True r p t x b = Some r'" "inserted (p, t) x r r'" by blast
    with 2 insert_fixup_inserted_right [OF ok np 2] show ?thesis by (auto simp: cmp)
  next
    case 3
    then have "\<forall>e \<in> set (entries l). fst e < (p, t)" using ok by (auto simp: tree_ok_def)
    with 3 ok show ?thesis
      by (auto simp: cmp inserted_def tree_ok_def ins_key_append_left)
  qed
qed

lemma insert_node_ok:
  assumes "tree_ok n" "p \<noteq> NaN"
  obtains n' where "insert_node True n p t x b = Some n'" "tree_ok n'"
    "entries n' = ins_key (p, t) x (entries n)"
  using insert_node_inserted [OF assms, of t x b] assms(1)
  by (auto simp: inserted_def tree_ok_def bst_def sorted_ins_key)

section \<open>Deletion\<close>

lemma delete_fixup_spec:
  assumes "avl l" "avl r" "\<bar>real_height l - real_height r\<bar> \<le> 2"
  shows "\<exists>n. delete_fixup (Node p t x l r h) = Some n \<and> avl n \<and>
    (if \<bar>real_height l - real_height r\<bar> \<le> 1 then real_height n = max (real_height l) (real_height r) + 1
     else real_height n \<in> {max (real_height l) (real_height r), max (real_height l) (real_height r) + 1})"
proof -
  consider "\<bar>real_height l - real_height r\<bar> \<le> 1" | "real_height l = real_height r + 2"
    | "real_height r = real_height l + 2"
    using assms(3) by linarith
  then show ?thesis
  proof cases
    case 1
    with assms show ?thesis by (auto simp: Let_def)
  next
    case 2
    then obtain lp lt lx ll lr lh where l: "l = Node lp lt lx ll lr lh"
      using real_height_nonneg [of r] by (cases l) auto
    show ?thesis
    proof (cases lr)
      case Null
      with 2 assms real_height_nonneg [of ll] real_height_nonneg [of r] show ?thesis
        by (auto simp: l Let_def max_def simp del: real_height_0)
    next
      case (Node rp rt rx rl rr rh)
      with 2 assms show ?thesis
        by (cases "real_height lr \<le> real_height ll") (auto simp: l Let_def simp del: real_height_0)
    qed
  next
    case 3
    then obtain rp rt rx rl rr rh where r: "r = Node rp rt rx rl rr rh"
      using real_height_nonneg [of l] by (cases r) auto
    show ?thesis
    proof (cases rl)
      case Null
      with 3 assms real_height_nonneg [of rr] real_height_nonneg [of l] show ?thesis
        by (auto simp: r Let_def max_def simp del: real_height_0)
    next
      case (Node sp st sx sl sr sh)
      with 3 assms show ?thesis
        by (cases "real_height rl \<le> real_height rr") (auto simp: r Let_def simp del: real_height_0)
    qed
  qed
qed

lemma find_min_entries:
  "n \<noteq> Null \<Longrightarrow> \<exists>sp st sx l r h. find_min_node n = Node sp st sx l r h \<and>
     entries n = ((sp, st), sx) # tl (entries n)"
proof (induction n)
  case (Node p t x l r h)
  show ?case
  proof (cases l)
    case (Node p' t' x' l' r' h')
    with Node.IH(1) show ?thesis by (metis append_Cons avl_node.distinct(1) entries.simps(2) find_min_node.simps(2) is_null.simps(2) list.sel(3))
  qed simp
qed simp

lemma find_max_entries:
  "n \<noteq> Null \<Longrightarrow> \<exists>sp st sx l r h. find_max_node n = Node sp st sx l r h \<and>
     entries n = butlast (entries n) @ [((sp, st), sx)]"
proof (induction n)
  case (Node p t x l r h)
  show ?case
  proof (cases r)
    case Null
    then show ?thesis by (simp add: butlast_append)
  next
    case (Node p' t' x' l' r' h')
    then have "entries r \<noteq> []" by simp
    with Node Node.IH(2) show ?thesis by (auto simp: butlast_append)
  qed
qed simp

definition deleted :: "key \<Rightarrow> 'o avl_node \<Rightarrow> 'o avl_node \<Rightarrow> bool" where
  "deleted k n n' \<longleftrightarrow> avl n' \<and> no_nan n' \<and> entries n' = del_key k (entries n) \<and>
     real_height n' \<in> {real_height n, real_height n - 1}"

text \<open>The rebalancing step, whichever of the two subtrees lost a level.\<close>

lemma delete_fixup_deleted:
  assumes "avl (Node np nt nx l r h)" "no_nan l'" "no_nan r'" "p \<noteq> NaN" "avl l'" "avl r'"
    and "(real_height l' \<in> {real_height l, real_height l - 1} \<and> r' = r) \<or>
         (real_height r' \<in> {real_height r, real_height r - 1} \<and> l' = l)"
    and "entries l' @ ((p, t), x) # entries r' = del_key k (entries (Node np nt nx l r h))"
  shows "\<exists>m. delete_fixup (Node p t x l' r' h') = Some m \<and> deleted k (Node np nt nx l r h) m"
proof -
  have "\<bar>real_height l' - real_height r'\<bar> \<le> 2"
    using assms(1,7) by auto
  from delete_fixup_spec [OF assms(5,6) this, of p t x h'] obtain m where
    m: "delete_fixup (Node p t x l' r' h') = Some m" "avl m" and
    h: "if \<bar>real_height l' - real_height r'\<bar> \<le> 1 then real_height m = max (real_height l') (real_height r') + 1
        else real_height m \<in> {max (real_height l') (real_height r'), max (real_height l') (real_height r') + 1}"
    by blast
  have e: "entries m = entries (Node p t x l' r' h')"
    by (rule entries_delete_fixup [OF m(1)])
  have "real_height m \<in> {real_height (Node np nt nx l r h), real_height (Node np nt nx l r h) - 1}"
    using h assms(1,7) by (auto simp: max_def simp del: real_height_0 split: if_splits)
  with m e no_nan_entries [OF e] assms(2-4,8) show ?thesis
    by (auto simp: deleted_def)
qed

lemma delete_one_child:
  assumes "tree_ok (Node np nt nx l r h)" "is_null l \<or> is_null r"
  shows "\<exists>m. delete_fixup (if is_null l then r else l) = Some m \<and>
    deleted (np, nt) (Node np nt nx l r h) m"
proof -
  define c where "c = (if is_null l then r else l)"
  have "(np, nt) \<notin> fst ` set (entries l)" "(np, nt) \<notin> fst ` set (entries r)"
    using assms(1) by (auto simp: tree_ok_def)
  then have e: "entries c = del_key (np, nt) (entries (Node np nt nx l r h))"
    using assms(2) by (auto simp: c_def del_key_id is_null_iff)
  have c: "avl c" "no_nan c" "real_height c = real_height (Node np nt nx l r h) - 1"
    using assms real_height_nonneg [of l] real_height_nonneg [of r]
    by (cases l; cases r; auto simp: c_def tree_ok_def max_def)+
  have "delete_fixup c = Some c"
    using c(1) by (cases c) (auto simp: Let_def mk_node_def)
  with c e show ?thesis
    unfolding c_def [symmetric] by (auto simp: deleted_def)
qed

lemma delete_node_deleted:
  assumes "tree_ok n" "p \<noteq> NaN"
  shows "\<exists>n'. delete_node n p t b = Some n' \<and> deleted (p, t) n n'"
  using assms
proof (induction n arbitrary: p t)
  case Null
  then show ?case by (simp add: deleted_def)
next
  case (Node np nt nx l r h)
  note ok = Node.prems(1) [unfolded tree_ok_def] and np = Node.prems(2)
  have sub: "tree_ok l" "tree_ok r" and cmp: "compare_nodes p t np nt b =
      (if (p, t) < (np, nt) then - 1 else if (np, nt) < (p, t) then 1 else 0)"
    using ok np by (simp_all add: tree_ok_def compare_nodes_key)
  have c0: "compare_nodes np nt np nt b = 0" using ok by simp
  consider "(p, t) < (np, nt)" | "(np, nt) < (p, t)"
    | "(p, t) = (np, nt)" "is_null l \<or> is_null r" | "(p, t) = (np, nt)" "\<not> is_null l" "\<not> is_null r"
    using linorder_less_linear by blast
  then show ?case
  proof cases
    case 1
    from Node.IH(1) [OF sub(1) np] obtain l' where
      l': "delete_node l p t b = Some l'" "deleted (p, t) l l'" by blast
    have "(p, t) \<notin> fst ` set (entries r)"
      using ok 1 by (auto dest: order_less_trans)
    then have "entries l' @ ((np, nt), nx) # entries r = del_key (p, t) (entries (Node np nt nx l r h))"
      using l'(2) 1 by (auto simp: deleted_def del_key_id)
    with delete_fixup_deleted [of np nt nx l r h l' r np nt nx "(p, t)" h] l' ok 1 show ?thesis
      by (auto simp: cmp deleted_def)
  next
    case 2
    from Node.IH(2) [OF sub(2) np] obtain r' where
      r': "delete_node r p t b = Some r'" "deleted (p, t) r r'" by blast
    have "(p, t) \<notin> fst ` set (entries l)"
      using ok 2 by (auto dest: order_less_trans)
    then have "entries l @ ((np, nt), nx) # entries r' = del_key (p, t) (entries (Node np nt nx l r h))"
      using r'(2) 2 by (auto simp: deleted_def del_key_id)
    with delete_fixup_deleted [of np nt nx l r h l r' np nt nx "(p, t)" h] r' ok 2 show ?thesis
      by (auto simp: cmp deleted_def)
  next
    case 3
    with delete_one_child [OF Node.prems(1)] show ?thesis by (auto simp: c0)
  next
    case 4
    then have "r \<noteq> Null" by auto
    from find_min_entries [OF this] obtain sp st sx l1 r1 h1 where
      s: "find_min_node r = Node sp st sx l1 r1 h1" "entries r = ((sp, st), sx) # tl (entries r)" by blast
    have "((sp, st), sx) \<in> set (entries r)" by (subst s(2)) simp
    then have sp: "sp \<noteq> NaN" using sub(2) by (force simp: tree_ok_def no_nan_def)
    from Node.IH(2) [OF sub(2) sp] obtain r' where
      r': "delete_node r sp st b = Some r'" "deleted (sp, st) r r'" by blast
    have "sorted_keys (((sp, st), sx) # tl (entries r))"
      using sub(2) s(2) by (simp add: tree_ok_def bst_def)
    from del_key_hd [OF this] have "entries r' = tl (entries r)"
      using r'(2) by (subst (asm) s(2)) (simp add: deleted_def s(2) [symmetric], metis del_key_simps(2) fst_conv s(2))
    moreover have "(np, nt) \<notin> fst ` set (entries l)" "(np, nt) \<notin> fst ` set (entries r)"
      using ok by auto
    ultimately have "entries l @ ((sp, st), sx) # entries r' = del_key (p, t) (entries (Node np nt nx l r h))"
      using 4(1) s(2) by (simp add: del_key_id)
    with delete_fixup_deleted [of np nt nx l r h l r' sp st sx "(p, t)" h] r' ok 4 s(1) sp show ?thesis
      by (auto simp: c0 deleted_def)
  qed
qed

lemma delete_node_ok:
  assumes "tree_ok n" "p \<noteq> NaN"
  obtains n' where "delete_node n p t b = Some n'" "tree_ok n'" "entries n' = del_key (p, t) (entries n)"
  using delete_node_deleted [OF assms, of t b] assms(1)
  by (auto simp: deleted_def tree_ok_def bst_def sorted_del_key)

section \<open>Searching and traversing\<close>

lemma entries_eq_Nil [simp]: "entries n = [] \<longleftrightarrow> n = Null"
  by (cases n) auto

lemma node_order_min: "node_order (find_min_node n) = (if entries n = [] then None else Some (snd (hd (entries n))))"
proof (cases "n = Null")
  case False
  from find_min_entries [OF this] obtain p t x l r h where
    "find_min_node n = Node p t x l r h" "entries n = ((p, t), x) # tl (entries n)" by blast
  then show ?thesis by (cases "entries n") (simp_all add: node_order_def)
qed (simp add: node_order_def)

lemma node_order_max: "node_order (find_max_node n) = (if entries n = [] then None else Some (snd (last (entries n))))"
proof (cases "n = Null")
  case False
  from find_max_entries [OF this] obtain p t x l r h where
    "find_max_node n = Node p t x l r h" "entries n = butlast (entries n) @ [((p, t), x)]" by blast
  then show ?thesis by (cases "entries n" rule: rev_cases) (simp_all add: node_order_def)
qed (simp add: node_order_def)

lemma inorder_traverse_fold: "inorder_traverse_helper n f s = fold f (map snd (entries n)) s"
  by (induction n arbitrary: s) auto

text \<open>Both trees of a book implement the index, whichever way their flag is set.\<close>

interpretation buy_index: price_index Null
  "\<lambda>n k x. insert_node True n (fst k) (snd k) x True" "\<lambda>n k. delete_node n (fst k) (snd k) True"
  "\<lambda>n. node_order (find_min_node n)" "\<lambda>n. node_order (find_max_node n)" entries tree_ok "\<lambda>k. fst k \<noteq> NaN"
proof (unfold_locales, goal_cases)
  case (5 t k v)
  then show ?case by (auto elim: insert_node_ok [of t "fst k" "snd k" v True])
next
  case (6 t k)
  then show ?case by (auto elim: delete_node_ok [of t "fst k" "snd k" True])
qed (force simp: tree_ok_def bst_def no_nan_def node_order_min node_order_max)+

interpretation sell_index: price_index Null
  "\<lambda>n k x. insert_node True n (fst k) (snd k) x False" "\<lambda>n k. delete_node n (fst k) (snd k) False"
  "\<lambda>n. node_order (find_min_node n)" "\<lambda>n. node_order (find_max_node n)" entries tree_ok "\<lambda>k. fst k \<noteq> NaN"
proof (unfold_locales, goal_cases)
  case (5 t k v)
  then show ?case by (auto elim: insert_node_ok [of t "fst k" "snd k" v False])
next
  case (6 t k)
  then show ?case by (auto elim: delete_node_ok [of t "fst k" "snd k" False])
qed (force simp: tree_ok_def bst_def no_nan_def node_order_min node_order_max)+

section \<open>Facts that need no invariant\<close>

lemma find_min_mem: "find_min_node n = Node p t x l r h \<Longrightarrow> ((p, t), x) \<in> set (entries n)"
  by (induction n) (auto split: if_splits)

lemma delete_node_orders:
  "delete_node n p t b = Some n' \<Longrightarrow> snd ` set (entries n') \<subseteq> snd ` set (entries n)"
proof (induction n arbitrary: p t n')
  case (Node np nt nx l r h)
  let ?c = "compare_nodes p t np nt b"
  consider (lt) l' where "delete_node l p t b = Some l'" "delete_fixup (Node np nt nx l' r h) = Some n'"
    | (gt) r' where "delete_node r p t b = Some r'" "delete_fixup (Node np nt nx l r' h) = Some n'"
    | (one) "delete_fixup (if is_null l then r else l) = Some n'"
    | (two) sp st sx l1 r1 h1 r' where "find_min_node r = Node sp st sx l1 r1 h1"
        "delete_node r sp st b = Some r'" "delete_fixup (Node sp st sx l r' h) = Some n'"
    using Node.prems by (auto simp: Let_def bind_eq_Some_conv split: if_splits avl_node.splits)
  then show ?case
  proof cases
    case lt
    from Node.IH(1) [OF lt(1)] entries_delete_fixup [OF lt(2)] show ?thesis by auto
  next
    case gt
    from Node.IH(2) [OF gt(1)] entries_delete_fixup [OF gt(2)] show ?thesis by auto
  next
    case one
    from entries_delete_fixup [OF one] show ?thesis by auto
  next
    case two
    from Node.IH(2) [OF two(2)] entries_delete_fixup [OF two(3)] imageI [OF find_min_mem [OF two(1)], of snd]
    show ?thesis by auto
  qed
qed simp

text \<open>When the allocation of the new node fails, a balanced tree is returned as it was.\<close>

lemma insert_node_no_memory: "avl n \<Longrightarrow> insert_node False n p t x b = Some n"
proof (induction n)
  case (Node np nt nx l r h)
  then show ?case by (auto simp: Let_def mk_node_def)
qed (simp add: create_node_def)

section \<open>A side as a state machine\<close>

inductive tree_step :: "'o AVLTree \<Rightarrow> 'o AVLTree \<Rightarrow> bool" where
  insert: "p \<noteq> NaN \<Longrightarrow> avl_insert True (Some t) p ts x = Some (Some t') \<Longrightarrow> tree_step t t'"
| delete: "p \<noteq> NaN \<Longrightarrow> avl_delete_order (Some t) p ts = Some (Some t') \<Longrightarrow> tree_step t t'"

definition tree_init :: "'o AVLTree \<Rightarrow> bool" where
  "tree_init t \<longleftrightarrow> avl_create True (is_buy_tree t) = Some t"

lemma tree_step_ok: "tree_step t t' \<Longrightarrow> tree_ok (root t) \<Longrightarrow> tree_ok (root t')"
proof (induction rule: tree_step.induct)
  case (insert p t ts x t')
  obtain n where "insert_node True (root t) p ts x (is_buy_tree t) = Some n" "tree_ok n"
    using insert_node_ok [OF insert(3,1)] by metis
  with insert(2) show ?case by (auto simp: avl_insert_def)
next
  case (delete p t ts t')
  obtain n where "delete_node (root t) p ts (is_buy_tree t) = Some n" "tree_ok n"
    using delete_node_ok [OF delete(3,1)] by metis
  with delete(2) show ?case by (auto simp: avl_delete_order_def)
qed

interpretation tree_machine: invariant_machine tree_init tree_step "\<lambda>t. tree_ok (root t)"
proof unfold_locales
  show "tree_ok (root t)" if "tree_init t" for t :: "'o AVLTree"
  proof -
    have "root t = Null" using that by (cases t) (auto simp: tree_init_def avl_create_def)
    then show ?thesis by (simp add: tree_ok_def)
  qed
qed (rule tree_step_ok)

section \<open>The height is logarithmic\<close>

lemma avl_height_bound: "avl n \<Longrightarrow> 2 ^ nat (real_height n div 2) \<le> length (entries n) + 1"
proof (induction n)
  case (Node p t x l r h)
  have IH: "2 ^ nat (real_height l div 2) \<le> length (entries l) + 1"
      "2 ^ nat (real_height r div 2) \<le> length (entries r) + 1"
    using Node by auto
  let ?h = "real_height (Node p t x l r h)"
  show ?case
  proof (cases "?h \<le> 1")
    case True
    then have "?h div 2 \<le> 0" by linarith
    then show ?thesis by (simp del: real_height.simps)
  next
    case False
    then have "nat (?h div 2) = Suc (nat ((?h - 2) div 2))"
      by (simp del: real_height.simps)
    then have "(2::nat) ^ nat (?h div 2) = 2 ^ nat ((?h - 2) div 2) + 2 ^ nat ((?h - 2) div 2)"
      by simp
    also have "\<dots> \<le> 2 ^ nat (real_height l div 2) + 2 ^ nat (real_height r div 2)"
      using Node.prems by (intro add_mono power_increasing nat_mono zdiv_mono1) auto
    also have "\<dots> \<le> (length (entries l) + 1) + (length (entries r) + 1)"
      using IH by (rule add_mono)
    finally show ?thesis by simp
  qed
qed simp

end
