(* ===== verification/Matching.thy ===== *)
theory Matching
  imports Order_Book
begin

text \<open>
  The order book's invariant, the abstract matching of two lists, the simulation between the
  loop over trees and store and the abstract matching, and what follows for the book: no
  fault, no crossed book left, conservation of quantity, fair prices, priority.
\<close>

section \<open>The invariant of a book\<close>

definition entry_ok :: "store \<Rightarrow> bool \<Rightarrow> key \<times> addr \<Rightarrow> bool" where
  "entry_ok st buy e \<longleftrightarrow> (case st (snd e) of None \<Rightarrow> False
     | Some x \<Rightarrow> (price x, timestamp x) = fst e \<and> is_buy_order x = buy \<and> order_ok x)"

definition side_ok :: "store \<Rightarrow> bool \<Rightarrow> addr AVLTree option \<Rightarrow> bool" where
  "side_ok st buy tree \<longleftrightarrow> (case tree of None \<Rightarrow> False
     | Some t \<Rightarrow> is_buy_tree t = buy \<and> tree_ok (root t) \<and> (\<forall>e \<in> set (entries (root t)). entry_ok st buy e))"

definition book_ok :: "store \<Rightarrow> OrderBook \<Rightarrow> bool" where
  "book_ok st book \<longleftrightarrow> side_ok st True (buy_orders book) \<and> side_ok st False (sell_orders book)"

text \<open>The orders of a side in the order of the keys; the book's bids and asks, best first.\<close>

definition deref :: "store \<Rightarrow> key \<times> addr \<Rightarrow> Order" where
  "deref st e = the (st (snd e))"

definition side_entries :: "addr AVLTree option \<Rightarrow> (key \<times> addr) list" where
  "side_entries tree = (case tree of None \<Rightarrow> [] | Some t \<Rightarrow> entries (root t))"

definition bids :: "store \<Rightarrow> OrderBook \<Rightarrow> Order list" where
  "bids st book = rev (map (deref st) (side_entries (buy_orders book)))"

definition asks :: "store \<Rightarrow> OrderBook \<Rightarrow> Order list" where
  "asks st book = map (deref st) (side_entries (sell_orders book))"

section \<open>Abstract matching\<close>

definition reduce_by :: "int \<Rightarrow> Order \<Rightarrow> Order" where
  "reduce_by q x = x\<lparr>remaining_quantity := remaining_quantity x - q\<rparr>"

definition put_back :: "Order \<Rightarrow> Order list \<Rightarrow> Order list" where
  "put_back x xs = (if remaining_quantity x = 0 then xs else x # xs)"

definition match_qty :: "Order \<Rightarrow> Order \<Rightarrow> int" where
  "match_qty b s = min (remaining_quantity b) (remaining_quantity s)"

fun crossing :: "Order list \<Rightarrow> Order list \<Rightarrow> bool" where
  "crossing (b # bs) (s # ss) = is_match_possible (Some b) (Some s)"
| "crossing _ _ = False"

function match_lists ::
  "Order list \<Rightarrow> Order list \<Rightarrow> (Order \<times> Order \<times> int) list \<times> Order list \<times> Order list" where
  "match_lists (b # bs) (s # ss) =
     (if is_match_possible (Some b) (Some s) then
        (let q = match_qty b s;
             (ts, bs', ss') = match_lists (put_back (reduce_by q b) bs) (put_back (reduce_by q s) ss)
         in ((b, s, q) # ts, bs', ss'))
      else ([], b # bs, s # ss))"
| "match_lists [] ss = ([], [], ss)"
| "match_lists (b # bs) [] = ([], b # bs, [])"
  by pat_completeness auto
termination
  by (relation "measure (\<lambda>(bs, ss). length bs + length ss)")
    (auto simp: put_back_def reduce_by_def match_qty_def min_def)

text \<open>What a recorded call says, and what an abstract trade says, without the time stamp.\<close>

definition call_trade :: "trade_call \<Rightarrow> string \<times> string \<times> string \<times> double \<times> int" where
  "call_trade c = (tc_symbol c, tc_buy_order_id c, tc_sell_order_id c, tc_price c, tc_quantity c)"

definition list_trade :: "Order \<times> Order \<times> int \<Rightarrow> string \<times> string \<times> string \<times> double \<times> int" where
  "list_trade m = (case m of (b, s, q) \<Rightarrow> (symbol b, order_id b, order_id s, price s, q))"

section \<open>One side under a match\<close>

lemma reduce_by_fields [simp]:
  "order_id (reduce_by q x) = order_id x" "symbol (reduce_by q x) = symbol x"
  "price (reduce_by q x) = price x" "timestamp (reduce_by q x) = timestamp x"
  "is_buy_order (reduce_by q x) = is_buy_order x" "is_canceled (reduce_by q x) = is_canceled x"
  "quantity (reduce_by q x) = quantity x"
  "remaining_quantity (reduce_by q x) = remaining_quantity x - q"
  by (simp_all add: reduce_by_def)

lemma order_ok_reduce: "order_ok x \<Longrightarrow> 0 \<le> q \<Longrightarrow> q \<le> remaining_quantity x \<Longrightarrow> order_ok (reduce_by q x)"
  by (auto simp: order_ok_def reduce_by_def fits_def)

lemma entry_okD: "entry_ok st buy ((p, t), a) \<Longrightarrow>
    \<exists>x. st a = Some x \<and> price x = p \<and> timestamp x = t \<and> is_buy_order x = buy \<and> order_ok x"
  by (auto simp: entry_ok_def split: option.splits)

lemma entry_ok_same_key: "entry_ok st buy (k, a) \<Longrightarrow> entry_ok st buy' (k', a) \<Longrightarrow> k = k'"
  by (auto simp: entry_ok_def split: option.splits)

lemma entry_ok_side: "entry_ok st True (k, a) \<Longrightarrow> \<not> entry_ok st False (k', a)"
  by (auto simp: entry_ok_def split: option.splits)

lemma entry_ok_cong: "st' (snd e) = st (snd e) \<Longrightarrow> entry_ok st' buy e \<longleftrightarrow> entry_ok st buy e"
  by (simp add: entry_ok_def)

lemma entry_ok_valid: "tree_ok n \<Longrightarrow> e \<in> set (entries n) \<Longrightarrow> fst (fst e) \<noteq> NaN"
  by (auto simp: tree_ok_def no_nan_def)

text \<open>In a well-formed side the address of an entry occurs nowhere else.\<close>

lemma side_unique:
  assumes "tree_ok n" "\<forall>e \<in> set (entries n). entry_ok st buy e" "entries n = xs @ (k, a) # ys"
  shows "a \<notin> snd ` set (xs @ ys)"
proof
  assume "a \<in> snd ` set (xs @ ys)"
  then obtain k' where k': "(k', a) \<in> set (xs @ ys)"
    by (metis imageE prod.collapse)
  then have "k' = k"
    using assms(2,3) entry_ok_same_key by (metis (no_types, lifting) Un_iff in_set_conv_decomp set_append list.set_intros)
  with k' assms(1,3) show False
    by (auto simp: tree_ok_def bst_def)
qed

lemma remove_if_filled_buy:
  assumes "side_ok st True (Some t)" "entries (root t) = xs @ [(k, a)]" "st a = Some x"
    and "st' a = Some (reduce_by q x)" "\<forall>c \<in> snd ` set xs. st' c = st c" "0 \<le> q" "q \<le> remaining_quantity x"
  shows "\<exists>t'. remove_if_filled st' a (Some t) = Some (Some t') \<and> side_ok st' True (Some t') \<and>
    map (deref st') (entries (root t')) =
      map (deref st) xs @ (if remaining_quantity (reduce_by q x) = 0 then [] else [reduce_by q x])"
proof -
  have ok: "is_buy_tree t" "tree_ok (root t)" "\<forall>e \<in> set xs. entry_ok st True e" "entry_ok st True (k, a)"
    using assms(1,2) by (auto simp: side_ok_def)
  then have k: "k = (price x, timestamp x)" and xo: "order_ok x"
    using assms(3) by (auto simp: entry_ok_def)
  have xs: "\<forall>e \<in> set xs. entry_ok st' True e" "map (deref st') xs = map (deref st) xs"
    using ok(3) assms(5) by (auto simp: entry_ok_def deref_def)
  have last: "entry_ok st' True (k, a)" "deref st' (k, a) = reduce_by q x"
    using ok(4) assms(3,4,6,7) xo by (auto simp: entry_ok_def deref_def order_ok_reduce)
  show ?thesis
  proof (cases "remaining_quantity (reduce_by q x) = 0")
    case True
    from buy_index.del_highest [OF ok(2) assms(2)] obtain n where
      "delete_node (root t) (price x) (timestamp x) True = Some n" "tree_ok n" "entries n = xs"
      by (auto simp: k)
    with True assms(4) ok(1) xs show ?thesis
      by (auto simp: remove_if_filled_def avl_delete_order_def side_ok_def)
  next
    case False
    with assms(2,4) ok xs last show ?thesis
      by (auto simp: remove_if_filled_def side_ok_def)
  qed
qed

lemma remove_if_filled_sell:
  assumes "side_ok st False (Some t)" "entries (root t) = (k, a) # xs" "st a = Some x"
    and "st' a = Some (reduce_by q x)" "\<forall>c \<in> snd ` set xs. st' c = st c" "0 \<le> q" "q \<le> remaining_quantity x"
  shows "\<exists>t'. remove_if_filled st' a (Some t) = Some (Some t') \<and> side_ok st' False (Some t') \<and>
    map (deref st') (entries (root t')) = put_back (reduce_by q x) (map (deref st) xs)"
proof -
  have ok: "\<not> is_buy_tree t" "tree_ok (root t)" "\<forall>e \<in> set xs. entry_ok st False e" "entry_ok st False (k, a)"
    using assms(1,2) by (auto simp: side_ok_def)
  then have k: "k = (price x, timestamp x)" and xo: "order_ok x"
    using assms(3) by (auto simp: entry_ok_def)
  have xs: "\<forall>e \<in> set xs. entry_ok st' False e" "map (deref st') xs = map (deref st) xs"
    using ok(3) assms(5) by (auto simp: entry_ok_def deref_def)
  have first: "entry_ok st' False (k, a)" "deref st' (k, a) = reduce_by q x"
    using ok(4) assms(3,4,6,7) xo by (auto simp: entry_ok_def deref_def order_ok_reduce)
  show ?thesis
  proof (cases "remaining_quantity (reduce_by q x) = 0")
    case True
    from sell_index.del_lowest [OF ok(2) assms(2)] obtain n where
      "delete_node (root t) (price x) (timestamp x) False = Some n" "tree_ok n" "entries n = xs"
      by (auto simp: k)
    with True assms(4) ok(1) xs show ?thesis
      by (auto simp: remove_if_filled_def avl_delete_order_def side_ok_def put_back_def)
  next
    case False
    with assms(2,4) ok xs first show ?thesis
      by (auto simp: remove_if_filled_def side_ok_def put_back_def)
  qed
qed

section \<open>The simulation\<close>

lemma side_ok_SomeD: "side_ok st buy tree \<Longrightarrow> \<exists>t. tree = Some t \<and> is_buy_tree t = buy \<and> tree_ok (root t) \<and>
    (\<forall>e \<in> set (entries (root t)). entry_ok st buy e)"
  by (auto simp: side_ok_def split: option.splits)

lemma entry_ok_deref: "entry_ok st buy e \<Longrightarrow> st (snd e) = Some (deref st e)"
  by (auto simp: entry_ok_def deref_def split: option.splits)

lemma bids_ConsD:
  assumes "book_ok st book" "bids st book = b # bs"
  shows "\<exists>t xs k a. buy_orders book = Some t \<and> side_ok st True (Some t) \<and> entries (root t) = xs @ [(k, a)] \<and>
    st a = Some b \<and> bs = rev (map (deref st) xs) \<and> avl_find_max (buy_orders book) = Some a \<and> a \<notin> snd ` set xs"
proof -
  obtain t where t: "buy_orders book = Some t" "tree_ok (root t)" "\<forall>e \<in> set (entries (root t)). entry_ok st True e"
    and side: "side_ok st True (Some t)"
    using assms(1) by (auto simp: book_ok_def side_ok_def split: option.splits)
  obtain xs k a where e: "entries (root t) = xs @ [(k, a)]" and b: "deref st (k, a) = b" "bs = rev (map (deref st) xs)"
    using assms(2) by (cases "entries (root t)" rule: rev_cases) (auto simp: bids_def side_entries_def t(1))
  have "st a = Some b"
    using t(3) entry_ok_deref [of st True "(k, a)"] by (simp add: e b)
  moreover have "avl_find_max (buy_orders book) = Some a"
    using e by (auto simp: avl_find_max_def t(1) node_order_max is_null_iff)
  moreover have "a \<notin> snd ` set xs"
    using side_unique [OF t(2,3), of xs k a "[]"] e by simp
  ultimately show ?thesis using t(1) side e b(2) by blast
qed

lemma asks_ConsD:
  assumes "book_ok st book" "asks st book = s # ss"
  shows "\<exists>t xs k a. sell_orders book = Some t \<and> side_ok st False (Some t) \<and> entries (root t) = (k, a) # xs \<and>
    st a = Some s \<and> ss = map (deref st) xs \<and> avl_find_min (sell_orders book) = Some a \<and> a \<notin> snd ` set xs"
proof -
  obtain t where t: "sell_orders book = Some t" "tree_ok (root t)" "\<forall>e \<in> set (entries (root t)). entry_ok st False e"
    and side: "side_ok st False (Some t)"
    using assms(1) by (auto simp: book_ok_def side_ok_def split: option.splits)
  obtain xs k a where e: "entries (root t) = (k, a) # xs" and s: "deref st (k, a) = s" "ss = map (deref st) xs"
    using assms(2) by (cases "entries (root t)") (auto simp: asks_def side_entries_def t(1))
  have "st a = Some s"
    using t(3) entry_ok_deref [of st False "(k, a)"] by (simp add: e s)
  moreover have "avl_find_min (sell_orders book) = Some a"
    using e by (auto simp: avl_find_min_def t(1) node_order_min is_null_iff)
  moreover have "a \<notin> snd ` set xs"
    using side_unique [OF t(2,3), of "[]" k a xs] e by simp
  ultimately show ?thesis using t(1) side e s(2) by blast
qed

lemma bids_NilD: "book_ok st book \<Longrightarrow> bids st book = [] \<Longrightarrow> avl_find_max (buy_orders book) = None"
  by (auto simp: book_ok_def bids_def side_entries_def avl_find_max_def dest!: side_ok_SomeD)

lemma asks_NilD: "book_ok st book \<Longrightarrow> asks st book = [] \<Longrightarrow> avl_find_min (sell_orders book) = None"
  by (auto simp: book_ok_def asks_def side_entries_def avl_find_min_def dest!: side_ok_SomeD)

lemma match_step_stop:
  assumes "book_ok st book" "\<not> crossing (bids st book) (asks st book)"
  shows "match_step now st book = Some None"
proof (cases "bids st book = [] \<or> asks st book = []")
  case True
  with bids_NilD [OF assms(1)] asks_NilD [OF assms(1)] show ?thesis
    by (auto simp: match_step_def split: option.splits)
next
  case False
  then obtain b bs s ss where bs: "bids st book = b # bs" and ss: "asks st book = s # ss"
    by (meson neq_Nil_conv)
  from bids_ConsD [OF assms(1) bs] asks_ConsD [OF assms(1) ss] show ?thesis
    using assms(2) by (auto simp: match_step_def bs ss)
qed

lemma process_match_eq:
  assumes "st pb = Some b" "st ps = Some s" "pb \<noteq> ps" "is_match_possible (Some b) (Some s)"
  shows "process_match now st pb ps br =
    Some (st(pb := Some (reduce_by (match_qty b s) b), ps := Some (reduce_by (match_qty b s) s)),
      \<lparr>tc_broadcaster = br, tc_symbol = symbol b, tc_buy_order_id = order_id b, tc_sell_order_id = order_id s,
       tc_price = price s, tc_quantity = match_qty b s, tc_timestamp = now\<rparr>)"
proof -
  have "(if remaining_quantity b < remaining_quantity s then remaining_quantity b else remaining_quantity s) = match_qty b s"
    by (simp add: match_qty_def)
  moreover have "0 \<le> match_qty b s" "match_qty b s \<le> remaining_quantity b" "match_qty b s \<le> remaining_quantity s"
    using assms(4) by (auto simp: match_qty_def is_match_possible_def split: if_splits)
  ultimately show ?thesis
    using assms(1-3) by (simp add: process_match_def Let_def order_reduce_quantity_def reduce_by_def)
qed

lemma is_match_possible_qty:
  assumes "is_match_possible (Some b) (Some s)"
  shows "0 < match_qty b s" "match_qty b s \<le> remaining_quantity b" "match_qty b s \<le> remaining_quantity s"
  using assms by (auto simp: match_qty_def is_match_possible_def split: if_splits)

text \<open>What a step keeps of the store: every order outside the book, and all but the quantity left.\<close>

definition used_up :: "Order \<Rightarrow> Order \<Rightarrow> bool" where
  "used_up x y \<longleftrightarrow> y = x\<lparr>remaining_quantity := remaining_quantity y\<rparr> \<and>
     remaining_quantity y \<le> remaining_quantity x \<and> (y = x \<or> 0 \<le> remaining_quantity y)"

definition store_frame :: "OrderBook \<Rightarrow> store \<Rightarrow> store \<Rightarrow> bool" where
  "store_frame book st st' \<longleftrightarrow>
     (\<forall>a. a \<notin> book_addrs book \<longrightarrow> st' a = st a) \<and>
     (\<forall>a x. st a = Some x \<longrightarrow> (\<exists>y. st' a = Some y \<and> used_up x y))"

lemma used_up_refl [simp]: "used_up x x"
  by (simp add: used_up_def)

lemma used_up_trans: "used_up x y \<Longrightarrow> used_up y z \<Longrightarrow> used_up x z"
  by (cases x, cases y, cases z) (auto simp: used_up_def)

lemma used_up_reduce: "0 \<le> q \<Longrightarrow> q \<le> remaining_quantity x \<Longrightarrow> used_up x (reduce_by q x)"
  by (simp add: used_up_def reduce_by_def)

lemma store_frame_refl [simp]: "store_frame book st st"
  by (simp add: store_frame_def)

lemma store_frame_trans:
  assumes "store_frame book st st1" "store_frame book' st1 st2" "book_addrs book' \<subseteq> book_addrs book"
  shows "store_frame book st st2"
  using assms used_up_trans unfolding store_frame_def by (metis subsetD)

lemma match_step_go:
  assumes ok: "book_ok st book" and bs: "bids st book = b # bs" and ss: "asks st book = s # ss"
    and mp: "is_match_possible (Some b) (Some s)"
  defines "q \<equiv> match_qty b s"
  shows "\<exists>st' book' c. match_step now st book = Some (Some (st', book', c)) \<and> book_ok st' book' \<and>
    bids st' book' = put_back (reduce_by q b) bs \<and> asks st' book' = put_back (reduce_by q s) ss \<and>
    call_trade c = list_trade (b, s, q) \<and> tc_timestamp c = now \<and>
    tc_broadcaster c = trade_broadcaster book \<and> trade_broadcaster book' = trade_broadcaster book \<and>
    book_addrs book' \<subseteq> book_addrs book \<and> store_frame book st st'"
proof -
  note Q = is_match_possible_qty [OF mp, folded q_def]
  obtain tb xs kb pb where tb: "buy_orders book = Some tb" "side_ok st True (Some tb)"
    "entries (root tb) = xs @ [(kb, pb)]" "st pb = Some b" "bs = rev (map (deref st) xs)"
    "avl_find_max (buy_orders book) = Some pb" "pb \<notin> snd ` set xs"
    using bids_ConsD [OF ok bs] by blast
  obtain ts ys ks ps where ts: "sell_orders book = Some ts" "side_ok st False (Some ts)"
    "entries (root ts) = (ks, ps) # ys" "st ps = Some s" "ss = map (deref st) ys"
    "avl_find_min (sell_orders book) = Some ps" "ps \<notin> snd ` set ys"
    using asks_ConsD [OF ok ss] by blast
  have eb: "\<forall>e \<in> set (xs @ [(kb, pb)]). entry_ok st True e" and es: "\<forall>e \<in> set ((ks, ps) # ys). entry_ok st False e"
    using tb(2,3) ts(2,3) by (auto simp: side_ok_def)
  have disj: "snd e \<noteq> snd e'" if "e \<in> set (xs @ [(kb, pb)])" "e' \<in> set ((ks, ps) # ys)" for e e'
    using that eb es entry_ok_side by (metis prod.collapse)
  define st' where "st' = st(pb := Some (reduce_by q b), ps := Some (reduce_by q s))"
  have ne: "pb \<noteq> ps" using disj [of "(kb, pb)" "(ks, ps)"] by simp
  have "\<forall>c \<in> snd ` set xs. st' c = st c"
    using tb(7) disj [of _ "(ks, ps)"] by (auto simp: st'_def)
  with ne tb Q obtain tb' where tb': "remove_if_filled st' pb (Some tb) = Some (Some tb')"
    "side_ok st' True (Some tb')" "map (deref st') (entries (root tb')) =
      map (deref st) xs @ (if remaining_quantity (reduce_by q b) = 0 then [] else [reduce_by q b])"
    using remove_if_filled_buy [of st tb xs kb pb b st' q] by (auto simp: st'_def)
  have "\<forall>c \<in> snd ` set ys. st' c = st c"
    using ts(7) disj [of "(kb, pb)"] by (force simp: st'_def)
  with ne ts Q obtain ts' where ts': "remove_if_filled st' ps (Some ts) = Some (Some ts')"
    "side_ok st' False (Some ts')"
    "map (deref st') (entries (root ts')) = put_back (reduce_by q s) (map (deref st) ys)"
    using remove_if_filled_sell [of st ts ks ps ys s st' q] by (auto simp: st'_def)
  define book' where "book' = book\<lparr>buy_orders := Some tb', sell_orders := Some ts'\<rparr>"
  have "book_addrs book' \<subseteq> book_addrs book"
    using remove_addrs [OF tb'(1)] remove_addrs [OF ts'(1)] by (auto simp: book'_def book_addrs_def tb(1) ts(1))
  moreover have "store_frame book st st'"
    using tb ts Q find_max_addrs [OF tb(6)] find_min_addrs [OF ts(6)]
    by (auto simp: store_frame_def st'_def book_addrs_def used_up_reduce)
  moreover have "book_ok st' book'"
    using tb'(2) ts'(2) by (simp add: book_ok_def book'_def)
  moreover have "bids st' book' = put_back (reduce_by q b) bs" "asks st' book' = put_back (reduce_by q s) ss"
    using tb'(3) ts'(3) by (simp_all add: bids_def asks_def side_entries_def book'_def put_back_def tb(5) ts(5))
  ultimately show ?thesis
    using process_match_eq [OF tb(4) ts(4) ne mp] tb ts tb'(1) ts'(1) mp
    by (auto simp: match_step_def book'_def st'_def [symmetric] q_def [symmetric] call_trade_def list_trade_def)
qed

text \<open>
  The loop refines the abstract matching: from a well-formed book it returns, and the book,
  the store and the recorded calls it ends with are those of the lists.
\<close>

lemma match_loop_refines:
  assumes "book_ok st book" "match_lists (bids st book) (asks st book) = (ts, bs, ss)"
  shows "\<exists>st' book' cs'. match_loop clock st book cs = Some (st', book', cs @ cs') \<and> book_ok st' book' \<and>
    bids st' book' = bs \<and> asks st' book' = ss \<and> map call_trade cs' = map list_trade ts \<and>
    (\<forall>c \<in> set cs'. tc_broadcaster c = trade_broadcaster book) \<and>
    trade_broadcaster book' = trade_broadcaster book \<and> store_frame book st st'"
  using assms
proof (induction clock st book cs arbitrary: ts rule: match_loop.induct)
  case (1 clock st book cs)
  note ok = "1.prems"(1) and ml = "1.prems"(2)
  show ?case
  proof (cases "crossing (bids st book) (asks st book)")
    case False
    then have "match_lists (bids st book) (asks st book) = ([], bids st book, asks st book)"
      by (cases "bids st book"; cases "asks st book") auto
    with ml match_step_stop [OF ok False] ok show ?thesis
      by (auto simp: match_loop.simps [of clock st book cs])
  next
    case True
    then obtain b bs0 s ss0 where bs0: "bids st book = b # bs0" and ss0: "asks st book = s # ss0"
      and mp: "is_match_possible (Some b) (Some s)"
      by (cases "bids st book"; cases "asks st book") auto
    let ?q = "match_qty b s"
    obtain st1 book1 c where step: "match_step (clock (length cs)) st book = Some (Some (st1, book1, c))"
      "book_ok st1 book1" "bids st1 book1 = put_back (reduce_by ?q b) bs0"
      "asks st1 book1 = put_back (reduce_by ?q s) ss0" "call_trade c = list_trade (b, s, ?q)"
      "tc_broadcaster c = trade_broadcaster book" "trade_broadcaster book1 = trade_broadcaster book"
      "book_addrs book1 \<subseteq> book_addrs book" "store_frame book st st1"
      using match_step_go [OF ok bs0 ss0 mp, of "clock (length cs)"] by blast
    obtain ts1 where ts1: "match_lists (bids st1 book1) (asks st1 book1) = (ts1, bs, ss)" "ts = (b, s, ?q) # ts1"
      using ml mp by (auto simp: bs0 ss0 step(3,4) Let_def split: prod.splits)
    from "1.IH" [OF step(1) refl refl refl step(2) ts1(1)]
    obtain st' book' cs' where "match_loop clock st1 book1 (cs @ [c]) = Some (st', book', (cs @ [c]) @ cs')"
      "book_ok st' book'" "bids st' book' = bs" "asks st' book' = ss" "map call_trade cs' = map list_trade ts1"
      "\<forall>c \<in> set cs'. tc_broadcaster c = trade_broadcaster book1"
      "trade_broadcaster book' = trade_broadcaster book1" "store_frame book1 st1 st'"
      by blast
    then show ?thesis
      using step ts1(2) store_frame_trans [OF step(9) _ step(8), of st']
      by (intro exI [of _ st'] exI [of _ book'] exI [of _ "c # cs'"])
        (simp add: match_loop.simps [of clock st book cs])
  qed
qed

lemma order_book_match_orders_lists:
  assumes "book_ok st book" "match_lists (bids st book) (asks st book) = (ts, bs, ss)"
  obtains st' book' cs where "order_book_match_orders clock st (Some book) = Some (st', Some book', cs)"
    "book_ok st' book'" "bids st' book' = bs" "asks st' book' = ss" "map call_trade cs = map list_trade ts"
    "\<forall>c \<in> set cs. tc_broadcaster c = trade_broadcaster book"
    "trade_broadcaster book' = trade_broadcaster book" "store_frame book st st'"
proof (cases "crossing (bids st book) (asks st book)")
  case True
  then obtain b bs0 s ss0 where bs0: "bids st book = b # bs0" and ss0: "asks st book = s # ss0"
    and mp: "is_match_possible (Some b) (Some s)"
    by (cases "bids st book"; cases "asks st book") auto
  from bids_ConsD [OF assms(1) bs0] asks_ConsD [OF assms(1) ss0] mp
  have "order_book_match_orders clock st (Some book) = do {
      (st', bk, cs) \<leftarrow> match_loop clock st book []; Some (st', Some bk, cs) }"
    by (auto simp: order_book_match_orders_def avl_is_empty_def is_null_iff)
  moreover obtain st' book' cs where "match_loop clock st book [] = Some (st', book', cs)"
    "book_ok st' book'" "bids st' book' = bs" "asks st' book' = ss" "map call_trade cs = map list_trade ts"
    "\<forall>c \<in> set cs. tc_broadcaster c = trade_broadcaster book"
    "trade_broadcaster book' = trade_broadcaster book" "store_frame book st st'"
    using match_loop_refines [OF assms, of clock "[]"] by auto
  ultimately show ?thesis using that by simp
next
  case False
  then have m: "match_lists (bids st book) (asks st book) = ([], bids st book, asks st book)"
    by (cases "bids st book"; cases "asks st book") auto
  have "order_book_match_orders clock st (Some book) = Some (st, Some book, [])"
  proof (cases "bids st book = [] \<or> asks st book = []")
    case True
    with assms(1) show ?thesis
      by (auto simp: order_book_match_orders_def avl_is_empty_def book_ok_def bids_def asks_def
          side_entries_def dest!: side_ok_SomeD)
  next
    case ne: False
    then obtain b bs0 s ss0 where bs0: "bids st book = b # bs0" and ss0: "asks st book = s # ss0"
      by (meson neq_Nil_conv)
    from bids_ConsD [OF assms(1) bs0] asks_ConsD [OF assms(1) ss0] False show ?thesis
      by (auto simp: order_book_match_orders_def avl_is_empty_def is_null_iff bs0 ss0)
  qed
  moreover have "bs = bids st book" "ss = asks st book" "ts = []"
    using m assms(2) by simp_all
  ultimately show ?thesis
    using that [of st book "[]"] assms(1) by simp
qed

section \<open>Facts of the abstract matching\<close>

definition total_left :: "Order list \<Rightarrow> int" where
  "total_left xs = (\<Sum>x \<leftarrow> xs. remaining_quantity x)"

definition traded :: "(Order \<times> Order \<times> int) list \<Rightarrow> int" where
  "traded ts = (\<Sum>(b, s, q) \<leftarrow> ts. q)"

text \<open>Taking a quantity from the front of a queue of orders, dropping those that are used up.\<close>

fun consume :: "int \<Rightarrow> Order list \<Rightarrow> Order list" where
  "consume q [] = []"
| "consume q (x # xs) =
     (if q \<le> 0 then x # xs
      else if q < remaining_quantity x then reduce_by q x # xs
      else consume (q - remaining_quantity x) xs)"

lemma match_lists_uncrossed: "match_lists bs ss = (ts, bs', ss') \<Longrightarrow> \<not> crossing bs' ss'"
  by (induction bs ss arbitrary: ts rule: match_lists.induct) (auto simp: Let_def split: if_splits prod.splits)

lemma total_left_put_back [simp]: "total_left (put_back x xs) = remaining_quantity x + total_left xs"
  by (simp add: put_back_def total_left_def)

lemma total_left_Cons [simp]: "total_left (x # xs) = remaining_quantity x + total_left xs"
  by (simp add: total_left_def)

lemma traded_simps [simp]: "traded [] = 0" "traded ((b, s, q) # ts) = q + traded ts"
  by (simp_all add: traded_def)

lemma match_lists_conserves:
  "match_lists bs ss = (ts, bs', ss') \<Longrightarrow>
   total_left bs = total_left bs' + traded ts \<and> total_left ss = total_left ss' + traded ts"
proof (induction bs ss arbitrary: ts rule: match_lists.induct)
  case (1 b bs s ss)
  then show ?case
    by (fastforce simp: Let_def split: if_splits prod.splits)
qed simp_all

lemma match_lists_trades:
  "match_lists bs ss = (ts, bs', ss') \<Longrightarrow> (b, s, q) \<in> set ts \<Longrightarrow>
   is_match_possible (Some b) (Some s) \<and> q = match_qty b s"
  by (induction bs ss arbitrary: ts rule: match_lists.induct) (auto simp: Let_def split: if_splits prod.splits)

lemma traded_nonneg: "match_lists bs ss = (ts, bs', ss') \<Longrightarrow> 0 \<le> traded ts"
proof -
  assume m: "match_lists bs ss = (ts, bs', ss')"
  have "0 \<le> q" if "(b, s, q) \<in> set ts" for b s q
    using match_lists_trades [OF m that] is_match_possible_qty(1) [of b s] by simp
  then show ?thesis
    by (auto simp: traded_def intro!: sum_list_nonneg)
qed

lemma consume_put_back:
  assumes "0 < q" "q \<le> remaining_quantity x" "0 \<le> q'"
  shows "consume (q + q') (x # xs) = consume q' (put_back (reduce_by q x) xs)"
proof -
  have r: "reduce_by q' (reduce_by q x) = reduce_by (q + q') x"
    by (simp add: reduce_by_def)
  have c0: "consume 0 xs = xs" by (cases xs) simp_all
  show ?thesis
    using assms by (auto simp: put_back_def r c0 algebra_simps)
qed

lemma consume_0 [simp]: "consume 0 xs = xs"
  by (cases xs) simp_all

lemma match_lists_consume:
  "match_lists bs ss = (ts, bs', ss') \<Longrightarrow> bs' = consume (traded ts) bs \<and> ss' = consume (traded ts) ss"
proof (induction bs ss arbitrary: ts rule: match_lists.induct)
  case (1 b bs s ss)
  show ?case
  proof (cases "is_match_possible (Some b) (Some s)")
    case True
    obtain ts1 where ts1: "match_lists (put_back (reduce_by (match_qty b s) b) bs)
        (put_back (reduce_by (match_qty b s) s) ss) = (ts1, bs', ss')" "ts = (b, s, match_qty b s) # ts1"
      using "1.prems" True by (auto simp: Let_def split: prod.splits)
    from "1.IH" [OF True refl ts1(1)] traded_nonneg [OF ts1(1)] is_match_possible_qty [OF True]
    show ?thesis
      unfolding ts1(2) traded_simps by (simp only: consume_put_back)
  qed (use "1.prems" in simp)
qed simp_all

lemma match_lists_positive:
  assumes "match_lists bs ss = (ts, bs', ss')" "\<forall>x \<in> set bs. 0 < remaining_quantity x" "\<forall>x \<in> set ss. 0 < remaining_quantity x"
  shows "(\<forall>x \<in> set bs'. 0 < remaining_quantity x) \<and> (\<forall>x \<in> set ss'. 0 < remaining_quantity x)"
proof -
  have "\<forall>x \<in> set (consume q xs). 0 < remaining_quantity x" if "\<forall>x \<in> set xs. 0 < remaining_quantity x" for q xs
    using that by (induction q xs rule: consume.induct) auto
  with assms(2,3) match_lists_consume [OF assms(1)] show ?thesis by blast
qed

end
