(* ===== verification/Book_Operations.thy ===== *)
theory Book_Operations
  imports Matching Machine "HOL-Library.Multiset"
begin

text \<open>
  What adding, cancelling and querying do to a well-formed book, the ranking of its orders,
  and the book as a state machine: every book that a sequence of additions, cancellations
  and matchings can produce from a new one is well formed.
\<close>

section \<open>Ranking\<close>

definition rank_key :: "Order \<Rightarrow> key" where
  "rank_key x = (price x, timestamp x)"

lemma side_keys:
  assumes "side_ok st buy tree"
  shows "map rank_key (map (deref st) (side_entries tree)) = map fst (side_entries tree)"
    and "sorted_wrt (<) (map fst (side_entries tree))"
proof -
  obtain t where t: "tree = Some t" "tree_ok (root t)" "\<forall>e \<in> set (entries (root t)). entry_ok st buy e"
    using side_ok_SomeD [OF assms] by blast
  then show "map rank_key (map (deref st) (side_entries tree)) = map fst (side_entries tree)"
    by (auto simp: side_entries_def rank_key_def deref_def entry_ok_def split: option.splits dest: bspec)
  show "sorted_wrt (<) (map fst (side_entries tree))"
    using t(1,2) by (simp add: side_entries_def tree_ok_def bst_def sorted_keys_def)
qed

lemma asks_ranked: "book_ok st book \<Longrightarrow> sorted_wrt (<) (map rank_key (asks st book))"
  unfolding asks_def book_ok_def using side_keys by metis

lemma bids_ranked: "book_ok st book \<Longrightarrow> sorted_wrt (>) (map rank_key (bids st book))"
  using side_keys [of st True "buy_orders book"] unfolding bids_def book_ok_def
  by (simp only: rev_map [symmetric] sorted_wrt_rev)

section \<open>Adding\<close>

definition side_of :: "bool \<Rightarrow> OrderBook \<Rightarrow> addr AVLTree option" where
  "side_of buy book = (if buy then buy_orders book else sell_orders book)"

lemma side_of_ok: "book_ok st book \<Longrightarrow> side_ok st buy (side_of buy book)"
  by (auto simp: book_ok_def side_of_def)

lemma side_of_SomeE:
  assumes "book_ok st book"
  obtains t where "side_of buy book = Some t" "is_buy_tree t = buy" "tree_ok (root t)"
    "\<forall>e \<in> set (entries (root t)). entry_ok st buy e"
  using side_ok_SomeD [OF side_of_ok [OF assms, of buy]] by blast

lemma add_order_ok:
  assumes "book_ok st book" "st a = Some x" "order_ok x" "price x \<noteq> NaN"
  obtains book' where "order_book_add_order True st (Some book) (Some a) = Some (0, Some book')"
    "book_ok st book'"
    "side_entries (side_of (is_buy_order x) book') =
       ins_key (rank_key x) a (side_entries (side_of (is_buy_order x) book))"
    "side_of (\<not> is_buy_order x) book' = side_of (\<not> is_buy_order x) book"
    "trade_broadcaster book' = trade_broadcaster book"
proof -
  let ?b = "is_buy_order x"
  obtain t where t: "side_of ?b book = Some t" "is_buy_tree t = ?b" "tree_ok (root t)"
      "\<forall>e \<in> set (entries (root t)). entry_ok st ?b e"
    using side_of_SomeE [OF assms(1)] by blast
  obtain n where n: "insert_node True (root t) (price x) (timestamp x) a ?b = Some n" "tree_ok n"
      "entries n = ins_key (price x, timestamp x) a (entries (root t))"
    using insert_node_ok [OF t(3) assms(4)] by metis
  have "entry_ok st ?b ((price x, timestamp x), a)"
    using assms(2,3) by (simp add: entry_ok_def)
  then have "side_ok st ?b (Some (t\<lparr>root := n\<rparr>))"
    using t n set_ins_key_subset [of "(price x, timestamp x)" a "entries (root t)"]
    by (auto simp: side_ok_def)
  moreover have "avl_insert True (side_of ?b book) (price x) (timestamp x) a = Some (Some (t\<lparr>root := n\<rparr>))"
    using n(1) t(1,2) by (simp add: avl_insert_def)
  ultimately show ?thesis
    using assms(1,2) t(1) n(3)
      that [of "if ?b then book\<lparr>buy_orders := Some (t\<lparr>root := n\<rparr>)\<rparr> else book\<lparr>sell_orders := Some (t\<lparr>root := n\<rparr>)\<rparr>"]
    by (cases ?b) (auto simp: order_book_add_order_def side_of_def book_ok_def side_entries_def rank_key_def)
qed

lemma add_order_no_memory:
  assumes "book_ok st book" "st a = Some x"
  shows "order_book_add_order False st (Some book) (Some a) = Some (0, Some book)"
proof -
  have "avl_insert False (side_of b book) p t a = Some (side_of b book)" for b p t
    using assms(1)
    by (auto simp: avl_insert_def side_of_def book_ok_def tree_ok_def insert_node_no_memory dest!: side_ok_SomeD)
  from this [of True] this [of False] show ?thesis
    using assms(2) by (simp add: order_book_add_order_def side_of_def)
qed

section \<open>The sides as lists\<close>

text \<open>The orders of one side, best first.\<close>

definition side_list :: "bool \<Rightarrow> store \<Rightarrow> OrderBook \<Rightarrow> Order list" where
  "side_list buy st book = (if buy then bids st book else asks st book)"

lemma side_list_entries:
  "side_list buy st book = (if buy then rev else id) (map (deref st) (side_entries (side_of buy book)))"
  by (simp add: side_list_def bids_def asks_def side_of_def)

lemma set_side_list: "set (side_list buy st book) = deref st ` set (side_entries (side_of buy book))"
  and mset_side_list: "mset (side_list buy st book) = image_mset (deref st) (mset (side_entries (side_of buy book)))"
  by (simp_all add: side_list_entries)

lemma ins_key_present: "sorted_keys xs \<Longrightarrow> k \<in> fst ` set xs \<Longrightarrow> ins_key k v xs = xs"
proof (induction xs)
  case (Cons x xs)
  then have "k = fst x \<or> k \<in> fst ` set xs \<and> fst x < k" by auto
  with Cons show ?case by (cases x) (auto dest: less_asym)
qed simp

lemma ins_key_split:
  "sorted_keys xs \<Longrightarrow> k \<notin> fst ` set xs \<Longrightarrow>
   \<exists>us vs. xs = us @ vs \<and> ins_key k v xs = us @ (k, v) # vs \<and> (\<forall>u \<in> set us. fst u < k) \<and> (\<forall>w \<in> set vs. k < fst w)"
proof (induction xs)
  case (Cons x xs)
  show ?case
  proof (cases "k < fst x")
    case True
    with Cons.prems(1) show ?thesis by (cases x) (intro exI [of _ "[]"] exI [of _ "x # xs"], auto)
  next
    case False
    then have "fst x < k" using Cons.prems(2) by auto
    moreover obtain us vs where "xs = us @ vs" "ins_key k v xs = us @ (k, v) # vs" "\<forall>u \<in> set us. fst u < k" "\<forall>w \<in> set vs. k < fst w"
      using Cons.IH Cons.prems by auto
    ultimately show ?thesis using False by (cases x) (intro exI [of _ "x # us"] exI [of _ vs], auto)
  qed
qed simp

lemma mset_ins_key: "k \<notin> fst ` set xs \<Longrightarrow> mset (ins_key k v xs) = add_mset (k, v) (mset xs)"
  by (induction xs) auto

lemma side_list_keys:
  "book_ok st book \<Longrightarrow> rank_key ` set (side_list buy st book) = fst ` set (side_entries (side_of buy book))"
  using arg_cong [OF side_keys(1) [OF side_of_ok [of st book buy]], of set] by (simp add: set_side_list image_image)

text \<open>A list of orders, each with whether there was memory for its node: those that get onto a side that has \<open>ys\<close>.\<close>

fun entered :: "bool \<Rightarrow> Order list \<Rightarrow> (bool \<times> Order) list \<Rightarrow> Order list" where
  "entered buy ys [] = []"
| "entered buy ys ((m, x) # xs) = (if is_buy_order x = buy \<and> m \<and> (price x, timestamp x) \<notin> (\<lambda>y. (price y, timestamp y)) ` set ys
     then x # entered buy (x # ys) xs else entered buy ys xs)"

lemma entered_cong: "rank_key ` set ys = rank_key ` set zs \<Longrightarrow> entered buy ys xs = entered buy zs xs"
proof (induction xs arbitrary: ys zs)
  case (Cons c xs)
  obtain m x where c: "c = (m, x)" by (cases c)
  have "rank_key ` set (x # ys) = rank_key ` set (x # zs)" using Cons.prems by simp
  from Cons.IH [OF this] Cons.IH [OF Cons.prems] Cons.prems show ?case by (simp add: c rank_key_def)
qed simp

lemma entered_step:
  assumes "mset zs = mset ys + mset (entered buy ys [(m, x)])"
  shows "entered buy ys ((m, x) # xs) = entered buy ys [(m, x)] @ entered buy zs xs"
proof -
  have "set zs = set ys \<union> set (entered buy ys [(m, x)])" using arg_cong [OF assms, of set_mset] by simp
  then have "rank_key ` set zs = rank_key ` set (if entered buy ys [(m, x)] = [] then ys else x # ys)" by (auto split: if_splits)
  from entered_cong [OF this, of buy xs] show ?thesis by (auto split: if_splits)
qed

text \<open>Adding one order, with or without memory for its node.\<close>

lemma add_order_sides:
  assumes "book_ok st book" "st a = Some x" "order_ok x" "price x \<noteq> NaN"
  obtains book' where "order_book_add_order m st (Some book) (Some a) = Some (0, Some book')" "book_ok st book'"
    "\<forall>b. mset (side_list b st book') = mset (side_list b st book) + mset (entered b (side_list b st book) [(m, x)])"
    "\<forall>b. entered b (side_list b st book) [(m, x)] = [] \<longrightarrow> side_list b st book' = side_list b st book"
    "trade_broadcaster book' = trade_broadcaster book"
proof (cases m)
  case False
  with add_order_no_memory [OF assms(1,2)] assms(1) that [of book] show ?thesis by simp
next
  case True
  let ?b = "is_buy_order x"
  let ?es = "side_entries (side_of ?b book)"
  obtain book' where book': "order_book_add_order True st (Some book) (Some a) = Some (0, Some book')" "book_ok st book'"
    "side_entries (side_of ?b book') = ins_key (rank_key x) a ?es"
    "side_of (\<not> ?b) book' = side_of (\<not> ?b) book" "trade_broadcaster book' = trade_broadcaster book"
    using add_order_ok [OF assms] by metis
  note keys = side_list_keys [OF assms(1), of ?b, unfolded rank_key_def [abs_def]] side_keys(2) [OF side_of_ok [OF assms(1), of ?b]]
  have d: "deref st (rank_key x, a) = x" using assms(2) by (simp add: deref_def)
  have same: "side_list b st book' = side_list b st book" if "entered b (side_list b st book) [(m, x)] = []" for b
  proof (cases "b = ?b")
    case b: True
    then have "rank_key x \<in> fst ` set ?es" using that True keys(1) by (auto simp: rank_key_def split: if_splits)
    with ins_key_present [of ?es "rank_key x" a] keys(2) book'(3) b show ?thesis by (simp add: side_list_entries sorted_keys_def)
  next
    case False
    then have "b = (\<not> ?b)" by blast
    with book'(4) show ?thesis by (simp add: side_list_entries)
  qed
  have "mset (side_list b st book') = mset (side_list b st book) + mset (entered b (side_list b st book) [(m, x)])" for b
  proof (cases "entered b (side_list b st book) [(m, x)] = []")
    case False
    then have "b = ?b" "rank_key x \<notin> fst ` set ?es" "entered b (side_list b st book) [(m, x)] = [x]"
      using keys(1) by (auto simp: rank_key_def split: if_splits)
    with mset_ins_key [of "rank_key x" ?es a] d show ?thesis by (simp add: mset_side_list book'(3))
  qed (simp add: same)
  with True book'(1,2,5) same show ?thesis by (intro that [of book']) auto
qed

section \<open>Cancelling\<close>

text \<open>The nodes from the root along the right children.\<close>

fun right_spine :: "'o avl_node \<Rightarrow> 'o list" where
  "right_spine Null = []"
| "right_spine (Node _ _ x _ r _) = x # right_spine r"

lemma cancel_walk_spine:
  "\<forall>e \<in> set (entries n). entry_ok st buy e \<Longrightarrow> no_nan n \<Longrightarrow>
   cancel_walk st n oid b = Some (find (\<lambda>a. order_id (the (st a)) = oid) (right_spine n))"
proof (induction n)
  case (Node p t a l r h)
  then have "entry_ok st buy ((p, t), a)" by simp
  then obtain x where "st a = Some x" "price x = p" "timestamp x = t"
    using entry_okD by blast
  with Node show ?case by simp
qed simp

lemma right_spine_subset: "set (right_spine n) \<subseteq> snd ` set (entries n)"
  by (induction n) auto

lemma book_ok_cancel:
  assumes "book_ok st book"
  shows "book_ok (st(a := order_cancel (st a))) book"
proof -
  have "entry_ok (st(a := order_cancel (st a))) buy e" if "entry_ok st buy e" for buy e
    using that by (auto simp: entry_ok_def order_cancel_def order_ok_def split: option.splits)
  then have "side_ok (st(a := order_cancel (st a))) buy tree" if "side_ok st buy tree" for buy tree
    using that by (auto simp: side_ok_def split: option.splits)
  with assms show ?thesis by (auto simp: book_ok_def)
qed

lemma cancel_order_spine:
  assumes "book_ok st book" "side_of buy book = Some t"
  shows "order_book_cancel_order st (Some book) (Some oid) buy =
    Some (case find (\<lambda>a. order_id (the (st a)) = oid) (right_spine (root t)) of
            None \<Rightarrow> (- 1, st) | Some a \<Rightarrow> (0, st(a := order_cancel (st a))))"
proof -
  have "\<forall>e \<in> set (entries (root t)). entry_ok st buy e" "no_nan (root t)"
    using side_of_SomeE [OF assms(1), of buy] assms(2) unfolding tree_ok_def by (metis option.inject)+
  from cancel_walk_spine [OF this, of oid buy] assms(2) show ?thesis
    by (cases buy) (auto simp: order_book_cancel_order_def side_of_def split: option.splits)
qed

section \<open>Querying\<close>

definition level_quantity :: "double \<Rightarrow> Order list \<Rightarrow> int" where
  "level_quantity p xs = (\<Sum>x \<leftarrow> filter (\<lambda>x. d_eq (price x) p \<and> \<not> is_canceled x) xs. remaining_quantity x)"

lemma fold_count_quantity:
  "\<forall>e \<in> set es. st (snd e) \<noteq> None \<Longrightarrow>
   fold (count_quantity_callback st) (map snd es) (Some \<lparr>target_price = p, total_quantity = int32 n\<rparr>) =
   Some \<lparr>target_price = p, total_quantity = int32 (n + level_quantity p (map (deref st) es))\<rparr>"
proof (induction es arbitrary: n)
  case (Cons e es)
  then obtain x where "st (snd e) = Some x" by auto
  with Cons.IH [of "n + remaining_quantity x"] Cons.IH [of n] Cons.prems show ?case
    by (auto simp: count_quantity_callback_def deref_def level_quantity_def add.assoc)
qed (simp add: level_quantity_def)

lemma get_quantity_level:
  assumes "book_ok st book"
  shows "order_book_get_quantity_at_price st (Some book) p buy =
    Some (int32 (level_quantity p (if buy then bids st book else asks st book)))"
proof -
  obtain t where t: "side_of buy book = Some t" "\<forall>e \<in> set (entries (root t)). entry_ok st buy e"
    using assms by (cases buy) (auto simp: book_ok_def side_of_def dest!: side_ok_SomeD)
  then have "\<forall>e \<in> set (entries (root t)). st (snd e) \<noteq> None"
    by (auto simp: entry_ok_def split: option.splits)
  from fold_count_quantity [OF this, of p 0] t(1)
  have "order_book_get_quantity_at_price st (Some book) p buy =
      Some (int32 (level_quantity p (map (deref st) (side_entries (side_of buy book)))))"
    by (auto simp: order_book_get_quantity_at_price_def avl_inorder_traverse_def inorder_traverse_fold
        side_of_def side_entries_def wrap_def split: if_splits)
  also have "level_quantity p (map (deref st) (side_entries (side_of buy book))) =
      level_quantity p (if buy then bids st book else asks st book)"
    by (simp add: bids_def asks_def side_of_def level_quantity_def rev_filter [symmetric] rev_map [symmetric] sum_list_rev)
  finally show ?thesis .
qed

section \<open>The book as a state machine\<close>

lemma book_ok_extend:
  assumes "book_ok st book" "st a = None"
  shows "book_ok (st(a \<mapsto> x)) book"
proof -
  have "entry_ok (st(a \<mapsto> x)) buy e" if "entry_ok st buy e" for buy e
    using that assms(2) by (auto simp: entry_ok_def split: option.splits)
  then have "side_ok (st(a \<mapsto> x)) buy tree" if "side_ok st buy tree" for buy tree
    using that by (auto simp: side_ok_def split: option.splits)
  with assms show ?thesis by (auto simp: book_ok_def)
qed

lemma side_list_extend:
  assumes "book_ok st book" "st a = None"
  shows "side_list b (st(a \<mapsto> x)) book = side_list b st book"
proof -
  obtain t where "side_of b book = Some t" "\<forall>e \<in> set (entries (root t)). entry_ok st b e" using side_of_SomeE [OF assms(1)] by metis
  then have "map (deref (st(a \<mapsto> x))) (side_entries (side_of b book)) = map (deref st) (side_entries (side_of b book))"
    using assms(2) by (auto simp: side_entries_def deref_def entry_ok_def split: option.splits)
  then show ?thesis by (simp add: side_list_entries)
qed

lemma order_book_create_ok:
  "order_book_create m1 m2 m3 br = Some book \<Longrightarrow> book_ok st book \<and> bids st book = [] \<and> asks st book = []"
  by (auto simp: order_book_create_def avl_create_def book_ok_def side_ok_def tree_ok_def bst_def
      bids_def asks_def side_entries_def split: if_splits option.splits)

lemma match_orders_keeps_ok:
  assumes "book_ok st book"
  obtains st' book' cs where "order_book_match_orders clock st (Some book) = Some (st', Some book', cs)"
    "book_ok st' book'"
  using order_book_match_orders_lists [OF assms, of _ _ _ clock] by (metis prod_cases3)

text \<open>
  The state is the store and the book. A new order is built by \<open>order_create\<close> at an address
  the allocator has not handed out; its price is a number (\<open>order_create\<close> does not check this)
  and its quantity any value of type \<open>int\<close>, negative ones included. Adding may fail to get memory for the
  tree node.
\<close>

inductive book_step :: "store \<times> OrderBook \<Rightarrow> store \<times> OrderBook \<Rightarrow> bool" where
  place: "\<lbrakk>st a = None; order_create True now oid tid sy p q buy = Some x; p \<noteq> NaN; fits 32 q;
           order_book_add_order m (st(a \<mapsto> x)) (Some book) (Some a) = Some (r, Some book')\<rbrakk> \<Longrightarrow>
          book_step (st, book) (st(a \<mapsto> x), book')"
| cancel: "order_book_cancel_order st (Some book) oid buy = Some (r, st') \<Longrightarrow>
          book_step (st, book) (st', book)"
| match: "order_book_match_orders clock st (Some book) = Some (st', Some book', cs) \<Longrightarrow>
          book_step (st, book) (st', book')"

inductive_cases book_stepE: "book_step s s'"

definition book_init :: "store \<times> OrderBook \<Rightarrow> bool" where
  "book_init s \<longleftrightarrow> (\<exists>br. order_book_create True True True br = Some (snd s))"

lemma book_step_ok:
  assumes "book_ok st book" "book_step (st, book) (st', book')"
  shows "book_ok st' book'"
  using assms(2)
proof (cases rule: book_step.cases)
  case (place a now oid tid sy p q buy x m r)
  have ok: "book_ok st' book" and x: "st' a = Some x" "order_ok x" "price x \<noteq> NaN"
    using place assms(1) order_create_ok [OF place(3)] order_create_SomeD(4) [OF place(3)]
    by (auto simp: book_ok_extend)
  show ?thesis
  proof (cases m)
    case True
    with add_order_ok [OF ok x] place show ?thesis by fastforce
  next
    case False
    with add_order_no_memory [OF ok x(1)] place(1,6) ok show ?thesis by (simp del: fun_upd_apply)
  qed
next
  case (cancel oid buy r)
  then show ?thesis
  proof (cases oid)
    case (Some oid')
    obtain t where "side_of buy book = Some t"
      using side_of_SomeE [OF assms(1)] by blast
    from cancel_order_spine [OF assms(1) this, of oid'] cancel Some book_ok_cancel [OF assms(1)] assms(1)
    show ?thesis by (auto split: option.splits)
  qed (use assms(1) in \<open>auto simp: order_book_cancel_order_def\<close>)
next
  case (match clock cs)
  with match_orders_keeps_ok [OF assms(1), of clock] show ?thesis by auto
qed

interpretation book_machine: invariant_machine book_init book_step "\<lambda>(st, book). book_ok st book"
proof unfold_locales
  show "case s of (st, book) \<Rightarrow> book_ok st book" if "book_init s" for s
    using that order_book_create_ok by (force simp: book_init_def)
  show "case s' of (st, book) \<Rightarrow> book_ok st book" if "case s of (st, book) \<Rightarrow> book_ok st book" "book_step s s'" for s s'
    using that book_step_ok by (cases s; cases s') auto
qed

end
