(* ===== verification/Samples.thy ===== *)
theory Samples
  imports Book_Operations
begin

text \<open>
  A concrete book that the properties of the engine are evaluated on: three buy orders, two of
  them at the same price, and three sell orders, all in one symbol, placed through
  \<open>order_book_add_order\<close>.
\<close>

definition sample_order :: "string \<Rightarrow> int \<Rightarrow> int \<Rightarrow> bool \<Rightarrow> int \<Rightarrow> Order" where
  "sample_order oid p q buy t =
     \<lparr>order_id = oid, trader_id = ''T1'', symbol = ''AAPL'', price = Fin (of_int p), quantity = q,
      remaining_quantity = q, is_buy_order = buy, timestamp = t, is_canceled = False\<rparr>"

definition sample_orders :: "Order list" where
  "sample_orders =
     [sample_order ''B1'' 100 10 True 1, sample_order ''B2'' 101 5 True 2, sample_order ''B3'' 101 7 True 3,
      sample_order ''S1'' 99 4 False 4, sample_order ''S2'' 101 5 False 5, sample_order ''S3'' 103 6 False 6]"

definition sample_store :: store where
  "sample_store a = (if a < length sample_orders then Some (sample_orders ! a) else None)"

definition sample_broadcaster :: TradeBroadcaster where
  "sample_broadcaster = \<lparr>server = Some 77\<rparr>"

fun add_all :: "store \<Rightarrow> OrderBook option \<Rightarrow> addr list \<Rightarrow> OrderBook option" where
  "add_all st book [] = book"
| "add_all st book (a # as) = (case order_book_add_order True st book (Some a) of
     Some (_, book') \<Rightarrow> add_all st book' as | None \<Rightarrow> None)"

definition sample_book :: OrderBook where
  "sample_book = the (add_all sample_store (order_book_create True True True (Some sample_broadcaster)) [0, 1, 2, 3, 4, 5])"

definition sample_clock :: "nat \<Rightarrow> int" where
  "sample_clock i = 1000 + int i"

lemma sample_book_ok: "book_ok sample_store sample_book"
  by code_simp

end
