(* ===== verification/Trader.thy ===== *)
theory Trader
  imports Book_Operations
begin

text \<open>
  \<open>src/trading_engine/trader.c\<close> and \<open>src/trading_engine/trade.c\<close>: the trader's account, the reservation
  of funds when a buy order is placed, and the settlement of a trade. Pointers that may be
  NULL are options. The placed order is an address of the store of orders.
\<close>

section \<open>Traders\<close>

definition MAX_TRADER_ID_LENGTH :: nat where
  "MAX_TRADER_ID_LENGTH = 64"

definition MAX_TRADER_NAME_LENGTH :: nat where
  "MAX_TRADER_NAME_LENGTH = 128"

record Trader =
  t_trader_id :: string
  name :: string
  balance :: double

definition trader_create :: "bool \<Rightarrow> string option \<Rightarrow> string option \<Rightarrow> double \<Rightarrow> Trader option" where
  "trader_create malloc_ok tid' name' bal = (case (tid', name') of
     (Some tid, Some nm) \<Rightarrow>
       if d_lt bal (Fin 0) then None
       else if \<not> malloc_ok then None
       else if MAX_TRADER_ID_LENGTH \<le> length tid \<or> MAX_TRADER_NAME_LENGTH \<le> length nm then None
       else Some \<lparr>t_trader_id = copy_field MAX_TRADER_ID_LENGTH tid,
                  name = copy_field MAX_TRADER_NAME_LENGTH nm, balance = bal\<rparr>
   | _ \<Rightarrow> None)"

definition trader_get_id :: "Trader option \<Rightarrow> string option" where
  "trader_get_id t = map_option t_trader_id t"

definition trader_get_name :: "Trader option \<Rightarrow> string option" where
  "trader_get_name t = map_option name t"

definition trader_get_balance :: "Trader option \<Rightarrow> double" where
  "trader_get_balance t = (case t of None \<Rightarrow> Fin 0 | Some tr \<Rightarrow> balance tr)"

definition trader_set_id :: "Trader option \<Rightarrow> string option \<Rightarrow> Trader option" where
  "trader_set_id t tid' = (case (t, tid') of
     (Some tr, Some tid) \<Rightarrow>
       if MAX_TRADER_ID_LENGTH \<le> length tid then Some tr
       else Some (tr\<lparr>t_trader_id := copy_field MAX_TRADER_ID_LENGTH tid\<rparr>)
   | _ \<Rightarrow> t)"

definition trader_set_name :: "Trader option \<Rightarrow> string option \<Rightarrow> Trader option" where
  "trader_set_name t name' = (case (t, name') of
     (Some tr, Some nm) \<Rightarrow>
       if MAX_TRADER_NAME_LENGTH \<le> length nm then Some tr
       else Some (tr\<lparr>name := copy_field MAX_TRADER_NAME_LENGTH nm\<rparr>)
   | _ \<Rightarrow> t)"

definition trader_set_balance :: "Trader option \<Rightarrow> double \<Rightarrow> Trader option" where
  "trader_set_balance t bal = (case t of None \<Rightarrow> None
     | Some tr \<Rightarrow> if d_lt bal (Fin 0) then Some tr else Some (tr\<lparr>balance := bal\<rparr>))"

text \<open>
  The result is the return code, the trader and the book; \<open>None\<close> is a fault (the order's
  address is dangling, or the book has no tree for its side).
\<close>

definition trader_place_order ::
  "bool \<Rightarrow> store \<Rightarrow> Trader option \<Rightarrow> OrderBook option \<Rightarrow> addr option \<Rightarrow>
   (rc \<times> Trader option \<times> OrderBook option) option" where
  "trader_place_order malloc_ok st t book' a' = (case (t, book', a') of
     (Some tr, Some book, Some a) \<Rightarrow> do {
       x \<leftarrow> st a;
       if t_trader_id tr \<noteq> trader_id x then Some (- 1, t, book')
       else let required_funds = d_mul (order_get_price (Some x)) (d_of_int (order_get_quantity (Some x))) in
         if is_buy_order x \<and> d_lt (balance tr) required_funds then Some (- 1, t, book')
         else let tr' = (if is_buy_order x then tr\<lparr>balance := d_sub (balance tr) required_funds\<rparr> else tr) in do {
           (r, book'') \<leftarrow> order_book_add_order malloc_ok st book' a';
           Some (r, Some tr', book'') } }
   | _ \<Rightarrow> Some (- 1, t, book'))"

definition trader_update_balance :: "Trader option \<Rightarrow> double \<Rightarrow> Trader option" where
  "trader_update_balance t amount = (case t of None \<Rightarrow> None
     | Some tr \<Rightarrow>
         let new_balance = d_add (balance tr) amount in
         if d_lt new_balance (Fin 0) then Some tr else Some (tr\<lparr>balance := new_balance\<rparr>))"

section \<open>Trades\<close>

definition MAX_ORDER_ID_LENGTH :: nat where
  "MAX_ORDER_ID_LENGTH = 64"

record Trade =
  buy_order_id :: string
  sell_order_id :: string
  trade_price :: double
  trade_quantity :: int

definition trade_create :: "bool \<Rightarrow> string option \<Rightarrow> string option \<Rightarrow> double \<Rightarrow> int \<Rightarrow> Trade option" where
  "trade_create malloc_ok b' s' p q = (case (b', s') of
     (Some b, Some s) \<Rightarrow>
       if d_le p (Fin 0) then None
       else if q \<le> 0 then None
       else if \<not> malloc_ok then None
       else if MAX_ORDER_ID_LENGTH \<le> length b \<or> MAX_ORDER_ID_LENGTH \<le> length s then None
       else Some \<lparr>buy_order_id = copy_field MAX_ORDER_ID_LENGTH b,
                  sell_order_id = copy_field MAX_ORDER_ID_LENGTH s,
                  trade_price = p, trade_quantity = q\<rparr>
   | _ \<Rightarrow> None)"

definition trade_get_buy_order_id :: "Trade option \<Rightarrow> string option" where
  "trade_get_buy_order_id t = map_option buy_order_id t"

definition trade_get_sell_order_id :: "Trade option \<Rightarrow> string option" where
  "trade_get_sell_order_id t = map_option sell_order_id t"

definition trade_get_price :: "Trade option \<Rightarrow> double" where
  "trade_get_price t = (case t of None \<Rightarrow> Fin 0 | Some tr \<Rightarrow> trade_price tr)"

definition trade_get_quantity :: "Trade option \<Rightarrow> int" where
  "trade_get_quantity t = (case t of None \<Rightarrow> 0 | Some tr \<Rightarrow> trade_quantity tr)"

text \<open>Only the seller's account changes; the return code and the seller are the result.\<close>

definition trade_execute :: "Trade option \<Rightarrow> Trader option \<Rightarrow> Trader option \<Rightarrow> rc \<times> Trader option" where
  "trade_execute trade buyer seller = (case (trade, buyer, seller) of
     (Some tr, Some b, Some s) \<Rightarrow>
       let total_amount = d_mul (trade_price tr) (d_of_int (trade_quantity tr)) in
       (0, trader_update_balance seller total_amount)
   | _ \<Rightarrow> (- 1, seller))"

definition trade_to_string :: "bool \<Rightarrow> Trade option \<Rightarrow> string option" where
  "trade_to_string malloc_ok t = (case t of None \<Rightarrow> None
     | Some tr \<Rightarrow> if \<not> malloc_ok then None
         else Some (snprintf 256
           (''Trade{buy_order='' @ buy_order_id tr @ '', sell_order='' @ sell_order_id tr @
            '', price='' @ show_f2 (trade_price tr) @ '', quantity='' @ show_int (trade_quantity tr) @ ''}'')))"

section \<open>The account is never overdrawn\<close>

definition solvent :: "Trader \<Rightarrow> bool" where
  "solvent tr \<longleftrightarrow> \<not> d_lt (balance tr) (Fin 0)"

text \<open>What an operation on one trader can do to it; arguments are arbitrary.\<close>

inductive trader_step :: "Trader \<Rightarrow> Trader \<Rightarrow> bool" where
  set_id: "trader_set_id (Some tr) i = Some tr' \<Longrightarrow> trader_step tr tr'"
| set_name: "trader_set_name (Some tr) n = Some tr' \<Longrightarrow> trader_step tr tr'"
| set_balance: "trader_set_balance (Some tr) b = Some tr' \<Longrightarrow> trader_step tr tr'"
| place: "trader_place_order m st (Some tr) book a = Some (r, Some tr', book') \<Longrightarrow> trader_step tr tr'"
| update: "trader_update_balance (Some tr) b = Some tr' \<Longrightarrow> trader_step tr tr'"
| sell: "trade_execute (Some t) (Some b) (Some tr) = (r, Some tr') \<Longrightarrow> trader_step tr tr'"

definition trader_init :: "Trader \<Rightarrow> bool" where
  "trader_init tr \<longleftrightarrow> (\<exists>m i n b. trader_create m i n b = Some tr)"

text \<open>Spending at most what is there leaves an amount that is not below zero, or not a number.\<close>

lemma d_sub_not_negative: "\<not> d_lt a b \<Longrightarrow> \<not> d_lt a (Fin 0) \<Longrightarrow> \<not> d_lt (d_sub a b) (Fin 0)"
  by (cases a; cases b) (auto simp: d_sub_def d_lt_less round_double_nonneg not_less)

lemma trader_update_solvent: "trader_update_balance (Some tr) b = Some tr' \<Longrightarrow> solvent tr \<Longrightarrow> solvent tr'"
  by (auto simp: trader_update_balance_def solvent_def Let_def split: if_splits)

lemma trader_place_solvent:
  assumes "trader_place_order m st (Some tr) book a = Some (r, Some tr', book')" "solvent tr"
  shows "solvent tr'"
  using assms d_sub_not_negative
  by (auto simp: trader_place_order_def solvent_def Let_def bind_eq_Some_conv split: option.splits if_splits prod.splits)

lemma trader_step_solvent: "trader_step tr tr' \<Longrightarrow> solvent tr \<Longrightarrow> solvent tr'"
proof (induction rule: trader_step.induct)
  case (place m st tr book a r tr' book')
  then show ?case using trader_place_solvent by blast
next
  case (update tr b tr')
  then show ?case using trader_update_solvent by blast
next
  case (sell t b tr r tr')
  then show ?case using trader_update_solvent by (auto simp: trade_execute_def Let_def)
qed (auto simp: solvent_def trader_set_id_def trader_set_name_def trader_set_balance_def
    split: if_splits option.splits)

lemma trader_create_solvent: "trader_create m i n b = Some tr \<Longrightarrow> solvent tr"
  by (cases i; cases n) (auto simp: trader_create_def solvent_def split: if_splits)

interpretation trader_machine: invariant_machine trader_init trader_step solvent
proof unfold_locales
  show "solvent tr" if "trader_init tr" for tr
    using that trader_create_solvent unfolding trader_init_def by blast
qed (rule trader_step_solvent)

section \<open>Reservation and settlement in whole units\<close>

text \<open>
  With prices and balances that are whole numbers below \<open>2 ^ 53\<close> (of the smallest unit, say) the
  arithmetic is exact.
\<close>

lemma d_mul_ints: "\<bar>a * b\<bar> < 2 ^ 53 \<Longrightarrow> d_mul (Fin (of_int a)) (Fin (of_int b)) = Fin (of_int (a * b))"
  using round_double_of_int [of "a * b"] by simp

lemma d_sub_ints: "\<bar>a - b\<bar> < 2 ^ 53 \<Longrightarrow> d_sub (Fin (of_int a)) (Fin (of_int b)) = Fin (of_int (a - b))"
  using round_double_of_int [of "a - b"] by (simp add: d_sub_def)

lemma d_add_ints: "\<bar>a + b\<bar> < 2 ^ 53 \<Longrightarrow> d_add (Fin (of_int a)) (Fin (of_int b)) = Fin (of_int (a + b))"
  using round_double_of_int [of "a + b"] by simp

text \<open>Placing a buy order takes price times quantity from the buyer.\<close>

lemma place_buy_reserves:
  assumes "st a = Some x" "t_trader_id tr = trader_id x" "is_buy_order x"
    and "price x = Fin (of_int p)" "balance tr = Fin (of_int bal)"
    and "0 \<le> p * quantity x" "p * quantity x \<le> bal" "bal < 2 ^ 53"
    and "order_book_add_order m st (Some book) (Some a) = Some (r, book')"
  shows "trader_place_order m st (Some tr) (Some book) (Some a) =
    Some (r, Some (tr\<lparr>balance := Fin (of_int (bal - p * quantity x))\<rparr>), book')"
proof -
  have "d_mul (price x) (d_of_int (quantity x)) = Fin (of_int (p * quantity x))"
    using d_mul_ints [of p "quantity x"] assms by (simp add: d_of_int_def)
  moreover have "d_sub (Fin (of_int bal)) (Fin (of_int (p * quantity x))) = Fin (of_int (bal - p * quantity x))"
    using assms by (intro d_sub_ints) linarith
  moreover have "\<not> d_lt (balance tr) (Fin (of_int (p * quantity x)))"
    using assms(5,7) by (simp del: of_int_mult)
  ultimately show ?thesis
    using assms by (simp add: trader_place_order_def order_get_price_def order_get_quantity_def Let_def del: of_int_mult of_int_diff)
qed

text \<open>Settling a trade gives price times quantity to the seller, and nothing to the buyer.\<close>

lemma trade_execute_credits:
  assumes "trade_price t = Fin (of_int p)" "balance s = Fin (of_int bal)"
    and "0 \<le> bal" "0 \<le> p * trade_quantity t" "bal + p * trade_quantity t < 2 ^ 53"
  shows "trade_execute (Some t) (Some b) (Some s) =
    (0, Some (s\<lparr>balance := Fin (of_int (bal + p * trade_quantity t))\<rparr>))"
proof -
  have "d_mul (trade_price t) (d_of_int (trade_quantity t)) = Fin (of_int (p * trade_quantity t))"
    using d_mul_ints [of p "trade_quantity t"] assms by (simp add: d_of_int_def)
  moreover have "d_add (Fin (of_int bal)) (Fin (of_int (p * trade_quantity t))) = Fin (of_int (bal + p * trade_quantity t))"
    using assms by (intro d_add_ints) linarith
  ultimately show ?thesis
    using assms by (simp add: trade_execute_def trader_update_balance_def Let_def del: of_int_mult of_int_add)
qed

end
