(* ===== verification/AVL_Heap.thy ===== *)
theory AVL_Heap
  imports AVL_Tree
begin

text \<open>
  \<open>src/trading_engine/avl_tree.c\<close> once more, now with its pointers: nodes are cells of a heap, \<open>malloc\<close> and
  \<open>free\<close> change which cells are live, and every read or write of a cell that is not live, and every
  second \<open>free\<close>, is the fault \<open>None\<close>. The functions mutate the cells in the order of the source. The
  simulation shows that on a heap that holds a tree they do what the functions of \<open>AVL_Tree\<close> do
  to the tree, that they touch no other cell, lose none and never use a freed one.
\<close>

section \<open>Cells and rotations\<close>

record 'o AVLNode =
  n_price :: double
  n_timestamp :: int
  n_order :: 'o
  n_left :: "addr option"
  n_right :: "addr option"
  n_height :: int

type_synonym 'o node_heap = "addr \<rightharpoonup> 'o AVLNode"

definition get_height_h :: "'o node_heap \<Rightarrow> addr option \<Rightarrow> int option" where
  "get_height_h h n = (case n of None \<Rightarrow> Some 0 | Some a \<Rightarrow> do { c \<leftarrow> h a; Some (n_height c) })"

definition get_balance_h :: "'o node_heap \<Rightarrow> addr option \<Rightarrow> int option" where
  "get_balance_h h n = (case n of None \<Rightarrow> Some 0
     | Some a \<Rightarrow> do { c \<leftarrow> h a; x \<leftarrow> get_height_h h (n_left c); y \<leftarrow> get_height_h h (n_right c); Some (x - y) })"

text \<open>\<open>node->height = max(get_height(node->left), get_height(node->right)) + 1\<close>\<close>

definition update_height :: "'o node_heap \<Rightarrow> addr \<Rightarrow> 'o node_heap option" where
  "update_height h a = do {
     c \<leftarrow> h a;
     x \<leftarrow> get_height_h h (n_left c);
     y \<leftarrow> get_height_h h (n_right c);
     Some (h(a \<mapsto> c\<lparr>n_height := max x y + 1\<rparr>)) }"

definition set_left :: "'o node_heap \<Rightarrow> addr \<Rightarrow> addr option \<Rightarrow> 'o node_heap option" where
  "set_left h a l = do { c \<leftarrow> h a; Some (h(a \<mapsto> c\<lparr>n_left := l\<rparr>)) }"

definition set_right :: "'o node_heap \<Rightarrow> addr \<Rightarrow> addr option \<Rightarrow> 'o node_heap option" where
  "set_right h a r = do { c \<leftarrow> h a; Some (h(a \<mapsto> c\<lparr>n_right := r\<rparr>)) }"

definition right_rotate_h :: "'o node_heap \<Rightarrow> addr \<Rightarrow> ('o node_heap \<times> addr) option" where
  "right_rotate_h h y = do {
     cy \<leftarrow> h y;
     x \<leftarrow> n_left cy;
     cx \<leftarrow> h x;
     h1 \<leftarrow> set_right h x (Some y);
     h2 \<leftarrow> set_left h1 y (n_right cx);
     h3 \<leftarrow> update_height h2 y;
     h4 \<leftarrow> update_height h3 x;
     Some (h4, x) }"

definition left_rotate_h :: "'o node_heap \<Rightarrow> addr \<Rightarrow> ('o node_heap \<times> addr) option" where
  "left_rotate_h h x = do {
     cx \<leftarrow> h x;
     y \<leftarrow> n_right cx;
     cy \<leftarrow> h y;
     h1 \<leftarrow> set_left h y (Some x);
     h2 \<leftarrow> set_right h1 x (n_left cy);
     h3 \<leftarrow> update_height h2 x;
     h4 \<leftarrow> update_height h3 y;
     Some (h4, y) }"

text \<open>\<open>node->left = left_rotate(node->left)\<close> and its mirror image; the argument is dereferenced.\<close>

definition rotate_left_child :: "'o node_heap \<Rightarrow> addr \<Rightarrow> 'o node_heap option" where
  "rotate_left_child h a = do {
     c \<leftarrow> h a; l \<leftarrow> n_left c; (h1, l') \<leftarrow> left_rotate_h h l; set_left h1 a (Some l') }"

definition rotate_right_child :: "'o node_heap \<Rightarrow> addr \<Rightarrow> 'o node_heap option" where
  "rotate_right_child h a = do {
     c \<leftarrow> h a; r \<leftarrow> n_right c; (h1, r') \<leftarrow> right_rotate_h h r; set_right h1 a (Some r') }"

section \<open>Insertion\<close>

definition create_node_h :: "addr option \<Rightarrow> 'o node_heap \<Rightarrow> double \<Rightarrow> int \<Rightarrow> 'o \<Rightarrow> 'o node_heap \<times> addr option" where
  "create_node_h new h p t x = (case new of None \<Rightarrow> (h, None)
     | Some a \<Rightarrow> (h(a \<mapsto> \<lparr>n_price = p, n_timestamp = t, n_order = x, n_left = None, n_right = None, n_height = 1\<rparr>), Some a))"

text \<open>The comparison with the cell a child pointer leads to, a fault when the pointer is NULL.\<close>

definition compare_child :: "'o node_heap \<Rightarrow> double \<Rightarrow> int \<Rightarrow> addr option \<Rightarrow> bool \<Rightarrow> int option" where
  "compare_child h p t n b = do { a \<leftarrow> n; c \<leftarrow> h a; Some (compare_nodes p t (n_price c) (n_timestamp c) b) }"

definition insert_fixup_h ::
  "'o node_heap \<Rightarrow> addr \<Rightarrow> double \<Rightarrow> int \<Rightarrow> bool \<Rightarrow> ('o node_heap \<times> addr) option" where
  "insert_fixup_h h0 a p t b = do {
     h \<leftarrow> update_height h0 a;
     balance \<leftarrow> get_balance_h h (Some a);
     c \<leftarrow> h a;
     if balance > 1 then do {
       cmp \<leftarrow> compare_child h p t (n_left c) b;
       if cmp < 0 then right_rotate_h h a
       else if cmp > 0 then do { h1 \<leftarrow> rotate_left_child h a; right_rotate_h h1 a }
       else Some (h, a) }
     else if balance < - 1 then do {
       cmp \<leftarrow> compare_child h p t (n_right c) b;
       if cmp > 0 then left_rotate_h h a
       else if cmp < 0 then do { h1 \<leftarrow> rotate_right_child h a; left_rotate_h h1 a }
       else Some (h, a) }
     else Some (h, a) }"

partial_function (option) insert_node_h ::
  "addr option \<Rightarrow> 'o node_heap \<Rightarrow> addr option \<Rightarrow> double \<Rightarrow> int \<Rightarrow> 'o \<Rightarrow> bool \<Rightarrow> ('o node_heap \<times> addr option) option" where
  [code]: "insert_node_h new h n p t x b = (case n of None \<Rightarrow> Some (create_node_h new h p t x)
     | Some a \<Rightarrow> do {
         c \<leftarrow> h a;
         let cmp = compare_nodes p t (n_price c) (n_timestamp c) b;
         if cmp < 0 then do {
           r \<leftarrow> insert_node_h new h (n_left c) p t x b;
           h2 \<leftarrow> set_left (fst r) a (snd r);
           r2 \<leftarrow> insert_fixup_h h2 a p t b;
           Some (apsnd Some r2) }
         else if cmp > 0 then do {
           r \<leftarrow> insert_node_h new h (n_right c) p t x b;
           h2 \<leftarrow> set_right (fst r) a (snd r);
           r2 \<leftarrow> insert_fixup_h h2 a p t b;
           Some (apsnd Some r2) }
         else Some (h, n) })"

section \<open>Deletion\<close>

partial_function (option) find_min_node_h :: "'o node_heap \<Rightarrow> addr \<Rightarrow> addr option" where
  [code]: "find_min_node_h h a = do {
     c \<leftarrow> h a;
     (case n_left c of None \<Rightarrow> Some a | Some l \<Rightarrow> find_min_node_h h l) }"

definition free_node :: "'o node_heap \<Rightarrow> addr \<Rightarrow> 'o node_heap option" where
  "free_node h a = do { _ \<leftarrow> h a; Some (h(a := None)) }"

definition delete_rotate :: "'o node_heap \<Rightarrow> addr \<Rightarrow> ('o node_heap \<times> addr) option" where
  "delete_rotate h a = do {
     balance \<leftarrow> get_balance_h h (Some a);
     c \<leftarrow> h a;
     if balance > 1 then do {
       bl \<leftarrow> get_balance_h h (n_left c);
       if bl \<ge> 0 then right_rotate_h h a else do { h1 \<leftarrow> rotate_left_child h a; right_rotate_h h1 a } }
     else if balance < - 1 then do {
       br \<leftarrow> get_balance_h h (n_right c);
       if br \<le> 0 then left_rotate_h h a else do { h1 \<leftarrow> rotate_right_child h a; left_rotate_h h1 a } }
     else Some (h, a) }"

definition delete_fixup_h :: "'o node_heap \<Rightarrow> addr option \<Rightarrow> ('o node_heap \<times> addr option) option" where
  "delete_fixup_h h n = (case n of None \<Rightarrow> Some (h, None)
     | Some a \<Rightarrow> do {
         h1 \<leftarrow> update_height h a;
         r \<leftarrow> delete_rotate h1 a;
         Some (apsnd Some r) })"

text \<open>The node with at most one child: it goes, or takes over its child's content and the child goes.\<close>

definition unlink_node :: "'o node_heap \<Rightarrow> addr \<Rightarrow> 'o AVLNode \<Rightarrow> ('o node_heap \<times> addr option) option" where
  "unlink_node h a c = (case (if n_left c \<noteq> None then n_left c else n_right c) of
     None \<Rightarrow> do { h1 \<leftarrow> free_node h a; Some (h1, None) }
   | Some k \<Rightarrow> do { ck \<leftarrow> h k; h1 \<leftarrow> free_node (h(a \<mapsto> ck)) k; Some (h1, Some a) })"

partial_function (option) delete_node_h ::
  "'o node_heap \<Rightarrow> addr option \<Rightarrow> double \<Rightarrow> int \<Rightarrow> bool \<Rightarrow> ('o node_heap \<times> addr option) option" where
  [code]: "delete_node_h h n p t b = (case n of None \<Rightarrow> Some (h, None)
     | Some a \<Rightarrow> do {
         c \<leftarrow> h a;
         let cmp = compare_nodes p t (n_price c) (n_timestamp c) b;
         if cmp < 0 then do {
           r \<leftarrow> delete_node_h h (n_left c) p t b;
           h2 \<leftarrow> set_left (fst r) a (snd r);
           delete_fixup_h h2 (Some a) }
         else if cmp > 0 then do {
           r \<leftarrow> delete_node_h h (n_right c) p t b;
           h2 \<leftarrow> set_right (fst r) a (snd r);
           delete_fixup_h h2 (Some a) }
         else (case (n_left c, n_right c) of
           (Some l, Some q) \<Rightarrow> do {
             m \<leftarrow> find_min_node_h h q;
             s \<leftarrow> h m;
             let h1 = h(a \<mapsto> c\<lparr>n_price := n_price s, n_timestamp := n_timestamp s, n_order := n_order s\<rparr>);
             r \<leftarrow> delete_node_h h1 (Some q) (n_price s) (n_timestamp s) b;
             h2 \<leftarrow> set_right (fst r) a (snd r);
             delete_fixup_h h2 (Some a) }
         | _ \<Rightarrow> do { r \<leftarrow> unlink_node h a c; delete_fixup_h (fst r) (snd r) }) })"

section \<open>Traversal and destruction\<close>

partial_function (option) inorder_traverse_h ::
  "'o node_heap \<Rightarrow> addr option \<Rightarrow> ('o \<Rightarrow> 's \<Rightarrow> 's) \<Rightarrow> 's \<Rightarrow> 's option" where
  [code]: "inorder_traverse_h h n callback s = (case n of None \<Rightarrow> Some s
     | Some a \<Rightarrow> do {
         c \<leftarrow> h a;
         s1 \<leftarrow> inorder_traverse_h h (n_left c) callback s;
         inorder_traverse_h h (n_right c) callback (callback (n_order c) s1) })"

text \<open>The log line of \<open>destroy_node\<close> reads the node after its children are gone.\<close>

partial_function (option) destroy_node_h :: "'o node_heap \<Rightarrow> addr option \<Rightarrow> 'o node_heap option" where
  [code]: "destroy_node_h h n = (case n of None \<Rightarrow> Some h
     | Some a \<Rightarrow> do {
         c \<leftarrow> h a;
         h1 \<leftarrow> destroy_node_h h (n_left c);
         c1 \<leftarrow> h1 a;
         h2 \<leftarrow> destroy_node_h h1 (n_right c1);
         free_node h2 a })"

section \<open>The tree handle\<close>

record tree_handle =
  h_root :: "addr option"
  h_is_buy_tree :: bool

definition avl_insert_h ::
  "addr option \<Rightarrow> 'o node_heap \<Rightarrow> tree_handle option \<Rightarrow> double \<Rightarrow> int \<Rightarrow> 'o \<Rightarrow> ('o node_heap \<times> tree_handle option) option" where
  "avl_insert_h new h tree p t x = (case tree of None \<Rightarrow> Some (h, None)
     | Some T \<Rightarrow> do {
         r \<leftarrow> insert_node_h new h (h_root T) p t x (h_is_buy_tree T);
         Some (fst r, Some (T\<lparr>h_root := snd r\<rparr>)) })"

definition avl_delete_order_h ::
  "'o node_heap \<Rightarrow> tree_handle option \<Rightarrow> double \<Rightarrow> int \<Rightarrow> ('o node_heap \<times> tree_handle option) option" where
  "avl_delete_order_h h tree p t = (case tree of None \<Rightarrow> Some (h, None)
     | Some T \<Rightarrow> do {
         r \<leftarrow> delete_node_h h (h_root T) p t (h_is_buy_tree T);
         Some (fst r, Some (T\<lparr>h_root := snd r\<rparr>)) })"

definition avl_inorder_traverse_h ::
  "'o node_heap \<Rightarrow> tree_handle option \<Rightarrow> ('o \<Rightarrow> 's \<Rightarrow> 's) option \<Rightarrow> 's \<Rightarrow> 's option" where
  "avl_inorder_traverse_h h tree callback s = (case (tree, callback) of
     (Some T, Some f) \<Rightarrow> inorder_traverse_h h (h_root T) f s | _ \<Rightarrow> Some s)"

text \<open>The handle itself is released too; what is left is the heap of nodes.\<close>

definition avl_destroy_h :: "'o node_heap \<Rightarrow> tree_handle option \<Rightarrow> 'o node_heap option" where
  "avl_destroy_h h tree = (case tree of None \<Rightarrow> Some h
     | Some T \<Rightarrow> if h_root T \<noteq> None then destroy_node_h h (h_root T) else Some h)"

text \<open>
  A sequence of operations on one tree. \<open>alloc i h\<close> is what \<open>malloc\<close> gives for a node in the \<open>i\<close>-th operation,
  NULL when there is no memory; whether there was memory is recorded.
\<close>

datatype 'o index_op = Insert_op double int 'o | Delete_op double int

fun run_index ::
  "(nat \<Rightarrow> 'o node_heap \<Rightarrow> addr option) \<Rightarrow> nat \<Rightarrow> 'o index_op list \<Rightarrow> 'o node_heap \<Rightarrow> tree_handle option \<Rightarrow>
   ('o node_heap \<times> tree_handle option \<times> bool list) option" where
  "run_index alloc i [] h tree = Some (h, tree, [])"
| "run_index alloc i (Insert_op p t x # ops) h tree = do {
     (h1, tree1) \<leftarrow> avl_insert_h (alloc i h) h tree p t x;
     (h2, tree2, ms) \<leftarrow> run_index alloc (Suc i) ops h1 tree1;
     Some (h2, tree2, (alloc i h \<noteq> None) # ms) }"
| "run_index alloc i (Delete_op p t # ops) h tree = do {
     (h1, tree1) \<leftarrow> avl_delete_order_h h tree p t;
     (h2, tree2, ms) \<leftarrow> run_index alloc (Suc i) ops h1 tree1;
     Some (h2, tree2, True # ms) }"

text \<open>The same sequence on a sorted list of entries.\<close>

fun run_entries :: "bool list \<Rightarrow> 'o index_op list \<Rightarrow> (key \<times> 'o) list \<Rightarrow> (key \<times> 'o) list" where
  "run_entries (m # ms) (Insert_op p t x # ops) es = run_entries ms ops (if m then ins_key (p, t) x es else es)"
| "run_entries (m # ms) (Delete_op p t # ops) es = run_entries ms ops (del_key (p, t) es)"
| "run_entries _ _ es = es"

fun op_price :: "'o index_op \<Rightarrow> double" where
  "op_price (Insert_op p t x) = p"
| "op_price (Delete_op p t) = p"

section \<open>A tree on the heap\<close>

fun rep :: "'o node_heap \<Rightarrow> addr option \<Rightarrow> 'o avl_node \<Rightarrow> addr set \<Rightarrow> bool" where
  "rep h n Null A \<longleftrightarrow> n = None \<and> A = {}"
| "rep h n (Node p t x l r ht) A \<longleftrightarrow>
     (\<exists>a nl nr L R. n = Some a \<and>
        h a = Some \<lparr>n_price = p, n_timestamp = t, n_order = x, n_left = nl, n_right = nr, n_height = ht\<rparr> \<and>
        rep h nl l L \<and> rep h nr r R \<and> a \<notin> L \<and> a \<notin> R \<and> L \<inter> R = {} \<and> A = insert a (L \<union> R))"

definition agree :: "'o node_heap \<Rightarrow> 'o node_heap \<Rightarrow> addr set \<Rightarrow> bool" where
  "agree h h' A \<longleftrightarrow> (\<forall>a. a \<notin> A \<longrightarrow> h' a = h a)"

lemma agree_refl [simp]: "agree h h A"
  by (simp add: agree_def)

lemma agree_upd [simp]: "a \<in> A \<Longrightarrow> agree h (h'(a := v)) A \<longleftrightarrow> agree h h' A"
  by (auto simp: agree_def)

lemma agree_trans: "agree h h1 A \<Longrightarrow> agree h1 h2 B \<Longrightarrow> A \<subseteq> C \<Longrightarrow> B \<subseteq> C \<Longrightarrow> agree h h2 C"
  unfolding agree_def by (metis subsetD)

lemma agree_mono: "agree h h' A \<Longrightarrow> A \<subseteq> B \<Longrightarrow> agree h h' B"
  by (auto simp: agree_def)

lemma agree_outside: "agree h h' A \<Longrightarrow> a \<notin> A \<Longrightarrow> h' a = h a"
  by (simp add: agree_def)

lemma rep_NodeE:
  assumes "rep h n (Node p t x l r ht) A"
  obtains a nl nr L R where "n = Some a" "A = insert a (L \<union> R)"
    "h a = Some \<lparr>n_price = p, n_timestamp = t, n_order = x, n_left = nl, n_right = nr, n_height = ht\<rparr>"
    "rep h nl l L" "rep h nr r R" "a \<notin> L" "a \<notin> R" "L \<inter> R = {}"
  using assms by auto

lemma rep_SomeE:
  assumes "rep h (Some a) (Node p t x l r ht) A"
  obtains nl nr L R where "A = insert a (L \<union> R)"
    "h a = Some \<lparr>n_price = p, n_timestamp = t, n_order = x, n_left = nl, n_right = nr, n_height = ht\<rparr>"
    "rep h nl l L" "rep h nr r R" "a \<notin> L" "a \<notin> R" "L \<inter> R = {}"
  using assms by (rule rep_NodeE) simp

lemma rep_NodeI:
  assumes "h a = Some \<lparr>n_price = p, n_timestamp = t, n_order = x, n_left = nl, n_right = nr, n_height = ht\<rparr>"
    "rep h nl l L" "rep h nr r R" "a \<notin> L" "a \<notin> R" "L \<inter> R = {}" "A = insert a (L \<union> R)"
  shows "rep h (Some a) (Node p t x l r ht) A"
  using assms by auto

lemma rep_frame: "rep h n t A \<Longrightarrow> (\<And>a. a \<in> A \<Longrightarrow> h' a = h a) \<Longrightarrow> rep h' n t A"
proof (induction t arbitrary: n A)
  case (Node p t x l r ht)
  from Node.prems(1) obtain a nl nr L R where n: "n = Some a" "A = insert a (L \<union> R)"
    and c: "h a = Some \<lparr>n_price = p, n_timestamp = t, n_order = x, n_left = nl, n_right = nr, n_height = ht\<rparr>"
    and LR: "rep h nl l L" "rep h nr r R" "a \<notin> L" "a \<notin> R" "L \<inter> R = {}" by auto
  have "rep h' nl l L" "rep h' nr r R" using Node.IH LR(1,2) Node.prems(2) n(2) by auto
  moreover have "h' a = h a" using Node.prems(2) n(2) by simp
  ultimately show ?case using n c LR(3-5) by auto
qed simp

lemma rep_upd [simp]: "a \<notin> A \<Longrightarrow> rep (h(a := v)) n t A \<longleftrightarrow> rep h n t A"
  by (metis (no_types, lifting) fun_upd_other fun_upd_triv fun_upd_upd rep_frame)

lemma rep_agree: "rep h n t A \<Longrightarrow> agree h h' B \<Longrightarrow> A \<inter> B = {} \<Longrightarrow> rep h' n t A"
  by (erule rep_frame) (auto simp: agree_def)

lemma rep_live: "rep h n t A \<Longrightarrow> A \<subseteq> dom h"
  by (induction t arbitrary: n A) fastforce+

lemma rep_card: "rep h n t A \<Longrightarrow> finite A \<and> card A = length (entries t)"
  by (induction t arbitrary: n A) (fastforce simp: card_Un_disjoint)+

lemma rep_None [simp]: "rep h None t A \<longleftrightarrow> t = Null \<and> A = {}"
  by (cases t) auto

lemma rep_get_height: "rep h n t A \<Longrightarrow> get_height_h h n = Some (get_height t)"
  by (cases t) (auto simp: get_height_h_def)

lemma rep_get_balance: "rep h n t A \<Longrightarrow> get_balance_h h n = Some (get_balance t)"
  by (cases t) (auto simp: get_balance_h_def rep_get_height)

declare rep.simps(2) [simp del]

section \<open>Rotations\<close>

text \<open>A function that ends with the tree \<open>t'\<close> in the cells \<open>A\<close> and has written to no other.\<close>

definition yields :: "'o node_heap \<Rightarrow> addr set \<Rightarrow> ('o node_heap \<times> addr) option \<Rightarrow> 'o avl_node \<Rightarrow> bool" where
  "yields h A res t' \<longleftrightarrow> (\<exists>h' a'. res = Some (h', a') \<and> rep h' (Some a') t' A \<and> agree h h' A)"

lemma update_height_rep:
  assumes "rep h (Some a) (Node p t x l r ht) A"
  shows "\<exists>h'. update_height h a = Some h' \<and> rep h' (Some a) (mk_node p t x l r) A \<and> agree h h' A"
proof (rule rep_NodeE [OF assms], goal_cases)
  case (1 a' nl nr L R)
  then show ?case unfolding mk_node_def
    by (intro exI [of _ "h(a \<mapsto> \<lparr>n_price = p, n_timestamp = t, n_order = x, n_left = nl, n_right = nr,
            n_height = max (get_height l) (get_height r) + 1\<rparr>)"] conjI rep_NodeI [where L = L and R = R and nl = nl and nr = nr])
      (simp_all add: update_height_def rep_get_height)
qed

lemma right_rotate_rep:
  assumes "rep h (Some y) t A" "right_rotate t = Some t'"
  shows "yields h A (right_rotate_h h y) t'"
proof -
  obtain p ts x lp lt lx ll lr lh r ht where t: "t = Node p ts x (Node lp lt lx ll lr lh) r ht"
    using assms(2) by (cases t rule: right_rotate.cases) auto
  obtain nl nr L R where y: "A = insert y (L \<union> R)"
    "h y = Some \<lparr>n_price = p, n_timestamp = ts, n_order = x, n_left = nl, n_right = nr, n_height = ht\<rparr>"
    and l: "rep h nl (Node lp lt lx ll lr lh) L" and r: "rep h nr r R" "y \<notin> L" "y \<notin> R" "L \<inter> R = {}"
    using assms(1) unfolding t by (rule rep_SomeE)
  obtain z zl zr M N where z: "nl = Some z" "L = insert z (M \<union> N)"
    "h z = Some \<lparr>n_price = lp, n_timestamp = lt, n_order = lx, n_left = zl, n_right = zr, n_height = lh\<rparr>"
    "rep h zl ll M" "rep h zr lr N" "z \<notin> M" "z \<notin> N" "M \<inter> N = {}"
    using l by (rule rep_NodeE)
  define cy where "cy = \<lparr>n_price = p, n_timestamp = ts, n_order = x, n_left = zr, n_right = nr,
    n_height = max (get_height lr) (get_height r) + 1\<rparr>"
  define cz where "cz = \<lparr>n_price = lp, n_timestamp = lt, n_order = lx, n_left = zl, n_right = Some y,
    n_height = max (get_height ll) (n_height cy) + 1\<rparr>"
  have "right_rotate_h h y = Some (h(z \<mapsto> cz, y \<mapsto> cy), z)"
    using y z r by (auto simp: right_rotate_h_def set_left_def set_right_def update_height_def cy_def cz_def
        rep_get_height [of _ zr lr N] rep_get_height [of _ zl ll M] rep_get_height [of _ nr r R]
        get_height_h_def [of _ "Some y"] fun_upd_twist)
  moreover have "rep (h(z \<mapsto> cz, y \<mapsto> cy)) (Some y) (mk_node p ts x lr r) (insert y (N \<union> R))"
    unfolding mk_node_def cy_def
    by (rule rep_NodeI [where L = N and R = R and nl = zr and nr = nr]) (use y z r in auto)
  then have "rep (h(z \<mapsto> cz, y \<mapsto> cy)) (Some z)
    (Node lp lt lx ll (mk_node p ts x lr r) (max (get_height ll) (get_height (mk_node p ts x lr r)) + 1)) A"
    by (rule rep_NodeI [rotated 2, where nl = zl and nr = "Some y" and L = M]) (use y z r in \<open>auto simp: cz_def cy_def mk_node_def\<close>)
  then have "rep (h(z \<mapsto> cz, y \<mapsto> cy)) (Some z) t' A"
    using assms(2) by (auto simp: t mk_node_def simp del: rep.simps)
  moreover have "agree h (h(z \<mapsto> cz, y \<mapsto> cy)) A" using y z by simp
  ultimately show ?thesis by (auto simp: yields_def)
qed

text \<open>Left rotation is right rotation in the mirror.\<close>

definition mirror_cell :: "'o AVLNode \<Rightarrow> 'o AVLNode" where
  "mirror_cell c = c\<lparr>n_left := n_right c, n_right := n_left c\<rparr>"

definition mirror_h :: "'o node_heap \<Rightarrow> 'o node_heap" where
  "mirror_h h = (\<lambda>a. map_option mirror_cell (h a))"

lemma mirror_cell_simps [simp]:
  "n_left (mirror_cell c) = n_right c" "n_right (mirror_cell c) = n_left c" "n_height (mirror_cell c) = n_height c"
  "mirror_cell (mirror_cell c) = c"
  "mirror_cell (c\<lparr>n_left := n\<rparr>) = (mirror_cell c)\<lparr>n_right := n\<rparr>"
  "mirror_cell (c\<lparr>n_right := n\<rparr>) = (mirror_cell c)\<lparr>n_left := n\<rparr>"
  "mirror_cell (c\<lparr>n_height := k\<rparr>) = (mirror_cell c)\<lparr>n_height := k\<rparr>"
  "mirror_cell \<lparr>n_price = p, n_timestamp = t, n_order = x, n_left = l, n_right = r, n_height = ht\<rparr> =
     \<lparr>n_price = p, n_timestamp = t, n_order = x, n_left = r, n_right = l, n_height = ht\<rparr>"
  by (simp_all add: mirror_cell_def)

lemma mirror_h_apply [simp]: "mirror_h h a = map_option mirror_cell (h a)"
  by (simp add: mirror_h_def)

lemma mirror_h_upd [simp]: "mirror_h (h(a := v)) = (mirror_h h)(a := map_option mirror_cell v)"
  by (auto simp: mirror_h_def)

fun mirror_node :: "'o avl_node \<Rightarrow> 'o avl_node" where
  "mirror_node Null = Null"
| "mirror_node (Node p t x l r ht) = Node p t x (mirror_node r) (mirror_node l) ht"

lemma mirror_node_mirror_node [simp]: "mirror_node (mirror_node t) = t"
  by (induction t) auto

lemma mirror_h_mirror_h [simp]: "mirror_h (mirror_h h) = h"
  by (simp add: mirror_h_def option.map_comp comp_def option.map_ident)

lemma get_height_mirror [simp]: "get_height (mirror_node t) = get_height t"
  by (cases t) simp_all

lemma get_height_h_mirror [simp]: "get_height_h (mirror_h h) n = get_height_h h n"
  by (auto simp: get_height_h_def Option.bind_map_option comp_def split: option.splits)

lemma mk_node_mirror [simp]: "mirror_node (mk_node p t x l r) = mk_node p t x (mirror_node r) (mirror_node l)"
  by (simp add: mk_node_def max.commute)

lemma rep_mirror: "rep h n t A \<Longrightarrow> rep (mirror_h h) n (mirror_node t) A"
proof (induction t arbitrary: n A)
  case (Node p t x l r ht)
  from Node.prems show ?case
  proof (rule rep_NodeE, goal_cases)
    case (1 a nl nr L R)
    show ?case unfolding 1(1) mirror_node.simps
      by (rule rep_NodeI [OF _ Node.IH(2) [OF 1(5)] Node.IH(1) [OF 1(4)]]) (use 1 in auto)
  qed
qed simp

lemma right_rotate_mirror: "right_rotate (mirror_node t) = map_option mirror_node (left_rotate t)"
  by (cases t rule: left_rotate.cases) auto

lemma set_mirror:
  "set_right (mirror_h h) a n = map_option mirror_h (set_left h a n)"
  "set_left (mirror_h h) a n = map_option mirror_h (set_right h a n)"
  by (cases "h a"; simp add: set_left_def set_right_def)+

lemma update_height_mirror: "update_height (mirror_h h) a = map_option mirror_h (update_height h a)"
  by (cases "h a") (auto simp: update_height_def map_option_bind max.commute intro!: Option.bind_cong
      split: Option.bind_splits)

lemma rotate_mirror: "right_rotate_h (mirror_h h) a = map_option (apfst mirror_h) (left_rotate_h h a)"
  by (simp add: right_rotate_h_def left_rotate_h_def set_mirror update_height_mirror Option.bind_map_option
      map_option_bind comp_def)

lemma agree_mirror: "agree h h' A \<Longrightarrow> agree (mirror_h h) (mirror_h h') A"
  by (simp add: agree_def)

lemma yields_mirror:
  assumes "yields (mirror_h h) A (map_option (apfst mirror_h) res) (mirror_node t)"
  shows "yields h A res t"
proof -
  obtain h' a where "res = Some (h', a)" "rep (mirror_h h') (Some a) (mirror_node t) A" "agree (mirror_h h) (mirror_h h') A"
    using assms by (auto simp: yields_def)
  then show ?thesis using rep_mirror [of "mirror_h h'"] agree_mirror [of "mirror_h h" "mirror_h h'"]
    by (fastforce simp: yields_def)
qed

lemma left_rotate_rep:
  assumes "rep h (Some y) t A" "left_rotate t = Some t'"
  shows "yields h A (left_rotate_h h y) t'"
  using right_rotate_rep [OF rep_mirror [OF assms(1)], of "mirror_node t'"] assms(2)
  by (simp add: right_rotate_mirror rotate_mirror yields_mirror)

text \<open>A child has been worked on, from the cells \<open>L\<close> to the cells \<open>L'\<close>, and its pointer is written back.\<close>

lemma set_left_rep:
  assumes "h a = Some \<lparr>n_price = p, n_timestamp = t, n_order = x, n_left = nl, n_right = nr, n_height = ht\<rparr>"
    "rep h nr r R" "a \<notin> L" "a \<notin> R" "L \<inter> R = {}"
    "rep h1 nl' l' L'" "agree h h1 (L \<union> L')" "a \<notin> L'" "L' \<inter> R = {}"
  obtains h2 where "set_left h1 a nl' = Some h2" "rep h2 (Some a) (Node p t x l' r ht) (insert a (L' \<union> R))"
    "agree h h2 (insert a (L \<union> L'))" "agree h1 h2 {a}"
proof -
  let ?h2 = "h1(a \<mapsto> \<lparr>n_price = p, n_timestamp = t, n_order = x, n_left = nl', n_right = nr, n_height = ht\<rparr>)"
  have "h1 a = h a" using assms(3,7,8) by (simp add: agree_outside)
  moreover have "rep h1 nr r R" using assms(2,5,7,9) by (intro rep_agree [OF assms(2,7)]) auto
  ultimately show thesis using assms
    by (intro that [of ?h2]) (auto simp: set_left_def agree_def intro: rep_NodeI [where L = L' and R = R])
qed

lemma set_right_rep:
  assumes "h a = Some \<lparr>n_price = p, n_timestamp = t, n_order = x, n_left = nl, n_right = nr, n_height = ht\<rparr>"
    "rep h nl l L" "a \<notin> L" "a \<notin> R" "L \<inter> R = {}"
    "rep h1 nr' r' R'" "agree h h1 (R \<union> R')" "a \<notin> R'" "L \<inter> R' = {}"
  obtains h2 where "set_right h1 a nr' = Some h2" "rep h2 (Some a) (Node p t x l r' ht) (insert a (L \<union> R'))"
    "agree h h2 (insert a (R \<union> R'))" "agree h1 h2 {a}"
proof -
  let ?h2 = "h1(a \<mapsto> \<lparr>n_price = p, n_timestamp = t, n_order = x, n_left = nl, n_right = nr', n_height = ht\<rparr>)"
  have "h1 a = h a" using assms(4,7,8) by (simp add: agree_outside)
  moreover have "rep h1 nl l L" using assms(2,5,7,9) by (intro rep_agree [OF assms(2,7)]) auto
  ultimately show thesis using assms
    by (intro that [of ?h2]) (auto simp: set_right_def agree_def intro: rep_NodeI [where L = L and R = R'])
qed

text \<open>Rotating a child and then the node.\<close>

lemma left_right_rep:
  assumes "rep h (Some a) (Node p t x l r ht) A" "left_rotate l = Some l'" "right_rotate (mk_node p t x l' r) = Some t'"
  shows "yields h A (do { h1 \<leftarrow> rotate_left_child h a; right_rotate_h h1 a }) t'"
proof -
  obtain nl nr L R where a: "A = insert a (L \<union> R)"
    "h a = Some \<lparr>n_price = p, n_timestamp = t, n_order = x, n_left = nl, n_right = nr, n_height = ht\<rparr>"
    "rep h nl l L" "rep h nr r R" "a \<notin> L" "a \<notin> R" "L \<inter> R = {}"
    using assms(1) by (rule rep_SomeE)
  obtain k where k: "nl = Some k" using a(3) assms(2) by (cases nl) auto
  obtain h1 k' where h1: "left_rotate_h h k = Some (h1, k')" "rep h1 (Some k') l' L" "agree h h1 L"
    using left_rotate_rep [of h k l L l'] a(3) assms(2) k by (auto simp: yields_def)
  have "agree h h1 (L \<union> L)" using h1(3) by simp
  from set_left_rep [OF a(2,4,5,6,7) h1(2) this a(5,7)]
  obtain h2 where h2: "set_left h1 a (Some k') = Some h2" "rep h2 (Some a) (Node p t x l' r ht) A" "agree h h2 A"
    using a(1) by (metis agree_mono insert_mono sup.cobounded1 sup.idem)
  have "right_rotate (Node p t x l' r ht) = Some t'"
    using assms(3) by (cases l') (simp_all add: mk_node_def)
  from right_rotate_rep [OF h2(2) this] obtain h3 b where h3: "right_rotate_h h2 a = Some (h3, b)" "rep h3 (Some b) t' A"
    "agree h2 h3 A" by (auto simp: yields_def)
  then show ?thesis using a(2) k h1(1) h2(1) agree_trans [OF h2(3) h3(3) order_refl order_refl]
    by (simp add: yields_def rotate_left_child_def)
qed

lemma left_rotate_mirror: "left_rotate (mirror_node t) = map_option mirror_node (right_rotate t)"
  using right_rotate_mirror [of "mirror_node t"] by (simp add: option.map_comp comp_def option.map_ident)

lemma rotate_mirror': "left_rotate_h (mirror_h h) a = map_option (apfst mirror_h) (right_rotate_h h a)"
  using rotate_mirror [of "mirror_h h"] by (simp add: option.map_comp comp_def apfst_def map_prod_def option.map_ident split_def)

lemma rotate_child_mirror: "rotate_left_child (mirror_h h) a = map_option mirror_h (rotate_right_child h a)"
  by (simp add: rotate_left_child_def rotate_right_child_def rotate_mirror' set_mirror Option.bind_map_option
      map_option_bind comp_def split_def)

lemma right_left_rep:
  assumes "rep h (Some a) (Node p t x l r ht) A" "right_rotate r = Some r'" "left_rotate (mk_node p t x l r') = Some t'"
  shows "yields h A (do { h1 \<leftarrow> rotate_right_child h a; left_rotate_h h1 a }) t'"
proof -
  have "rep (mirror_h h) (Some a) (Node p t x (mirror_node r) (mirror_node l) ht) A"
    using rep_mirror [OF assms(1)] by simp
  moreover have "left_rotate (mirror_node r) = Some (mirror_node r')" using assms(2) by (simp add: left_rotate_mirror)
  moreover have "right_rotate (mk_node p t x (mirror_node r') (mirror_node l)) = Some (mirror_node t')"
    using assms(3) right_rotate_mirror [of "mk_node p t x l r'"] by simp
  ultimately have y: "yields (mirror_h h) A (do { h1 \<leftarrow> rotate_left_child (mirror_h h) a; right_rotate_h h1 a }) (mirror_node t')"
    by (rule left_right_rep)
  have eq: "do { h1 \<leftarrow> rotate_left_child (mirror_h h) a; right_rotate_h h1 a } =
    map_option (apfst mirror_h) (do { h1 \<leftarrow> rotate_right_child h a; left_rotate_h h1 a })"
    by (cases "rotate_right_child h a") (simp_all add: rotate_child_mirror rotate_mirror)
  show ?thesis by (rule yields_mirror [OF y [unfolded eq]])
qed

lemmas rotations_rep = right_rotate_rep left_rotate_rep left_right_rep right_left_rep

section \<open>Insertion and deletion\<close>

lemma yields_trans: "agree h h1 A \<Longrightarrow> yields h1 A res t \<Longrightarrow> yields h A res t"
  using agree_trans [of h h1 A _ A A] by (auto simp: yields_def)

lemma rep_compare_child:
  "rep h n t A \<Longrightarrow> compare_child h p ts n b = compare_with p ts t b"
  by (cases t) (auto simp: compare_child_def elim!: rep_NodeE)

lemma insert_fixup_rep:
  assumes "rep h (Some a) t A" "insert_fixup t p ts b = Some t'"
  shows "yields h A (insert_fixup_h h a p ts b) t'"
proof -
  obtain np nt x l r ht where t: "t = Node np nt x l r ht" using assms(2) by (cases t) auto
  obtain h1 where h1: "update_height h a = Some h1" "rep h1 (Some a) (mk_node np nt x l r) A" "agree h h1 A"
    using update_height_rep [OF assms(1) [unfolded t]] by blast
  obtain nl nr L R where a: "A = insert a (L \<union> R)" 
    "h1 a = Some \<lparr>n_price = np, n_timestamp = nt, n_order = x, n_left = nl, n_right = nr,
       n_height = max (get_height l) (get_height r) + 1\<rparr>" "rep h1 nl l L" "rep h1 nr r R"
    using h1(2) unfolding mk_node_def by (rule rep_SomeE)
  note rot = rotations_rep(1,2) [OF h1(2)] rotations_rep(3,4) [OF h1(2) [unfolded mk_node_def]]
  have "yields h1 A (insert_fixup_h h a p ts b) t'"
    using assms(2) h1(1) a(2) unfolding t
    by (auto simp: insert_fixup_h_def rep_get_balance [OF h1(2)] rep_compare_child [OF a(3)] rep_compare_child [OF a(4)]
        Let_def bind_eq_Some_conv yields_def [of _ _ "Some _"] h1(2) intro: rot split: if_splits)
  then show ?thesis using h1(3) by (rule yields_trans [rotated])
qed

lemma delete_fixup_rep:
  assumes "rep h n t A" "delete_fixup t = Some t'"
  shows "\<exists>h' n'. delete_fixup_h h n = Some (h', n') \<and> rep h' n' t' A \<and> agree h h' A"
proof (cases t)
  case Null
  then show ?thesis using assms by (auto simp: delete_fixup_h_def)
next
  case t: (Node p ts x l r ht)
  obtain a where n: "n = Some a" using assms(1) unfolding t by (rule rep_NodeE)
  obtain h1 where h1: "update_height h a = Some h1" "rep h1 (Some a) (mk_node p ts x l r) A" "agree h h1 A"
    using update_height_rep [OF assms(1) [unfolded t n]] by blast
  obtain nl nr L R where a: "A = insert a (L \<union> R)" 
    "h1 a = Some \<lparr>n_price = p, n_timestamp = ts, n_order = x, n_left = nl, n_right = nr,
       n_height = max (get_height l) (get_height r) + 1\<rparr>" "rep h1 nl l L" "rep h1 nr r R"
    using h1(2) unfolding mk_node_def by (rule rep_SomeE)
  note rot = rotations_rep(1,2) [OF h1(2)] rotations_rep(3,4) [OF h1(2) [unfolded mk_node_def]]
  have "yields h1 A (delete_rotate h1 a) t'"
    using assms(2) a(2) unfolding t
    by (auto simp: delete_rotate_def rep_get_balance [OF h1(2)] rep_get_balance [OF a(3)] rep_get_balance [OF a(4)]
        Let_def bind_eq_Some_conv yields_def [of _ _ "Some _"] h1(2) intro: rot split: if_splits)
  from yields_trans [OF h1(3) this] show ?thesis
    by (auto simp: delete_fixup_h_def yields_def n h1(1))
qed

text \<open>
  The result of an operation on the tree in the cells \<open>A\<close>: the tree \<open>t'\<close> in the cells \<open>A'\<close>, nothing else
  written, and the cells that are no longer used are freed.
\<close>

definition results ::
  "'o node_heap \<Rightarrow> addr set \<Rightarrow> ('o node_heap \<times> addr option) option \<Rightarrow> 'o avl_node \<Rightarrow> addr set \<Rightarrow> bool" where
  "results h A res t' A' \<longleftrightarrow> (\<exists>h' n'. res = Some (h', n') \<and> rep h' n' t' A' \<and> agree h h' (A \<union> A') \<and>
     (\<forall>k \<in> A - A'. h' k = None))"

lemma resultsE:
  assumes "results h A res t' A'"
  obtains h' n' where "res = Some (h', n')" "rep h' n' t' A'" "agree h h' (A \<union> A')" "\<forall>k \<in> A - A'. h' k = None"
  using assms by (auto simp: results_def)

lemma resultsI:
  assumes "res = Some (h', n')" "rep h' n' t' A'" "agree h h' (A \<union> A')" "\<And>k. k \<in> A - A' \<Longrightarrow> h' k = None"
  shows "results h A res t' A'"
  using assms by (auto simp: results_def)

lemma left_child_results:
  assumes a: "h a = Some \<lparr>n_price = p, n_timestamp = t, n_order = x, n_left = nl, n_right = nr, n_height = ht\<rparr>"
    "rep h nr r R" "a \<notin> L" "a \<notin> R" "L \<inter> R = {}"
    and child: "results h L res l' L'" "a \<notin> L'" "L' \<inter> R = {}"
    and fixup: "\<And>h2. rep h2 (Some a) (Node p t x l' r ht) (insert a (L' \<union> R)) \<Longrightarrow>
      results h2 (insert a (L' \<union> R)) (fixup h2) t' (insert a (L' \<union> R))"
  shows "results h (insert a (L \<union> R)) (do { s \<leftarrow> res; h2 \<leftarrow> set_left (fst s) a (snd s); fixup h2 }) t' (insert a (L' \<union> R))"
proof -
  obtain h1 n1 where h1: "res = Some (h1, n1)" "rep h1 n1 l' L'" "agree h h1 (L \<union> L')" "\<forall>k \<in> L - L'. h1 k = None"
    using child(1) by (rule resultsE)
  obtain h2 where h2: "set_left h1 a n1 = Some h2" "rep h2 (Some a) (Node p t x l' r ht) (insert a (L' \<union> R))"
    "agree h h2 (insert a (L \<union> L'))" "agree h1 h2 {a}"
    by (rule set_left_rep [OF a h1(2,3) child(2,3)])
  obtain h3 n3 where h3: "fixup h2 = Some (h3, n3)" "rep h3 n3 t' (insert a (L' \<union> R))" "agree h2 h3 (insert a (L' \<union> R))"
    using fixup [OF h2(2)] by (auto elim: resultsE)
  have freed: "h3 k = None" if k: "k \<in> insert a (L \<union> R) - insert a (L' \<union> R)" for k
  proof -
    from k have "k \<in> L - L'" "k \<notin> {a}" "k \<notin> insert a (L' \<union> R)" by auto
    then show ?thesis using h1(4) agree_outside [OF h2(4)] agree_outside [OF h3(3)] by metis
  qed
  have ag: "agree h h3 (insert a (L \<union> R) \<union> insert a (L' \<union> R))"
    by (rule agree_trans [OF h2(3) h3(3)]) auto
  show ?thesis by (rule resultsI [OF _ h3(2) ag freed]) (auto simp: h1(1) h2(1) h3(1))
qed

lemma right_child_results:
  assumes a: "h a = Some \<lparr>n_price = p, n_timestamp = t, n_order = x, n_left = nl, n_right = nr, n_height = ht\<rparr>"
    "rep h nl l L" "a \<notin> L" "a \<notin> R" "L \<inter> R = {}"
    and child: "results h R res r' R'" "a \<notin> R'" "L \<inter> R' = {}"
    and fixup: "\<And>h2. rep h2 (Some a) (Node p t x l r' ht) (insert a (L \<union> R')) \<Longrightarrow>
      results h2 (insert a (L \<union> R')) (fixup h2) t' (insert a (L \<union> R'))"
  shows "results h (insert a (L \<union> R)) (do { s \<leftarrow> res; h2 \<leftarrow> set_right (fst s) a (snd s); fixup h2 }) t' (insert a (L \<union> R'))"
proof -
  obtain h1 n1 where h1: "res = Some (h1, n1)" "rep h1 n1 r' R'" "agree h h1 (R \<union> R')" "\<forall>k \<in> R - R'. h1 k = None"
    using child(1) by (rule resultsE)
  obtain h2 where h2: "set_right h1 a n1 = Some h2" "rep h2 (Some a) (Node p t x l r' ht) (insert a (L \<union> R'))"
    "agree h h2 (insert a (R \<union> R'))" "agree h1 h2 {a}"
    by (rule set_right_rep [OF a h1(2,3) child(2,3)])
  obtain h3 n3 where h3: "fixup h2 = Some (h3, n3)" "rep h3 n3 t' (insert a (L \<union> R'))" "agree h2 h3 (insert a (L \<union> R'))"
    using fixup [OF h2(2)] by (auto elim: resultsE)
  have freed: "h3 k = None" if k: "k \<in> insert a (L \<union> R) - insert a (L \<union> R')" for k
  proof -
    from k have "k \<in> R - R'" "k \<notin> {a}" "k \<notin> insert a (L \<union> R')" by auto
    then show ?thesis using h1(4) agree_outside [OF h2(4)] agree_outside [OF h3(3)] by metis
  qed
  have ag: "agree h h3 (insert a (L \<union> R) \<union> insert a (L \<union> R'))"
    by (rule agree_trans [OF h2(3) h3(3)]) auto
  show ?thesis by (rule resultsI [OF _ h3(2) ag freed]) (auto simp: h1(1) h2(1) h3(1))
qed

lemma insert_fixup_results:
  "rep h (Some a) t A \<Longrightarrow> insert_fixup t p ts b = Some t' \<Longrightarrow>
   results h A (do { r \<leftarrow> insert_fixup_h h a p ts b; Some (apsnd Some r) }) t' A"
  using insert_fixup_rep [of h a t A p ts b t'] by (auto simp: results_def yields_def)

lemma delete_fixup_results:
  "rep h n t A \<Longrightarrow> delete_fixup t = Some t' \<Longrightarrow> results h A (delete_fixup_h h n) t' A"
  using delete_fixup_rep [of h n t A t'] by (auto simp: results_def)

lemma insert_node_rep:
  assumes "rep h n t A" "insert_node (new \<noteq> None) t p ts x b = Some t'" "set_option new \<inter> A = {}"
  shows "\<exists>A'. results h A (insert_node_h new h n p ts x b) t' A' \<and> A \<subseteq> A' \<and> A' \<subseteq> A \<union> set_option new"
  using assms
proof (induction t arbitrary: n A t')
  case Null
  then show ?case
    by (auto simp: insert_node_h.simps [of _ _ None] create_node_h_def create_node_def results_def agree_def rep.simps(2)
        split: option.splits)
next
  case (Node np nt nx l r ht)
  from Node.prems(1) show ?case
  proof (rule rep_NodeE, goal_cases)
    case (1 a nl nr L R)
    let ?cmp = "compare_nodes p ts np nt b"
    note unf = insert_node_h.simps [of _ _ "Some a"] 1(3)
    consider "?cmp < 0" | "?cmp > 0" | "?cmp = 0" by linarith
    then show ?case
    proof cases
      assume c: "?cmp < 0"
      then obtain l' where l': "insert_node (new \<noteq> None) l p ts x b = Some l'" "insert_fixup (Node np nt nx l' r ht) p ts b = Some t'"
        using Node.prems(2) by (auto simp: bind_eq_Some_conv)
      from Node.IH(1) [OF 1(4) l'(1)] Node.prems(3) obtain L' where L': "results h L (insert_node_h new h nl p ts x b) l' L'"
        "L \<subseteq> L'" "L' \<subseteq> L \<union> set_option new" unfolding 1(2) by blast
      with 1 Node.prems(3) have "results h A (insert_node_h new h n p ts x b) t' (insert a (L' \<union> R))"
        using left_child_results [OF 1(3,5,6,7,8) L'(1) _ _ insert_fixup_results [where a = a, OF _ l'(2)]] c by (auto simp: unf)
      then show ?thesis using L' 1(2) by blast
    next
      assume c: "?cmp > 0"
      then obtain r' where r': "insert_node (new \<noteq> None) r p ts x b = Some r'" "insert_fixup (Node np nt nx l r' ht) p ts b = Some t'"
        using Node.prems(2) by (auto simp: bind_eq_Some_conv)
      from Node.IH(2) [OF 1(5) r'(1)] Node.prems(3) obtain R' where R': "results h R (insert_node_h new h nr p ts x b) r' R'"
        "R \<subseteq> R'" "R' \<subseteq> R \<union> set_option new" unfolding 1(2) by blast
      with 1 Node.prems(3) have "results h A (insert_node_h new h n p ts x b) t' (insert a (L \<union> R'))"
        using right_child_results [OF 1(3,4,6,7,8) R'(1) _ _ insert_fixup_results [where a = a, OF _ r'(2)]] c by (auto simp: unf)
      then show ?thesis using R' 1(2) by blast
    next
      assume "?cmp = 0"
      then show ?thesis using Node.prems 1(1) by (intro exI [of _ A]) (auto simp: unf results_def)
    qed
  qed
qed

lemma find_min_node_rep:
  assumes "rep h (Some q) t A" "find_min_node t = Node p ts x l r ht"
  shows "\<exists>m c. find_min_node_h h q = Some m \<and> m \<in> A \<and> h m = Some c \<and> n_price c = p \<and> n_timestamp c = ts \<and> n_order c = x"
  using assms
proof (induction t arbitrary: q A)
  case (Node np nt nx nl nr nh)
  from Node.prems(1) show ?case
  proof (rule rep_SomeE, goal_cases)
    case (1 l' r' L R)
    show ?case
    proof (cases l')
      case None
      then show ?thesis using 1 Node.prems(2) by (auto simp: find_min_node_h.simps [of _ q])
    next
      case (Some k)
      then have "find_min_node nl = Node p ts x l r ht"
        using 1(3) Node.prems(2) by (auto simp: is_null_iff split: if_splits)
      with Node.IH(1) [of k L] 1(1,2,3) Some show ?thesis by (auto simp: find_min_node_h.simps [of _ q])
    qed
  qed
qed simp

text \<open>The node with at most one child, by the child \<open>k\<close> that takes its place.\<close>

lemma unlink_node_results:
  assumes a: "h a = Some c" "c = \<lparr>n_price = p, n_timestamp = t, n_order = x, n_left = nl, n_right = nr, n_height = ht\<rparr>"
    "rep h nl l L" "rep h nr r R" "a \<notin> L" "a \<notin> R" "L \<inter> R = {}" and one: "l = Null \<or> r = Null"
  shows "\<exists>A'. results h (insert a (L \<union> R)) (unlink_node h a c) (if is_null l then r else l) A' \<and> A' \<subseteq> insert a (L \<union> R)"
proof -
  define k where "k = (if nl \<noteq> None then nl else nr)"
  have k: "rep h k (if is_null l then r else l) (L \<union> R)"
    using a one by (cases l; cases r) (auto simp: k_def elim: rep_NodeE)
  show ?thesis
  proof (cases "if is_null l then r else l")
    case Null
    with k have "nl = None" "nr = None" "L = {}" "R = {}" by (auto simp: k_def split: if_splits)
    then show ?thesis using Null a(1,2)
      by (intro exI [of _ "{}"]) (simp add: results_def unlink_node_def free_node_def agree_def)
  next
    case (Node q s y l1 r1 h1)
    show ?thesis using k unfolding Node
    proof (rule rep_NodeE, goal_cases)
      case (1 b bl br M N)
      have out: "a \<notin> insert b (M \<union> N)" using a(5,6) unfolding 1(2) [symmetric] by simp
      have "unlink_node h a c = Some (h(a := h b, b := None), Some a)"
        using 1 a(1,2) by (auto simp: unlink_node_def k_def free_node_def)
      moreover have "rep (h(a := h b, b := None)) (Some a) (Node q s y l1 r1 h1) (insert a (M \<union> N))"
        by (rule rep_NodeI [where L = M and R = N and nl = bl and nr = br]) (use 1 out in auto)
      ultimately show ?case using 1 out
        by (intro exI [of _ "insert a (M \<union> N)"]) (auto simp: results_def agree_def)
    qed
  qed
qed

lemma results_bind:
  assumes "results h A res t B" "\<And>h' n'. rep h' n' t B \<Longrightarrow> results h' B (f (h', n')) t' B" "B \<subseteq> A"
  shows "results h A (Option.bind res f) t' B"
proof -
  obtain h1 n1 where h1: "res = Some (h1, n1)" "rep h1 n1 t B" "agree h h1 (A \<union> B)" "\<forall>k \<in> A - B. h1 k = None"
    using assms(1) by (rule resultsE)
  obtain h2 n2 where h2: "f (h1, n1) = Some (h2, n2)" "rep h2 n2 t' B" "agree h1 h2 B"
    using assms(2) [OF h1(2)] by (auto elim: resultsE)
  have "\<forall>k \<in> A - B. h2 k = None" using h1(4) agree_outside [OF h2(3)] by auto
  moreover have "agree h h2 (A \<union> B)" by (rule agree_trans [OF h1(3) h2(3)]) auto
  ultimately show ?thesis using h1(1) h2 by (simp add: results_def)
qed

lemma results_upd: "a \<in> A \<Longrightarrow> results (h(a := v)) A res t A' \<Longrightarrow> results h A res t A'"
  by (auto simp: results_def agree_def)

text \<open>The node with two children takes the key and the order of its successor, which is deleted.\<close>

lemma delete_inner_results:
  assumes a: "h a = Some \<lparr>n_price = np, n_timestamp = nt, n_order = nx, n_left = Some k, n_right = Some q, n_height = ht\<rparr>"
    "rep h (Some k) l L" "rep h (Some q) r R" "a \<notin> L" "a \<notin> R" "L \<inter> R = {}"
    and c: "compare_nodes p ts np nt b = 0"
    and m: "find_min_node r = Node sp st sx ml mr mh"
    and r': "delete_node r sp st b = Some r'" "delete_fixup (Node sp st sx l r' ht) = Some t'"
    and IH: "\<And>h'. rep h' (Some q) r R \<Longrightarrow> \<exists>R'. results h' R (delete_node_h h' (Some q) sp st b) r' R' \<and> R' \<subseteq> R"
  shows "\<exists>R' \<subseteq> R. results h (insert a (L \<union> R)) (delete_node_h h (Some a) p ts b) t' (insert a (L \<union> R'))"
proof -
  obtain m s where ms: "find_min_node_h h q = Some m" "h m = Some s" "n_price s = sp" "n_timestamp s = st" "n_order s = sx"
    using find_min_node_rep [OF a(3) m] by blast
  let ?c = "\<lparr>n_price = sp, n_timestamp = st, n_order = sx, n_left = Some k, n_right = Some q, n_height = ht\<rparr>"
  let ?h1 = "h(a \<mapsto> ?c)"
  have h1: "?h1 a = Some ?c" "rep ?h1 (Some k) l L" using a(2,4) by simp_all
  obtain R' where R': "results ?h1 R (delete_node_h ?h1 (Some q) sp st b) r' R'" "R' \<subseteq> R"
    using IH [of ?h1] a(3,5) by auto
  have "results ?h1 (insert a (L \<union> R)) (do { s \<leftarrow> delete_node_h ?h1 (Some q) sp st b;
      h2 \<leftarrow> set_right (fst s) a (snd s); delete_fixup_h h2 (Some a) }) t' (insert a (L \<union> R'))"
    using a(4-6) R'(2)
    by (intro right_child_results [OF h1 _ _ _ R'(1) _ _ delete_fixup_results [where n = "Some a", OF _ r'(2)]]) auto
  then have "results h (insert a (L \<union> R)) (delete_node_h h (Some a) p ts b) t' (insert a (L \<union> R'))"
    using c ms a(1) by (intro results_upd [of a _ h "Some ?c"]) (simp_all add: delete_node_h.simps [of h "Some a"] Let_def)
  then show ?thesis using R'(2) by blast
qed

lemma delete_node_rep:
  assumes "rep h n t A" "delete_node t p ts b = Some t'"
  shows "\<exists>A'. results h A (delete_node_h h n p ts b) t' A' \<and> A' \<subseteq> A"
  using assms
proof (induction t arbitrary: h n p ts A t')
  case Null
  then show ?case by (auto simp: delete_node_h.simps [of _ None] results_def)
next
  case (Node np nt nx l r ht)
  from Node.prems(1) show ?case
  proof (rule rep_NodeE, goal_cases)
    case (1 a nl nr L R)
    let ?cmp = "compare_nodes p ts np nt b"
    note unf = delete_node_h.simps [of _ "Some a"] 1(3)
    have nulls: "nl = None \<longleftrightarrow> l = Null" "nr = None \<longleftrightarrow> r = Null" using 1(4,5) by (cases l; cases r; auto elim: rep_NodeE)+
    consider "?cmp < 0" | "?cmp > 0" | "?cmp = 0" "l = Null \<or> r = Null" | "?cmp = 0" "l \<noteq> Null" "r \<noteq> Null" by linarith
    then show ?case
    proof cases
      assume c: "?cmp < 0"
      then obtain l' where l': "delete_node l p ts b = Some l'" "delete_fixup (Node np nt nx l' r ht) = Some t'"
        using Node.prems(2) by (auto simp: bind_eq_Some_conv)
      from Node.IH(1) [OF 1(4) l'(1)] obtain L' where L': "results h L (delete_node_h h nl p ts b) l' L'" "L' \<subseteq> L" by blast
      with 1 have "results h A (delete_node_h h n p ts b) t' (insert a (L' \<union> R))"
        using left_child_results [OF 1(3,5,6,7,8) L'(1) _ _ delete_fixup_results [where n = "Some a", OF _ l'(2)]] c by (auto simp: unf)
      then show ?thesis using L' 1(2) by blast
    next
      assume c: "?cmp > 0"
      then obtain r' where r': "delete_node r p ts b = Some r'" "delete_fixup (Node np nt nx l r' ht) = Some t'"
        using Node.prems(2) by (auto simp: bind_eq_Some_conv)
      from Node.IH(2) [OF 1(5) r'(1)] obtain R' where R': "results h R (delete_node_h h nr p ts b) r' R'" "R' \<subseteq> R" by blast
      with 1 have "results h A (delete_node_h h n p ts b) t' (insert a (L \<union> R'))"
        using right_child_results [OF 1(3,4,6,7,8) R'(1) _ _ delete_fixup_results [where n = "Some a", OF _ r'(2)]] c by (auto simp: unf)
      then show ?thesis using R' 1(2) by blast
    next
      assume c: "?cmp = 0" "l = Null \<or> r = Null"
      then have "delete_fixup (if is_null l then r else l) = Some t'" using Node.prems(2) by (auto simp: is_null_iff)
      moreover obtain A' where "results h A (unlink_node h a (the (h a))) (if is_null l then r else l) A'" "A' \<subseteq> A"
        using unlink_node_results [OF 1(3) refl 1(4-8) c(2)] 1(2,3) by auto
      ultimately have "results h A (do { s \<leftarrow> unlink_node h a (the (h a)); delete_fixup_h (fst s) (snd s) }) t' A'"
        by (intro results_bind) (auto intro: delete_fixup_results)
      then show ?thesis using c nulls 1(1) \<open>A' \<subseteq> A\<close> by (auto simp: unf split: option.splits)
    next
      assume c: "?cmp = 0" "l \<noteq> Null" "r \<noteq> Null"
      obtain k q where kq: "nl = Some k" "nr = Some q" using nulls c by auto
      obtain sp st sx ml mr mh r' where "find_min_node r = Node sp st sx ml mr mh" "delete_node r sp st b = Some r'"
        "delete_fixup (Node sp st sx l r' ht) = Some t'"
        using Node.prems(2) c by (auto simp: is_null_iff bind_eq_Some_conv split: avl_node.splits)
      from delete_inner_results [OF 1(3-8) [unfolded kq] c(1) this Node.IH(2) [OF _ this(2)]]
      show ?thesis unfolding 1(1,2) by blast
    qed
  qed
qed

section \<open>Traversal and destruction\<close>

lemma inorder_traverse_rep:
  "rep h n t A \<Longrightarrow> inorder_traverse_h h n f s = Some (inorder_traverse_helper t f s)"
proof (induction t arbitrary: n A s)
  case Null
  then show ?case by (simp add: inorder_traverse_h.simps)
next
  case (Node p ts x l r ht)
  from Node.prems show ?case
    by (rule rep_NodeE) (auto simp: inorder_traverse_h.simps [of _ "Some _"] Node.IH)
qed

lemma destroy_node_rep: "rep h n t A \<Longrightarrow> destroy_node_h h n = Some (h |` (- A))"
proof (induction t arbitrary: h n A)
  case Null
  then show ?case by (simp add: destroy_node_h.simps)
next
  case (Node p ts x l r ht)
  from Node.prems show ?case
  proof (rule rep_NodeE, goal_cases)
    case (1 a nl nr L R)
    have "rep (h |` (- L)) nr r R" using 1(8) by (intro rep_frame [OF 1(5)]) (auto simp: restrict_map_def)
    from Node.IH(1) [OF 1(4)] Node.IH(2) [OF this] 1 show ?case
      by (auto simp: destroy_node_h.simps [of _ "Some a"] free_node_def restrict_map_def fun_eq_iff)
  qed
qed

section \<open>Sequences of operations\<close>

text \<open>The cells \<open>A\<close> hold a well-formed tree with the given entries; the rest of the heap is \<open>h0\<close>.\<close>

definition holds :: "'o node_heap \<Rightarrow> 'o node_heap \<Rightarrow> tree_handle option \<Rightarrow> (key \<times> 'o) list \<Rightarrow> bool" where
  "holds h0 h tree es \<longleftrightarrow> (\<exists>T n A. tree = Some T \<and> rep h (h_root T) n A \<and> tree_ok n \<and> entries n = es \<and>
     agree h0 h A \<and> (\<forall>a \<in> A. h0 a = None))"

lemma holdsI:
  "rep h r n A \<Longrightarrow> tree_ok n \<Longrightarrow> entries n = es \<Longrightarrow> agree h0 h A \<Longrightarrow> \<forall>a \<in> A. h0 a = None \<Longrightarrow>
   holds h0 h (Some (T\<lparr>h_root := r\<rparr>)) es"
  by (auto simp: holds_def)

lemma holds_insert:
  assumes "holds h0 h tree es" "p \<noteq> NaN" "\<And>a. new = Some a \<Longrightarrow> h a = None"
  shows "\<exists>h' tree'. avl_insert_h new h tree p t x = Some (h', tree') \<and>
    holds h0 h' tree' (if new \<noteq> None then ins_key (p, t) x es else es)"
proof -
  obtain T n A where n: "tree = Some T" "rep h (h_root T) n A" "tree_ok n" "entries n = es" "agree h0 h A" "\<forall>a \<in> A. h0 a = None"
    using assms(1) by (auto simp: holds_def)
  obtain n1 where n1: "insert_node True n p t x (h_is_buy_tree T) = Some n1" "tree_ok n1" "entries n1 = ins_key (p, t) x es"
    using insert_node_ok [OF n(3) assms(2)] n(4) by metis
  define n' where "n' = (if new \<noteq> None then n1 else n)"
  have n': "insert_node (new \<noteq> None) n p t x (h_is_buy_tree T) = Some n'" "tree_ok n'"
    "entries n' = (if new \<noteq> None then ins_key (p, t) x es else es)"
    using n1 n(3,4) insert_node_no_memory [of n] by (auto simp: n'_def tree_ok_def)
  have fresh: "set_option new \<inter> A = {}" using assms(3) rep_live [OF n(2)] by auto
  obtain A' where A': "results h A (insert_node_h new h (h_root T) p t x (h_is_buy_tree T)) n' A'" "A \<subseteq> A'" "A' \<subseteq> A \<union> set_option new"
    using insert_node_rep [OF n(2) n'(1) fresh] by blast
  obtain h' r where h': "insert_node_h new h (h_root T) p t x (h_is_buy_tree T) = Some (h', r)" "rep h' r n' A'"
    "agree h h' (A \<union> A')" using A'(1) by (rule resultsE)
  have "\<forall>a \<in> A'. h0 a = None"
  proof
    fix a assume "a \<in> A'"
    then show "h0 a = None" using A'(3) n(6) assms(3) agree_outside [OF n(5), of a] by (cases "a \<in> A") auto
  qed
  moreover have "agree h0 h' A'"
    using agree_trans [OF n(5) h'(3), of A'] A'(2) by simp
  ultimately have "holds h0 h' (Some (T\<lparr>h_root := r\<rparr>)) (entries n')" by (intro holdsI [OF h'(2) n'(2)]) auto
  then show ?thesis using n'(3) n(1) h'(1) by (simp add: avl_insert_h_def)
qed

lemma holds_delete:
  assumes "holds h0 h tree es" "p \<noteq> NaN"
  shows "\<exists>h' tree'. avl_delete_order_h h tree p t = Some (h', tree') \<and> holds h0 h' tree' (del_key (p, t) es)"
proof -
  obtain T n A where n: "tree = Some T" "rep h (h_root T) n A" "tree_ok n" "entries n = es" "agree h0 h A" "\<forall>a \<in> A. h0 a = None"
    using assms(1) by (auto simp: holds_def)
  obtain n' where n': "delete_node n p t (h_is_buy_tree T) = Some n'" "tree_ok n'" "entries n' = del_key (p, t) es"
    using delete_node_ok [OF n(3) assms(2)] n(4) by metis
  obtain A' where A': "results h A (delete_node_h h (h_root T) p t (h_is_buy_tree T)) n' A'" "A' \<subseteq> A"
    using delete_node_rep [OF n(2) n'(1)] by blast
  obtain h' r where h': "delete_node_h h (h_root T) p t (h_is_buy_tree T) = Some (h', r)" "rep h' r n' A'"
    "agree h h' (A \<union> A')" "\<forall>k \<in> A - A'. h' k = None"
    using A'(1) by (rule resultsE)
  have "agree h0 h' A'" unfolding agree_def
  proof (intro allI impI)
    fix k assume "k \<notin> A'"
    then show "h' k = h0 k" using h'(3,4) n(5,6) A'(2) by (cases "k \<in> A") (auto simp: agree_def domIff)
  qed
  then have "holds h0 h' (Some (T\<lparr>h_root := r\<rparr>)) (entries n')"
    using n(6) A'(2) by (intro holdsI [OF h'(2) n'(2)]) auto
  then show ?thesis using n'(3) n(1) h'(1) by (simp add: avl_delete_order_h_def)
qed

lemma run_index_holds:
  assumes "\<forall>i h a. alloc i h = Some a \<longrightarrow> h a = None" "list_all (\<lambda>c. op_price c \<noteq> NaN) ops" "holds h0 h tree es"
  shows "\<exists>h' tree' ms. run_index alloc i ops h tree = Some (h', tree', ms) \<and> length ms = length ops \<and>
    holds h0 h' tree' (run_entries ms ops es)"
  using assms(2,3)
proof (induction ops arbitrary: i h tree es)
  case (Cons c ops)
  show ?case
  proof (cases c)
    case (Insert_op p t x)
    obtain h1 tree1 where 1: "avl_insert_h (alloc i h) h tree p t x = Some (h1, tree1)"
      "holds h0 h1 tree1 (if alloc i h \<noteq> None then ins_key (p, t) x es else es)"
      using holds_insert [OF Cons.prems(2), of p "alloc i h" t x] Cons.prems(1) assms(1) Insert_op by auto
    from Cons.IH [OF _ 1(2), of "Suc i"] Cons.prems(1) 1(1) Insert_op show ?thesis by fastforce
  next
    case (Delete_op p t)
    obtain h1 tree1 where 1: "avl_delete_order_h h tree p t = Some (h1, tree1)" "holds h0 h1 tree1 (del_key (p, t) es)"
      using holds_delete [OF Cons.prems(2), of p t] Cons.prems(1) Delete_op by auto
    from Cons.IH [OF _ 1(2), of "Suc i"] Cons.prems(1) 1(1) Delete_op show ?thesis by fastforce
  qed
qed simp

lemma holds_empty: "holds h0 h0 (Some \<lparr>h_root = None, h_is_buy_tree = b\<rparr>) []"
  by (auto simp: holds_def tree_ok_def bst_def no_nan_def intro!: exI)

lemma holds_observed:
  assumes "holds h0 h tree es"
  shows "sorted_keys es" "avl_inorder_traverse_h h tree (Some f) s = Some (fold f (map snd es) s)"
    "avl_destroy_h h tree = Some h0" "\<And>a. a \<in> dom h0 \<Longrightarrow> h a = h0 a" "card (dom h - dom h0) = length es"
proof -
  obtain T n A where n: "tree = Some T" "rep h (h_root T) n A" "tree_ok n" "entries n = es" "agree h0 h A" "\<forall>a \<in> A. h0 a = None"
    using assms by (auto simp: holds_def)
  show "sorted_keys es" using n(3,4) by (simp add: tree_ok_def bst_def)
  show "avl_inorder_traverse_h h tree (Some f) s = Some (fold f (map snd es) s)"
    using inorder_traverse_rep [OF n(2)] n(1,4) by (simp add: avl_inorder_traverse_h_def inorder_traverse_fold)
  have "h |` (- A) = h0" using n(5,6) by (auto simp: restrict_map_def agree_def fun_eq_iff domIff)
  then show "avl_destroy_h h tree = Some h0"
    using destroy_node_rep [OF n(2)] n(1)
    by (cases "h_root T") (simp_all add: avl_destroy_h_def destroy_node_h.simps [of h None])
  show "\<And>a. a \<in> dom h0 \<Longrightarrow> h a = h0 a" using n(5,6) by (metis agree_outside domIff)
  have "dom h - dom h0 = A" using rep_live [OF n(2)] n(5,6) by (auto simp: agree_def domIff)
  then show "card (dom h - dom h0) = length es" using rep_card [OF n(2)] n(4) by simp
qed

end
