(* ===== verification/Engine_Properties.thy ===== *)
theory Engine_Properties
  imports Samples Trader AVL_Heap "HOL-Library.Multiset"
begin

text \<open>
  The properties of the trading engine: matching, the index of a side, the operations of the
  book and the accounts. Each is followed, where it has hypotheses, by an instance on the
  sample book.
\<close>

section \<open>Shared facts\<close>

text \<open>The orders of an abstract trade are orders of the two lists, some of them partly used up.\<close>

lemma put_back_used_up:
  "y \<in> set (put_back (reduce_by q x) xs) \<Longrightarrow> 0 \<le> q \<Longrightarrow> q \<le> remaining_quantity x \<Longrightarrow>
   \<exists>x' \<in> set (x # xs). used_up x' y"
  by (auto simp: put_back_def used_up_reduce split: if_splits intro: bexI [of _ y])

lemma match_lists_origin:
  "match_lists bs ss = (ts, bs', ss') \<Longrightarrow> (b, s, q) \<in> set ts \<Longrightarrow>
   (\<exists>b0 \<in> set bs. used_up b0 b) \<and> (\<exists>s0 \<in> set ss. used_up s0 s)"
proof (induction bs ss arbitrary: ts rule: match_lists.induct)
  case (1 b1 bs s1 ss)
  let ?q = "match_qty b1 s1"
  have mp: "is_match_possible (Some b1) (Some s1)"
    using "1.prems" by (auto split: if_splits)
  note Q = is_match_possible_qty [OF mp]
  obtain ts1 where ts1: "match_lists (put_back (reduce_by ?q b1) bs) (put_back (reduce_by ?q s1) ss) = (ts1, bs', ss')"
      "ts = (b1, s1, ?q) # ts1"
    using "1.prems" mp by (auto simp: Let_def split: prod.splits)
  show ?case
  proof (cases "(b, s, q) = (b1, s1, ?q)")
    case False
    then have "(b, s, q) \<in> set ts1" using "1.prems"(2) ts1(2) by auto
    from "1.IH" [OF mp refl ts1(1) this] Q put_back_used_up [of _ ?q] used_up_trans show ?thesis
      by (meson less_imp_le)
  qed (auto intro: used_up_refl)
qed auto

text \<open>The abstract trades a run of the matching corresponds to.\<close>

lemma match_orders_run:
  assumes "book_ok st book"
  obtains ts st' book' cs where
    "match_lists (bids st book) (asks st book) = (ts, bids st' book', asks st' book')"
    "order_book_match_orders clock st (Some book) = Some (st', Some book', cs)"
    "book_ok st' book'" "map call_trade cs = map list_trade ts" "store_frame book st st'"
proof -
  obtain ts bs ss where "match_lists (bids st book) (asks st book) = (ts, bs, ss)"
    by (metis prod_cases3)
  with order_book_match_orders_lists [OF assms this, of clock] that show ?thesis by metis
qed

lemma call_quantities:
  "map call_trade cs = map list_trade ts \<Longrightarrow> map tc_quantity cs = map (\<lambda>m. snd (snd m)) ts"
proof (induction cs arbitrary: ts)
  case (Cons c cs)
  then obtain t ts' where "ts = t # ts'" by (cases ts) auto
  with Cons show ?case by (cases t) (auto simp: call_trade_def list_trade_def)
qed simp

lemma sum_call_quantity: "map call_trade cs = map list_trade ts \<Longrightarrow> (\<Sum>c \<leftarrow> cs. tc_quantity c) = traded ts"
  by (simp add: call_quantities traded_def case_prod_unfold)

lemma used_up_fields:
  assumes "used_up x y"
  shows "order_id y = order_id x" "symbol y = symbol x" "price y = price x" "is_canceled y = is_canceled x"
    "remaining_quantity y \<le> remaining_quantity x"
  using assms by (cases x, cases y, simp add: used_up_def)+

text \<open>The ends of the two trees are the heads of the lists.\<close>

lemma book_ends:
  assumes "book_ok st book"
  shows "Option.bind (avl_find_max (buy_orders book)) st = (case bids st book of [] \<Rightarrow> None | b # _ \<Rightarrow> Some b)"
    and "Option.bind (avl_find_min (sell_orders book)) st = (case asks st book of [] \<Rightarrow> None | s # _ \<Rightarrow> Some s)"
  using assms bids_ConsD [OF assms] asks_ConsD [OF assms]
  by (auto simp: bids_def asks_def side_entries_def book_ok_def avl_find_max_def avl_find_min_def
      dest!: side_ok_SomeD split: list.splits)

lemma find_max_bids:
  assumes "book_ok st book" "bids st book = []"
  shows "avl_find_max (buy_orders book) = None"
proof -
  obtain t where "buy_orders book = Some t" "entries (root t) = []"
    using assms by (auto simp: book_ok_def bids_def side_entries_def dest!: side_ok_SomeD)
  then show ?thesis by (cases "root t") (auto simp: avl_find_max_def)
qed

lemma find_min_asks:
  assumes "book_ok st book" "asks st book = []"
  shows "avl_find_min (sell_orders book) = None"
proof -
  obtain t where "sell_orders book = Some t" "entries (root t) = []"
    using assms by (auto simp: book_ok_def asks_def side_entries_def dest!: side_ok_SomeD)
  then show ?thesis by (cases "root t") (auto simp: avl_find_min_def)
qed

lemma book_prices_numbers:
  "book_ok st book \<Longrightarrow> x \<in> set (asks st book) \<or> x \<in> set (bids st book) \<Longrightarrow> price x \<noteq> NaN"
  by (auto simp: book_ok_def asks_def bids_def side_entries_def deref_def tree_ok_def no_nan_def entry_ok_def
      dest!: side_ok_SomeD split: option.splits) (force split: option.splits)+

section \<open>Matching\<close>

text \<open>C1. Matching refines its specification: on a well-formed book \<open>order_book_match_orders\<close> returns,
  without a fault, a well-formed book whose bids and asks, best first, and whose announced trades
  (symbol, both order ids, price, quantity, in order) are those of \<open>match_lists\<close> on the lists of bids
  and asks; every announcement goes to the book's broadcaster.\<close>

theorem match_orders_refines:
  assumes "book_ok st book"
    and "match_lists (bids st book) (asks st book) = (ts, bs, ss)"
  shows "\<exists>st' book' cs. order_book_match_orders clock st (Some book) = Some (st', Some book', cs) \<and>
    book_ok st' book' \<and> bids st' book' = bs \<and> asks st' book' = ss \<and>
    map call_trade cs = map list_trade ts \<and>
    (\<forall>c \<in> set cs. tc_broadcaster c = trade_broadcaster book) \<and>
    trade_broadcaster book' = trade_broadcaster book"
  using order_book_match_orders_lists [OF assms, of clock] by metis

theorem match_orders_refines_witness:
  "\<exists>st' book' cs. order_book_match_orders sample_clock sample_store (Some sample_book) = Some (st', Some book', cs) \<and>
    book_ok st' book' \<and> map order_id (bids st' book') = [''B2'', ''B1''] \<and>
    map order_id (asks st' book') = [''S3''] \<and> map tc_quantity cs = [4, 3, 2]"
proof -
  let ?m = "match_lists (bids sample_store sample_book) (asks sample_store sample_book)"
  have "map order_id (fst (snd ?m)) = [''B2'', ''B1'']" "map order_id (snd (snd ?m)) = [''S3'']"
    "map (\<lambda>m. snd (snd m)) (fst ?m) = [4, 3, 2]"
    by code_simp+
  moreover obtain st' book' cs where
    "order_book_match_orders sample_clock sample_store (Some sample_book) = Some (st', Some book', cs)"
    "book_ok st' book'" "bids st' book' = fst (snd ?m)" "asks st' book' = snd (snd ?m)"
    "map call_trade cs = map list_trade (fst ?m)"
    using match_orders_refines [OF sample_book_ok, of "fst ?m" "fst (snd ?m)" "snd (snd ?m)" sample_clock] by auto
  moreover from this(5) have "map tc_quantity cs = map (\<lambda>m. snd (snd m)) (fst ?m)"
    by (rule call_quantities)
  ultimately show ?thesis by metis
qed

text \<open>C2. Matching leaves no crossed book: afterwards the best bid (\<open>avl_find_max\<close> of the buy tree) and the
  best ask (\<open>avl_find_min\<close> of the sell tree) cannot be matched.\<close>

theorem match_orders_uncrossed:
  assumes "book_ok st book"
  shows "\<exists>st' book' cs. order_book_match_orders clock st (Some book) = Some (st', Some book', cs) \<and>
    \<not> is_match_possible (Option.bind (avl_find_max (buy_orders book')) st')
                        (Option.bind (avl_find_min (sell_orders book')) st')"
proof -
  obtain ts st' book' cs where
    m: "match_lists (bids st book) (asks st book) = (ts, bids st' book', asks st' book')"
    and run: "order_book_match_orders clock st (Some book) = Some (st', Some book', cs)" and ok: "book_ok st' book'"
    using match_orders_run [OF assms, of clock] by metis
  have "\<not> is_match_possible (Option.bind (avl_find_max (buy_orders book')) st')
      (Option.bind (avl_find_min (sell_orders book')) st')"
    using book_ends [OF ok] match_lists_uncrossed [OF m]
    by (cases "bids st' book'"; cases "asks st' book'") (auto simp: is_match_possible_def)
  with run show ?thesis by blast
qed

theorem match_orders_uncrossed_witness:
  "\<exists>st' book' cs. order_book_match_orders sample_clock sample_store (Some sample_book) = Some (st', Some book', cs) \<and>
    \<not> is_match_possible (Option.bind (avl_find_max (buy_orders book')) st')
                        (Option.bind (avl_find_min (sell_orders book')) st')"
  by (rule match_orders_uncrossed [OF sample_book_ok])

text \<open>C3. Matching conserves quantity: what the bids lose and what the asks lose is, on each side, the sum
  of the quantities of the announced trades.\<close>

theorem match_orders_conserves:
  assumes "book_ok st book"
  shows "\<exists>st' book' cs. order_book_match_orders clock st (Some book) = Some (st', Some book', cs) \<and>
    total_left (bids st book) = total_left (bids st' book') + (\<Sum>c \<leftarrow> cs. tc_quantity c) \<and>
    total_left (asks st book) = total_left (asks st' book') + (\<Sum>c \<leftarrow> cs. tc_quantity c)"
  using match_orders_run [OF assms, of clock] match_lists_conserves sum_call_quantity by metis

theorem match_orders_conserves_witness:
  "\<exists>st' book' cs. order_book_match_orders sample_clock sample_store (Some sample_book) = Some (st', Some book', cs) \<and>
    22 = total_left (bids st' book') + (\<Sum>c \<leftarrow> cs. tc_quantity c) \<and>
    15 = total_left (asks st' book') + (\<Sum>c \<leftarrow> cs. tc_quantity c)"
proof -
  have "total_left (bids sample_store sample_book) = 22" "total_left (asks sample_store sample_book) = 15"
    by code_simp+
  with match_orders_conserves [OF sample_book_ok, of sample_clock] show ?thesis by metis
qed

text \<open>C4. Every announced trade is fair: it names a bid and an ask of the book before the matching, neither
  canceled, of the symbol it names, is made at the ask's price, which the bid's price is not below, and
  for a positive quantity that neither order exceeds.\<close>

theorem match_orders_fair:
  assumes "book_ok st book"
  shows "\<exists>st' book' cs. order_book_match_orders clock st (Some book) = Some (st', Some book', cs) \<and>
    (\<forall>c \<in> set cs. \<exists>b \<in> set (bids st book). \<exists>s \<in> set (asks st book).
      tc_buy_order_id c = order_id b \<and> tc_sell_order_id c = order_id s \<and>
      \<not> is_canceled b \<and> \<not> is_canceled s \<and> tc_symbol c = symbol b \<and> symbol b = symbol s \<and>
      tc_price c = price s \<and> \<not> d_lt (price b) (price s) \<and>
      0 < tc_quantity c \<and> tc_quantity c \<le> remaining_quantity b \<and> tc_quantity c \<le> remaining_quantity s)"
proof -
  obtain ts st' book' cs where
    m: "match_lists (bids st book) (asks st book) = (ts, bids st' book', asks st' book')"
    and run: "order_book_match_orders clock st (Some book) = Some (st', Some book', cs)"
    and cs: "map call_trade cs = map list_trade ts"
    using match_orders_run [OF assms, of clock] by metis
  show ?thesis
  proof (intro exI conjI ballI, rule run)
    fix c assume "c \<in> set cs"
    then have "call_trade c \<in> list_trade ` set ts" using cs by (metis image_eqI image_set)
    then obtain b s q where t: "(b, s, q) \<in> set ts" and c: "call_trade c = list_trade (b, s, q)" by fastforce
    obtain b0 s0 where "b0 \<in> set (bids st book)" "used_up b0 b" "s0 \<in> set (asks st book)" "used_up s0 s"
      using match_lists_origin [OF m t] by blast
    note o = this used_up_fields [OF this(2)] used_up_fields [OF this(4)]
    from c match_lists_trades [OF m t] is_match_possible_qty [of b s] o
    show "\<exists>b \<in> set (bids st book). \<exists>s \<in> set (asks st book).
      tc_buy_order_id c = order_id b \<and> tc_sell_order_id c = order_id s \<and>
      \<not> is_canceled b \<and> \<not> is_canceled s \<and> tc_symbol c = symbol b \<and> symbol b = symbol s \<and>
      tc_price c = price s \<and> \<not> d_lt (price b) (price s) \<and>
      0 < tc_quantity c \<and> tc_quantity c \<le> remaining_quantity b \<and> tc_quantity c \<le> remaining_quantity s"
      by - (rule bexI [of _ b0], rule bexI [of _ s0],
        auto simp: call_trade_def list_trade_def is_match_possible_def split: if_splits)
  qed
qed

theorem match_orders_fair_witness:
  "\<exists>st' book' cs. order_book_match_orders sample_clock sample_store (Some sample_book) = Some (st', Some book', cs) \<and>
    list_all (\<lambda>c. tc_price c \<in> price ` set (asks sample_store sample_book) \<and> 0 < tc_quantity c \<and>
      tc_buy_order_id c \<in> order_id ` set (bids sample_store sample_book)) cs"
proof -
  from match_orders_fair [OF sample_book_ok, of sample_clock] obtain st' book' cs where
    run: "order_book_match_orders sample_clock sample_store (Some sample_book) = Some (st', Some book', cs)" and
    fair: "\<And>c. c \<in> set cs \<Longrightarrow> \<exists>b \<in> set (bids sample_store sample_book). \<exists>s \<in> set (asks sample_store sample_book).
      tc_buy_order_id c = order_id b \<and> tc_price c = price s \<and> 0 < tc_quantity c"
    by meson
  from fair have "list_all (\<lambda>c. tc_price c \<in> price ` set (asks sample_store sample_book) \<and> 0 < tc_quantity c \<and>
      tc_buy_order_id c \<in> order_id ` set (bids sample_store sample_book)) cs"
    unfolding list_all_iff by blast
  with run show ?thesis by blast
qed

text \<open>C5. Orders are used up in the order of their rank: after matching, the bids are those before with the
  traded quantity taken from the front of the queue (best first), an order leaving when nothing is left
  of it and only the last one touched being partly used; likewise the asks.\<close>

theorem match_orders_priority:
  assumes "book_ok st book"
  shows "\<exists>st' book' cs. order_book_match_orders clock st (Some book) = Some (st', Some book', cs) \<and>
    bids st' book' = consume (\<Sum>c \<leftarrow> cs. tc_quantity c) (bids st book) \<and>
    asks st' book' = consume (\<Sum>c \<leftarrow> cs. tc_quantity c) (asks st book)"
  using match_orders_run [OF assms, of clock] match_lists_consume sum_call_quantity by metis

theorem match_orders_priority_witness:
  "\<exists>st' book' cs. order_book_match_orders sample_clock sample_store (Some sample_book) = Some (st', Some book', cs) \<and>
    bids st' book' = consume (\<Sum>c \<leftarrow> cs. tc_quantity c) (bids sample_store sample_book) \<and>
    asks st' book' = consume (\<Sum>c \<leftarrow> cs. tc_quantity c) (asks sample_store sample_book)"
  by (rule match_orders_priority [OF sample_book_ok])

text \<open>C6. Matching touches nothing else: an order at an address that is not in the book is unchanged, an order
  in the book keeps every field but its remaining quantity, which only decreases and does not become negative,
  and no order is lost from the store.\<close>

theorem match_orders_frame:
  assumes "book_ok st book"
  shows "\<exists>st' book' cs. order_book_match_orders clock st (Some book) = Some (st', Some book', cs) \<and>
    (\<forall>a. a \<notin> book_addrs book \<longrightarrow> st' a = st a) \<and>
    (\<forall>a x. st a = Some x \<longrightarrow> (\<exists>y. st' a = Some y \<and>
      y = x\<lparr>remaining_quantity := remaining_quantity y\<rparr> \<and> remaining_quantity y \<le> remaining_quantity x \<and>
      (0 \<le> remaining_quantity x \<longrightarrow> 0 \<le> remaining_quantity y)))"
  using match_orders_run [OF assms, of clock] unfolding store_frame_def used_up_def by metis

theorem match_orders_frame_witness:
  "\<exists>st' book' cs. order_book_match_orders sample_clock sample_store (Some sample_book) = Some (st', Some book', cs) \<and>
    st' 99 = None \<and> (\<exists>y. st' 0 = Some y \<and> order_id y = ''B1'' \<and> 0 \<le> remaining_quantity y)"
proof -
  let ?x = "sample_order ''B1'' 100 10 True 1"
  have s: "99 \<notin> book_addrs sample_book" "sample_store 99 = None" "sample_store 0 = Some ?x"
    by code_simp+
  obtain st' book' cs where
    run: "order_book_match_orders sample_clock sample_store (Some sample_book) = Some (st', Some book', cs)" and
    frame: "\<forall>a. a \<notin> book_addrs sample_book \<longrightarrow> st' a = sample_store a" and
    kept: "\<forall>a x. sample_store a = Some x \<longrightarrow> (\<exists>y. st' a = Some y \<and>
      y = x\<lparr>remaining_quantity := remaining_quantity y\<rparr> \<and> remaining_quantity y \<le> remaining_quantity x \<and>
      (0 \<le> remaining_quantity x \<longrightarrow> 0 \<le> remaining_quantity y))"
    using match_orders_frame [OF sample_book_ok, of sample_clock] by auto
  obtain y where y: "st' 0 = Some y" "y = ?x\<lparr>remaining_quantity := remaining_quantity y\<rparr>"
      "0 \<le> remaining_quantity ?x \<longrightarrow> 0 \<le> remaining_quantity y"
    using kept s(3) by blast
  have "order_id y = ''B1''" by (subst y(2)) (simp add: sample_order_def)
  moreover have "0 \<le> remaining_quantity y" using y(3) by (simp add: sample_order_def)
  ultimately show ?thesis using run frame s(1,2) y(1) by auto
qed

section \<open>The index of a side\<close>

text \<open>C7. The index refines a sorted list of entries. On a balanced search tree without NaN keys and for a price that
  is a number, \<open>avl_insert\<close> returns (every rotation it does has the child it needs) a balanced search tree of the same
  side with the new entry at the place of its key (price, timestamp), unless the key is there already, when
  the tree keeps the entry it has; \<open>avl_delete_order\<close> returns one with the entry of that key removed and every other
  entry kept, in order.\<close>

theorem avl_refines_sorted_list:
  assumes "tree_ok (root t)" "p \<noteq> NaN"
  shows "(\<exists>t'. avl_insert True (Some t) p ts a = Some (Some t') \<and> tree_ok (root t') \<and> is_buy_tree t' = is_buy_tree t \<and>
      entries (root t') = ins_key (p, ts) a (entries (root t)) \<and>
      map_of (entries (root t')) (p, ts) =
        (case map_of (entries (root t)) (p, ts) of None \<Rightarrow> Some a | Some a0 \<Rightarrow> Some a0)) \<and>
    (\<exists>t'. avl_delete_order (Some t) p ts = Some (Some t') \<and> tree_ok (root t') \<and> is_buy_tree t' = is_buy_tree t \<and>
      entries (root t') = filter (\<lambda>e. fst e \<noteq> (p, ts)) (entries (root t)))"
proof -
  obtain n where n: "insert_node True (root t) p ts a (is_buy_tree t) = Some n" "tree_ok n"
      "entries n = ins_key (p, ts) a (entries (root t))"
    using insert_node_ok [OF assms] by metis
  obtain d where d: "delete_node (root t) p ts (is_buy_tree t) = Some d" "tree_ok d" "entries d = del_key (p, ts) (entries (root t))"
    using delete_node_ok [OF assms] by metis
  have "map_of (ins_key (p, ts) a (entries (root t))) (p, ts) =
      (case map_of (entries (root t)) (p, ts) of None \<Rightarrow> Some a | Some a0 \<Rightarrow> Some a0)"
    using assms(1) by (simp add: tree_ok_def bst_def map_of_ins_key split: option.splits)
  with n d show ?thesis by (simp add: avl_insert_def avl_delete_order_def del_key_def)
qed

theorem avl_refines_sorted_list_witness:
  "(\<exists>t'. avl_insert True (buy_orders sample_book) (Fin 101) 2 (5 :: addr) = Some (Some t') \<and> tree_ok (root t') \<and>
      map snd (entries (root t')) = [0, 1, 2]) \<and>
   (\<exists>t'. avl_delete_order (buy_orders sample_book) (Fin 101) 2 = Some (Some t') \<and> tree_ok (root t') \<and>
      map snd (entries (root t')) = [0, 2])"
proof -
  have "tree_ok (root (the (buy_orders sample_book)))" "buy_orders sample_book = Some (the (buy_orders sample_book))"
    "map snd (ins_key (Fin 101, 2) 5 (entries (root (the (buy_orders sample_book))))) = [0, 1, 2]"
    "map snd (filter (\<lambda>e. fst e \<noteq> (Fin 101, 2)) (entries (root (the (buy_orders sample_book))))) = [0, 2]"
    by code_simp+
  with avl_refines_sorted_list [of "the (buy_orders sample_book)" "Fin 101" 2 "5 :: addr"] show ?thesis by auto
qed

text \<open>C8. The trees stay shallow: a tree built by insertions and deletions (any sequence, with keys that are
  numbers) of \<open>n\<close> entries has a height \<open>h\<close> with \<open>2 ^ (h div 2) \<le> n + 1\<close>, so the walks of the engine, which
  descend one level at a time, take logarithmically many steps; the stored height is the height.\<close>

theorem side_height_logarithmic:
  assumes "reachable tree_init tree_step t"
  shows "2 ^ nat (real_height (root t) div 2) \<le> length (entries (root t)) + 1 \<and>
    get_height (root t) = real_height (root t)"
  using avl_height_bound [of "root t"] tree_machine.reachable_inv [OF assms] by (simp add: tree_ok_def)

theorem side_height_logarithmic_witness:
  "2 ^ nat (real_height (root (the (the (avl_insert True (avl_create True True) (Fin 7) 1 (3 :: addr))))) div 2) \<le> (2 :: nat)"
proof -
  define t0 :: "addr AVLTree" where "t0 = \<lparr>root = Null, is_buy_tree = True\<rparr>"
  define t1 :: "addr AVLTree" where "t1 = the (the (avl_insert True (avl_create True True) (Fin 7) 1 (3 :: addr)))"
  have t1: "avl_insert True (Some t0) (Fin 7) 1 3 = Some (Some t1)" "length (entries (root t1)) = 1"
    by (simp_all add: t1_def t0_def avl_create_def avl_insert_def create_node_def)
  have "tree_init t0" by (simp add: tree_init_def avl_create_def t0_def)
  then have "reachable tree_init tree_step t1"
    using tree_step.insert [OF _ t1(1)] by (auto intro: reachable.intros)
  from side_height_logarithmic [OF this] show ?thesis by (simp add: t1(2) flip: t1_def)
qed

text \<open>C9. The index with its pointers. From an empty tree, any sequence of insertions and deletions with prices other
  than NaN runs without touching a cell that is not live, whatever fresh cells \<open>malloc\<close> gives and whenever it
  fails. The tree then holds what the same sequence leaves in a sorted list, a traversal visits it in that order,
  the heap has exactly one cell more per entry and is otherwise as it was, and \<open>avl_destroy\<close> gives all of
  them back: no cell is lost, freed twice or used after it was freed.\<close>

theorem index_on_heap:
  assumes "\<forall>i h a. alloc i h = Some a \<longrightarrow> h a = None" "list_all (\<lambda>c. op_price c \<noteq> NaN) ops"
  shows "\<exists>h tree ms es. run_index alloc 0 ops h0 (Some \<lparr>h_root = None, h_is_buy_tree = b\<rparr>) = Some (h, tree, ms) \<and>
    es = run_entries ms ops [] \<and> sorted_keys es \<and>
    avl_inorder_traverse_h h tree (Some f) s = Some (fold f (map snd es) s) \<and>
    card (dom h - dom h0) = length es \<and> (\<forall>a. a \<in> dom h0 \<longrightarrow> h a = h0 a) \<and>
    avl_destroy_h h tree = Some h0"
proof -
  obtain h tree ms where run: "run_index alloc 0 ops h0 (Some \<lparr>h_root = None, h_is_buy_tree = b\<rparr>) = Some (h, tree, ms)"
    "holds h0 h tree (run_entries ms ops [])"
    using run_index_holds [OF assms holds_empty] by metis
  then show ?thesis using holds_observed [OF run(2)] by (intro exI [of _ h]) auto
qed

text \<open>An allocator that refuses an address in use, and a sequence with rotations and a node with two children deleted.\<close>

definition sample_alloc :: "nat \<Rightarrow> nat node_heap \<Rightarrow> addr option" where
  "sample_alloc i h = (if h (i mod 6) = None then Some (i mod 6) else None)"

definition sample_ops :: "nat index_op list" where
  "sample_ops = [Insert_op (Fin 10) 1 1, Insert_op (Fin 30) 2 2, Insert_op (Fin 20) 3 3, Insert_op (Fin 25) 4 4,
     Insert_op (Fin 40) 5 5, Delete_op (Fin 20) 3, Insert_op (Fin 5) 6 6, Insert_op (Fin 50) 7 7, Delete_op (Fin 7) 0,
     Delete_op (Fin 10) 1]"

theorem index_on_heap_witness:
  "\<exists>h tree ms. run_index sample_alloc 0 sample_ops Map.empty (Some \<lparr>h_root = None, h_is_buy_tree = True\<rparr>) = Some (h, tree, ms) \<and>
    ms = [True, True, True, True, True, True, False, False, True, True] \<and>
    avl_inorder_traverse_h h tree (Some (#)) [] = Some [5, 2, 4] \<and>
    card (dom h) = 3 \<and> avl_destroy_h h tree = Some Map.empty"
proof -
  have hyps: "\<forall>i h a. sample_alloc i h = Some a \<longrightarrow> h a = None" "list_all (\<lambda>c. op_price c \<noteq> NaN) sample_ops"
    by (simp add: sample_alloc_def) code_simp
  obtain h tree ms es where run:
    "run_index sample_alloc 0 sample_ops Map.empty (Some \<lparr>h_root = None, h_is_buy_tree = True\<rparr>) = Some (h, tree, ms)"
    "es = run_entries ms sample_ops []" "avl_inorder_traverse_h h tree (Some (#)) [] = Some (fold (#) (map snd es) [])"
    "card (dom h - dom (Map.empty :: nat node_heap)) = length es" "avl_destroy_h h tree = Some Map.empty"
    using index_on_heap [OF hyps, of Map.empty True "(#)" "[]"] by (elim exE conjE) (rule that)
  have "map_option (\<lambda>r. snd (snd r)) (run_index sample_alloc 0 sample_ops Map.empty (Some \<lparr>h_root = None, h_is_buy_tree = True\<rparr>)) =
    Some [True, True, True, True, True, True, False, False, True, True]" by code_simp
  then have ms: "ms = [True, True, True, True, True, True, False, False, True, True]" using run(1) by simp
  have "map snd es = [4, 2, 5]" unfolding run(2) ms by code_simp
  then show ?thesis using run ms by (intro exI [of _ h] exI [of _ tree] exI [of _ ms]) (auto dest: arg_cong [of _ _ length])
qed

text \<open>The best orders are at the ends: in a well-formed book \<open>avl_find_max\<close> of the buy tree gives a buy
  order that no buy order outbids, and \<open>avl_find_min\<close> of the sell tree a sell order that no sell order
  undercuts.\<close>

lemma best_orders_at_ends:
  assumes "book_ok st book"
  shows "(case avl_find_max (buy_orders book) of None \<Rightarrow> bids st book = []
     | Some a \<Rightarrow> (\<exists>b. st a = Some b \<and> b \<in> set (bids st book) \<and> (\<forall>b' \<in> set (bids st book). \<not> d_lt (price b) (price b')))) \<and>
    (case avl_find_min (sell_orders book) of None \<Rightarrow> asks st book = []
     | Some a \<Rightarrow> (\<exists>s. st a = Some s \<and> s \<in> set (asks st book) \<and> (\<forall>s' \<in> set (asks st book). \<not> d_lt (price s') (price s))))"
proof
  show "case avl_find_max (buy_orders book) of None \<Rightarrow> bids st book = []
     | Some a \<Rightarrow> (\<exists>b. st a = Some b \<and> b \<in> set (bids st book) \<and> (\<forall>b' \<in> set (bids st book). \<not> d_lt (price b) (price b')))"
  proof (cases "bids st book")
    case (Cons b bs)
    have "\<forall>b' \<in> set (b # bs). \<not> d_lt (price b) (price b')"
      using bids_ranked [OF assms] by (auto simp: Cons rank_key_def d_lt_less less_prod_simp not_less)
    with Cons bids_ConsD [OF assms Cons] show ?thesis by fastforce
  qed (use assms find_max_bids in \<open>auto split: option.splits\<close>)
  show "case avl_find_min (sell_orders book) of None \<Rightarrow> asks st book = []
     | Some a \<Rightarrow> (\<exists>s. st a = Some s \<and> s \<in> set (asks st book) \<and> (\<forall>s' \<in> set (asks st book). \<not> d_lt (price s') (price s)))"
  proof (cases "asks st book")
    case (Cons s ss)
    have "\<forall>s' \<in> set (s # ss). \<not> d_lt (price s') (price s)"
      using asks_ranked [OF assms] by (auto simp: Cons rank_key_def d_lt_less less_prod_simp not_less)
    with Cons asks_ConsD [OF assms Cons] show ?thesis by fastforce
  qed (use assms find_min_asks in \<open>auto split: option.splits\<close>)
qed

section \<open>The operations of the book\<close>

text \<open>Which of two orders of a side is served first.\<close>

definition ranks_ahead :: "bool \<Rightarrow> Order \<Rightarrow> Order \<Rightarrow> bool" where
  "ranks_ahead buy x y \<longleftrightarrow> (if buy then d_lt (price y) (price x) \<or> price x = price y \<and> timestamp y < timestamp x
     else d_lt (price x) (price y) \<or> price x = price y \<and> timestamp x < timestamp y)"

text \<open>C10. How a book ranks its orders. In every book that the engine can reach, a new order whose price is a number and
  whose price and timestamp together are not those of an order of its side is put by \<open>order_book_add_order\<close>
  between the orders that rank ahead of it and those it ranks ahead of, which stay as they are: an ask ranks ahead
  of another with a lower price or, at one price, with an earlier timestamp; a bid with a higher price or, at one
  price, with a later timestamp. The end of each tree that matching takes next is the first of its side. So of two
  bids at the same price the later one is served first.\<close>

theorem book_ranking:
  assumes "reachable book_init book_step (st, book)" "st a = None"
    and "order_create True now oid tid sy p q buy = Some x" "p \<noteq> NaN" "fits 32 q"
    and "\<forall>y \<in> set (side_list buy st book). \<not> (price y = price x \<and> timestamp y = timestamp x)"
  shows "\<exists>book' xs ys. order_book_add_order True (st(a \<mapsto> x)) (Some book) (Some a) = Some (0, Some book') \<and>
    side_list buy st book = xs @ ys \<and> side_list buy (st(a \<mapsto> x)) book' = xs @ x # ys \<and>
    (\<forall>y \<in> set xs. ranks_ahead buy y x) \<and> (\<forall>y \<in> set ys. ranks_ahead buy x y) \<and>
    Option.bind (if buy then avl_find_max (buy_orders book') else avl_find_min (sell_orders book')) (st(a \<mapsto> x)) = Some (hd (xs @ [x]))"
proof -
  let ?st = "st(a \<mapsto> x)" and ?k = "rank_key x"
  have ok0: "book_ok st book" using book_machine.reachable_inv [OF assms(1)] by simp
  have ok: "book_ok ?st book" by (rule book_ok_extend [OF ok0 assms(2)])
  have x: "?st a = Some x" "order_ok x" "price x \<noteq> NaN" "is_buy_order x = buy"
    using order_create_ok [OF assms(3,5)] order_create_SomeD [OF assms(3)] assms(4) by simp_all
  obtain book' where book': "order_book_add_order True ?st (Some book) (Some a) = Some (0, Some book')" "book_ok ?st book'"
      "side_entries (side_of buy book') = ins_key ?k a (side_entries (side_of buy book))"
    using add_order_ok [OF ok x(1-3)] x(4) by metis
  let ?es = "side_entries (side_of buy book)"
  have sorted: "sorted_keys ?es" using side_keys(2) [OF side_of_ok [OF ok, of buy]] by (simp add: sorted_keys_def)
  have "?k \<notin> fst ` set ?es"
    using assms(6) unfolding side_list_keys [OF ok, symmetric] side_list_extend [OF ok0 assms(2)] by (auto simp: rank_key_def)
  then obtain us vs where uv: "?es = us @ vs" "ins_key ?k a ?es = us @ (?k, a) # vs" "\<forall>u \<in> set us. fst u < ?k" "\<forall>w \<in> set vs. ?k < fst w"
    using ins_key_split [OF sorted] by blast
  have key: "rank_key (deref ?st e) = fst e \<and> price (deref ?st e) \<noteq> NaN" if "e \<in> set ?es" for e
  proof -
    have "map rank_key (map (deref ?st) ?es) = map fst ?es" by (rule side_keys(1) [OF side_of_ok [OF ok]])
    moreover have "deref ?st e \<in> set (side_list buy ?st book)" using that by (simp add: set_side_list)
    then have "price (deref ?st e) \<noteq> NaN" using book_prices_numbers [OF ok] by (auto simp: side_list_def split: if_splits)
    ultimately show ?thesis using that by simp
  qed
  have rank: "rank_key y < rank_key z \<longleftrightarrow> (if buy then ranks_ahead buy z y else ranks_ahead buy y z)"
    if "price y \<noteq> NaN" "price z \<noteq> NaN" for y z
    using that by (auto simp: rank_key_def less_prod_simp d_lt_less ranks_ahead_def)
  have d: "deref ?st (?k, a) = x" by (simp add: deref_def)
  let ?xs = "if buy then rev (map (deref ?st) vs) else map (deref ?st) us"
  let ?ys = "if buy then rev (map (deref ?st) us) else map (deref ?st) vs"
  have before: "side_list buy st book = ?xs @ ?ys"
    using uv(1) unfolding side_list_extend [OF ok0 assms(2), of buy x, symmetric] by (simp add: side_list_entries)
  have after: "side_list buy ?st book' = ?xs @ x # ?ys" using d by (simp add: side_list_entries book'(3) uv(2))
  have "\<forall>e \<in> set us. if buy then ranks_ahead buy x (deref ?st e) else ranks_ahead buy (deref ?st e) x"
    "\<forall>e \<in> set vs. if buy then ranks_ahead buy (deref ?st e) x else ranks_ahead buy x (deref ?st e)"
    using uv(1,3,4) key rank x(3) by (metis Un_iff set_append)+
  moreover have "Option.bind (if buy then avl_find_max (buy_orders book') else avl_find_min (sell_orders book')) ?st = Some (hd (xs @ [x]))"
    if "side_list buy ?st book' = xs @ x # ys" for xs ys
    using that book_ends [OF book'(2)] by (cases xs; cases buy) (auto simp: side_list_def)
  ultimately show ?thesis using book'(1) before after by (intro exI [of _ book'] exI [of _ ?xs] exI [of _ ?ys] conjI) auto
qed

text \<open>A new book for the sample broadcaster, with a buy order, and then with a sell order of negative quantity.\<close>

definition reached_book0 :: OrderBook where
  "reached_book0 = the (order_book_create True True True (Some sample_broadcaster))"

definition reached_order1 :: Order where
  "reached_order1 = the (order_create True 1 ''B1'' ''T'' ''AAPL'' (Fin 10) 5 True)"

definition reached_order2 :: Order where
  "reached_order2 = the (order_create True 2 ''S1'' ''T'' ''AAPL'' (Fin 9) (- 3) False)"

definition reached_store1 :: store where
  "reached_store1 = (\<lambda>_. None)(0 \<mapsto> reached_order1)"

definition reached_store2 :: store where
  "reached_store2 = reached_store1(1 \<mapsto> reached_order2)"

definition reached_book1 :: OrderBook where
  "reached_book1 = the (snd (the (order_book_add_order True reached_store1 (Some reached_book0) (Some 0))))"

definition reached_book2 :: OrderBook where
  "reached_book2 = the (snd (the (order_book_add_order True reached_store2 (Some reached_book1) (Some 1))))"

lemma reached: "reachable book_init book_step (reached_store1, reached_book1)" "reachable book_init book_step (reached_store2, reached_book2)"
proof -
  have c: "order_book_create True True True (Some sample_broadcaster) = Some reached_book0"
    "order_create True 1 ''B1'' ''T'' ''AAPL'' (Fin 10) 5 True = Some reached_order1"
    "order_create True 2 ''S1'' ''T'' ''AAPL'' (Fin 9) (- 3) False = Some reached_order2"
    "order_book_add_order True reached_store1 (Some reached_book0) (Some 0) = Some (0, Some reached_book1)"
    "order_book_add_order True reached_store2 (Some reached_book1) (Some 1) = Some (0, Some reached_book2)"
    "reached_store1 1 = None"
    by code_simp+
  have "reachable book_init book_step (\<lambda>_. None, reached_book0)" using c(1) by (intro reachable.start) (auto simp: book_init_def)
  moreover have "book_step (\<lambda>_. None, reached_book0) (reached_store1, reached_book1)" unfolding reached_store1_def
    by (rule book_step.place [OF _ c(2) _ _ c(4) [unfolded reached_store1_def]]) (simp_all add: fits_def)
  ultimately show 1: "reachable book_init book_step (reached_store1, reached_book1)" by (rule reachable.move)
  have "book_step (reached_store1, reached_book1) (reached_store2, reached_book2)" unfolding reached_store2_def
    by (rule book_step.place [OF c(6) c(3) _ _ c(5) [unfolded reached_store2_def]]) (simp_all add: fits_def)
  with 1 show "reachable book_init book_step (reached_store2, reached_book2)" by (rule reachable.move)
qed

theorem book_ranking_witness:
  "\<exists>x book'. order_create True 7 ''B2'' ''T'' ''AAPL'' (Fin 10) 4 True = Some x \<and>
     order_book_add_order True (reached_store2(5 \<mapsto> x)) (Some reached_book2) (Some 5) = Some (0, Some book') \<and>
     map order_id (side_list True (reached_store2(5 \<mapsto> x)) book') = [''B2'', ''B1'']"
proof -
  obtain x where x: "order_create True 7 ''B2'' ''T'' ''AAPL'' (Fin 10) 4 True = Some x"
    by (simp add: order_create_def MAX_ID_LENGTH_def MAX_SYMBOL_LENGTH_def)
  note f = order_create_SomeD [OF x]
  have s: "reached_store2 5 = None" "side_list True reached_store2 reached_book2 = [reached_order1]"
    "order_id reached_order1 = ''B1''" "price reached_order1 = Fin 10" "timestamp reached_order1 = 1" by code_simp+
  have t: "timestamp x = 7" "price x = Fin 10" "order_id x = ''B2''" using f by (simp_all add: fits_def)
  from book_ranking [OF reached(2) s(1) x] s(2,4,5) t obtain book' xs ys where
    b: "order_book_add_order True (reached_store2(5 \<mapsto> x)) (Some reached_book2) (Some 5) = Some (0, Some book')"
      "[reached_order1] = xs @ ys" "side_list True (reached_store2(5 \<mapsto> x)) book' = xs @ x # ys" "\<forall>y \<in> set xs. ranks_ahead True y x"
    by (auto simp: fits_def)
  have "\<not> ranks_ahead True reached_order1 x" by (simp add: ranks_ahead_def s(4,5) t)
  then have "xs = []" "ys = [reached_order1]" using b(2,4) by (cases xs; auto)+
  with x b(1,3) s(3) t(3) show ?thesis by auto
qed

text \<open>C11. Adding an order: \<open>order_book_add_order\<close> returns 0 and a well-formed book in which the side of the order
  has that order besides those it had, unless an order with the same price and timestamp is on that side
  already: then the new order is silently not in the book. The other side is unchanged. Without memory for the
  tree node it still returns 0, and the book is as it was.\<close>

theorem add_order_effect:
  assumes "book_ok st book" "st a = Some x" "order_ok x" "price x \<noteq> NaN"
  shows "\<exists>book'. order_book_add_order True st (Some book) (Some a) = Some (0, Some book') \<and> book_ok st book' \<and>
    side_list (\<not> is_buy_order x) st book' = side_list (\<not> is_buy_order x) st book \<and>
    (if \<exists>y \<in> set (side_list (is_buy_order x) st book). (price y, timestamp y) = (price x, timestamp x)
     then side_list (is_buy_order x) st book' = side_list (is_buy_order x) st book
     else mset (side_list (is_buy_order x) st book') = add_mset x (mset (side_list (is_buy_order x) st book))) \<and>
    order_book_add_order False st (Some book) (Some a) = Some (0, Some book)"
proof -
  let ?b = "is_buy_order x"
  obtain book' where book': "order_book_add_order True st (Some book) (Some a) = Some (0, Some book')" "book_ok st book'"
    "\<forall>b. mset (side_list b st book') = mset (side_list b st book) + mset (entered b (side_list b st book) [(True, x)])"
    "\<forall>b. entered b (side_list b st book) [(True, x)] = [] \<longrightarrow> side_list b st book' = side_list b st book"
    "trade_broadcaster book' = trade_broadcaster book"
    by (rule add_order_sides [OF assms, where m = True])
  have dup: "(\<exists>y \<in> set (side_list ?b st book). (price y, timestamp y) = (price x, timestamp x)) \<longleftrightarrow>
      entered ?b (side_list ?b st book) [(True, x)] = []"
    by (force simp: image_iff)
  show ?thesis
    using book' add_order_no_memory [OF assms(1,2)] unfolding dup by (intro exI [of _ book']) (auto split: if_splits)
qed

definition order_15 :: Order where
  "order_15 = sample_order ''B4'' 101 1 True 3"

definition order_16 :: Order where
  "order_16 = sample_order ''B5'' 100 1 True 3"

theorem add_order_effect_witness:
  "(\<exists>book'. order_book_add_order True (sample_store(15 \<mapsto> order_15)) (Some sample_book) (Some 15) = Some (0, Some book') \<and>
      map order_id (bids (sample_store(15 \<mapsto> order_15)) book') = [''B3'', ''B2'', ''B1'']) \<and>
   (\<exists>book'. order_book_add_order True (sample_store(16 \<mapsto> order_16)) (Some sample_book) (Some 16) = Some (0, Some book') \<and>
      order_16 \<in> set (bids (sample_store(16 \<mapsto> order_16)) book'))"
proof
  let ?st = "sample_store(15 \<mapsto> order_15)"
  have h: "book_ok ?st sample_book" "?st 15 = Some order_15" "order_ok order_15" "price order_15 \<noteq> NaN"
    and b: "is_buy_order order_15"
    and d: "\<exists>y \<in> set (side_list True ?st sample_book). (price y, timestamp y) = (price order_15, timestamp order_15)"
    and l: "map order_id (side_list True ?st sample_book) = [''B3'', ''B2'', ''B1'']"
    by code_simp+
  from add_order_effect [OF h] b d l show "\<exists>book'. order_book_add_order True ?st (Some sample_book) (Some 15) = Some (0, Some book') \<and>
      map order_id (bids ?st book') = [''B3'', ''B2'', ''B1'']"
    by (metis side_list_def)
next
  let ?st = "sample_store(16 \<mapsto> order_16)"
  have h: "book_ok ?st sample_book" "?st 16 = Some order_16" "order_ok order_16" "price order_16 \<noteq> NaN"
    and b: "is_buy_order order_16"
    and d: "\<not> (\<exists>y \<in> set (side_list True ?st sample_book). (price y, timestamp y) = (price order_16, timestamp order_16))"
    by code_simp+
  from add_order_effect [OF h] b d obtain book' where
    "order_book_add_order True ?st (Some sample_book) (Some 16) = Some (0, Some book')"
    "mset (side_list True ?st book') = add_mset order_16 (mset (side_list True ?st sample_book))"
    by metis
  moreover from this(2) have "order_16 \<in> set (bids ?st book')"
    by (metis side_list_def union_single_eq_member set_mset_mset)
  ultimately show "\<exists>book'. order_book_add_order True ?st (Some sample_book) (Some 16) = Some (0, Some book') \<and>
      order_16 \<in> set (bids ?st book')"
    by blast
qed

text \<open>C12. What \<open>order_book_cancel_order\<close> finds: it compares each node's key with that of the node's own order, so
  it only ever steps to the right child. It marks the first order with the id on the path of right
  children from the root and returns 0, and returns -1 and changes nothing if there is none on it,
  wherever else in the tree the order is.\<close>

theorem cancel_order_right_spine:
  assumes "book_ok st book" "side_of buy book = Some t"
  shows "order_book_cancel_order st (Some book) (Some oid) buy =
    Some (case find (\<lambda>a. order_id (the (st a)) = oid) (right_spine (root t)) of
            None \<Rightarrow> (- 1, st) | Some a \<Rightarrow> (0, st(a := Some ((the (st a))\<lparr>is_canceled := True\<rparr>))))"
proof -
  have "order_cancel (st a) = Some ((the (st a))\<lparr>is_canceled := True\<rparr>)"
    if "find (\<lambda>a. order_id (the (st a)) = oid) (right_spine (root t)) = Some a" for a
  proof -
    have "a \<in> set (right_spine (root t))"
      using that by (auto simp: find_Some_iff)
    then have "a \<in> snd ` set (entries (root t))" using right_spine_subset by (rule subsetD [rotated])
    then obtain e where "e \<in> set (entries (root t))" "a = snd e" by blast
    moreover have "\<forall>e \<in> set (entries (root t)). entry_ok st buy e"
      using side_of_SomeE [OF assms(1), of buy] assms(2) by (metis option.inject)
    ultimately obtain x where "st a = Some x" by (fastforce simp: entry_ok_def split: option.splits)
    then show ?thesis by (simp add: order_cancel_Some)
  qed
  with cancel_order_spine [OF assms, of oid] show ?thesis by (auto split: option.splits)
qed

theorem cancel_order_right_spine_witness:
  "order_book_cancel_order sample_store (Some sample_book) (Some ''B3'') True =
     Some (0, sample_store(2 := Some ((the (sample_store 2))\<lparr>is_canceled := True\<rparr>))) \<and>
   ''B1'' \<in> order_id ` set (bids sample_store sample_book) \<and>
   order_book_cancel_order sample_store (Some sample_book) (Some ''B1'') True = Some (- 1, sample_store)"
proof -
  let ?t = "the (side_of True sample_book)"
  have t: "side_of True sample_book = Some ?t" and
    f: "find (\<lambda>a. order_id (the (sample_store a)) = ''B3'') (right_spine (root ?t)) = Some 2"
      "find (\<lambda>a. order_id (the (sample_store a)) = ''B1'') (right_spine (root ?t)) = None"
      "''B1'' \<in> order_id ` set (bids sample_store sample_book)"
    by code_simp+
  show ?thesis
    unfolding cancel_order_right_spine [OF sample_book_ok t] f using f(3) by simp
qed

text \<open>C13. A best bid or best ask that is canceled (or whose opposite is, or that is for another symbol)
  stops matching: the book and the store stay as they are and nothing is announced, whatever orders
  stand behind it.\<close>

theorem blocked_top_stops_matching:
  assumes "book_ok st book" "bids st book = b # bs" "asks st book = s # ss"
    and "is_canceled b \<or> is_canceled s \<or> symbol b \<noteq> symbol s"
  shows "order_book_match_orders clock st (Some book) = Some (st, Some book, [])"
proof -
  have "\<not> is_match_possible (Some b) (Some s)" using assms(4) by (auto simp: is_match_possible_def)
  with bids_ConsD [OF assms(1,2)] asks_ConsD [OF assms(1,3)] show ?thesis
    by (auto simp: order_book_match_orders_def avl_is_empty_def is_null_iff)
qed

theorem blocked_top_stops_matching_witness:
  "order_book_match_orders sample_clock (sample_store(2 := order_cancel (sample_store 2))) (Some sample_book) =
     Some (sample_store(2 := order_cancel (sample_store 2)), Some sample_book, [])"
proof -
  let ?st = "sample_store(2 := order_cancel (sample_store 2))"
  have "bids ?st sample_book = hd (bids ?st sample_book) # tl (bids ?st sample_book)"
    "asks ?st sample_book = hd (asks ?st sample_book) # tl (asks ?st sample_book)"
    "is_canceled (hd (bids ?st sample_book))"
    by code_simp+
  with blocked_top_stops_matching [OF book_ok_cancel [OF sample_book_ok, of 2]] show ?thesis by blast
qed

text \<open>C14. The depth query: \<open>order_book_get_quantity_at_price\<close> is the sum, in the arithmetic of a 32-bit \<open>int\<close>, of the
  remaining quantities of the orders of that side at that price that are not canceled.\<close>

theorem quantity_at_price_correct:
  assumes "book_ok st book"
  shows "order_book_get_quantity_at_price st (Some book) p buy =
    Some (int32 (\<Sum>x \<leftarrow> filter (\<lambda>x. d_eq (price x) p \<and> \<not> is_canceled x) (side_list buy st book). remaining_quantity x))"
  using get_quantity_level [OF assms] by (simp add: level_quantity_def side_list_def)

theorem quantity_at_price_correct_witness:
  "order_book_get_quantity_at_price sample_store (Some sample_book) (Fin 101) True = Some 12"
proof -
  have "(\<Sum>x \<leftarrow> filter (\<lambda>x. d_eq (price x) (Fin 101) \<and> \<not> is_canceled x) (side_list True sample_store sample_book).
      remaining_quantity x) = 12"
    by code_simp
  with quantity_at_price_correct [OF sample_book_ok, of "Fin 101" True] show ?thesis
    by (simp add: fits_def)
qed

text \<open>C15. Every book that the engine can reach is well formed and no operation faults on it: from a new book, through
  any sequence of new orders (each built by \<open>order_create\<close> at a free address, with a number as its price and any \<open>int\<close>,
  negative or not, as its quantity, with or without memory for its tree node), cancellations and matchings, both
  trees are balanced search trees whose entries are live orders of their side; and there matching, cancelling by any
  id or NULL, the depth query, and adding any further such order return and leave a well-formed book, adding with
  the code 0.\<close>

theorem reachable_book_safe:
  assumes "reachable book_init book_step (st, book)"
  shows "book_ok st book \<and>
    (\<exists>st' book' cs. order_book_match_orders clock st (Some book) = Some (st', Some book', cs) \<and> book_ok st' book') \<and>
    (\<exists>r st'. order_book_cancel_order st (Some book) oid' buy' = Some (r, st') \<and> book_ok st' book) \<and>
    (\<exists>n. order_book_get_quantity_at_price st (Some book) level buy' = Some n) \<and>
    (\<forall>a x now oid tid sy p q buy. st a = None \<longrightarrow> order_create True now oid tid sy p q buy = Some x \<longrightarrow> p \<noteq> NaN \<longrightarrow> fits 32 q \<longrightarrow>
      (\<exists>book'. order_book_add_order m (st(a \<mapsto> x)) (Some book) (Some a) = Some (0, Some book') \<and> book_ok (st(a \<mapsto> x)) book'))"
proof -
  have ok: "book_ok st book" using book_machine.reachable_inv [OF assms] by simp
  obtain st' book' cs where m: "order_book_match_orders clock st (Some book) = Some (st', Some book', cs)" "book_ok st' book'"
    using match_orders_run [OF ok, of clock] by metis
  have cancel: "\<exists>r st'. order_book_cancel_order st (Some book) oid' buy' = Some (r, st')"
  proof (cases oid')
    case (Some oid)
    obtain t where "side_of buy' book = Some t" using side_of_SomeE [OF ok] by blast
    with cancel_order_spine [OF ok, of buy' t oid] Some show ?thesis by (auto split: option.splits)
  qed (simp add: order_book_cancel_order_def)
  then have "\<exists>r st'. order_book_cancel_order st (Some book) oid' buy' = Some (r, st') \<and> book_ok st' book"
    using book_step_ok [OF ok] book_step.cancel by blast
  moreover have "\<exists>book'. order_book_add_order m (st(a \<mapsto> x)) (Some book) (Some a) = Some (0, Some book') \<and> book_ok (st(a \<mapsto> x)) book'"
    if "st a = None" "order_create True now oid tid sy p q buy = Some x" "p \<noteq> NaN" "fits 32 q" for a x now oid tid sy p q buy
    using add_order_sides [where m = m and a = a and x = x, OF book_ok_extend [OF ok that(1)]] order_create_ok [OF that(2,4)]
      order_create_SomeD(4) [OF that(2)] that(3) by (metis fun_upd_same)
  ultimately show ?thesis using ok m get_quantity_level [OF ok] by blast
qed

theorem reachable_book_safe_witness:
  "book_ok reached_store2 reached_book2 \<and> map remaining_quantity (side_list False reached_store2 reached_book2) = [- 3] \<and>
   (\<exists>st' book' cs. order_book_match_orders sample_clock reached_store2 (Some reached_book2) = Some (st', Some book', cs) \<and> book_ok st' book') \<and>
   (\<exists>x book'. order_create True 3 ''S2'' ''T'' ''AAPL'' (Fin 8) (- 1) False = Some x \<and>
      order_book_add_order False (reached_store2(5 \<mapsto> x)) (Some reached_book2) (Some 5) = Some (0, Some book'))"
proof -
  have s: "reached_store2 5 = None" "map remaining_quantity (side_list False reached_store2 reached_book2) = [- 3]" by code_simp+
  obtain x where x: "order_create True 3 ''S2'' ''T'' ''AAPL'' (Fin 8) (- 1) False = Some x"
    by (simp add: order_create_def MAX_ID_LENGTH_def MAX_SYMBOL_LENGTH_def)
  note safe = reachable_book_safe [OF reached(2), of sample_clock None True "Fin 1" False]
  have "fits 32 (- 1)" "Fin 8 \<noteq> NaN" by (simp_all add: fits_def)
  with safe s(1) x have "\<exists>book'. order_book_add_order False (reached_store2(5 \<mapsto> x)) (Some reached_book2) (Some 5) = Some (0, Some book')"
    by blast
  with safe s(2) x show ?thesis by blast
qed

section \<open>Accounts\<close>

text \<open>C16. No account is ever overdrawn: through any sequence of the operations on a trader, with any arguments,
  placing orders and selling included, the balance is never below zero (it may become NaN, or infinite,
  when an argument is).\<close>

theorem account_never_overdrawn:
  assumes "reachable trader_init trader_step tr"
  shows "\<not> d_lt (balance tr) (Fin 0)"
  using trader_machine.reachable_inv [OF assms] by (simp add: solvent_def)

definition sample_trader :: Trader where
  "sample_trader = \<lparr>t_trader_id = ''T1'', name = ''Ann'', balance = Fin 1000\<rparr>"

theorem account_never_overdrawn_witness:
  "\<not> d_lt (balance (the (trader_update_balance (Some sample_trader) (Fin (- 400))))) (Fin 0)"
proof -
  have c: "trader_create True (Some ''T1'') (Some ''Ann'') (Fin 1000) = Some sample_trader"
    by code_simp
  have u: "trader_update_balance (Some sample_trader) (Fin (- 400)) =
      Some (the (trader_update_balance (Some sample_trader) (Fin (- 400))))"
    by (simp add: trader_update_balance_def Let_def)
  have "trader_init sample_trader" using c unfolding trader_init_def by blast
  then have "reachable trader_init trader_step (the (trader_update_balance (Some sample_trader) (Fin (- 400))))"
    using trader_step.update [OF u] by (blast intro: reachable.intros)
  then show ?thesis by (rule account_never_overdrawn)
qed

text \<open>C17. What a trade costs, in whole units below \<open>2 ^ 53\<close>: placing a buy order of \<open>q\<close> at \<open>pb\<close> reserves \<open>pb * q\<close> of
  the buyer, executing a trade of \<open>q\<close> at \<open>ps\<close> credits \<open>ps * q\<close> to the seller, and nothing is given back: the two
  accounts together lose \<open>(pb - ps) * q\<close>, the price improvement.\<close>

theorem settlement_no_refund:
  assumes "st a = Some x" "t_trader_id buyer = trader_id x" "is_buy_order x" "price x = Fin (of_int pb)"
    and "balance buyer = Fin (of_int bb)" "balance seller = Fin (of_int sb)"
    and "0 \<le> pb * quantity x" "pb * quantity x \<le> bb" "bb < 2 ^ 53"
    and "trade_price t = Fin (of_int ps)" "trade_quantity t = quantity x"
    and "0 \<le> sb" "0 \<le> ps * quantity x" "sb + ps * quantity x < 2 ^ 53"
    and "order_book_add_order m st (Some book) (Some a) = Some (r, book')"
  shows "\<exists>buyer' seller' bb' sb'.
    trader_place_order m st (Some buyer) (Some book) (Some a) = Some (r, Some buyer', book') \<and>
    trade_execute (Some t) (Some buyer') (Some seller) = (0, Some seller') \<and>
    balance buyer' = Fin (of_int bb') \<and> balance seller' = Fin (of_int sb') \<and>
    bb' + sb' + (pb - ps) * quantity x = bb + sb"
  using place_buy_reserves [OF assms(1-5,7-9,15)] trade_execute_credits [OF assms(10,6,12)] assms(11,13,14)
  by (auto simp: left_diff_distrib simp del: of_int_mult of_int_diff of_int_add
      intro!: exI [of _ "bb - pb * quantity x"] exI [of _ "sb + ps * quantity x"])

definition sample_trade :: Trade where
  "sample_trade = \<lparr>buy_order_id = ''B2'', sell_order_id = ''S1'', trade_price = Fin 99, trade_quantity = 5\<rparr>"

theorem settlement_no_refund_witness:
  "\<exists>buyer' seller' bb' sb' r book'.
    trader_place_order True sample_store (Some sample_trader) (Some sample_book) (Some 1) = Some (r, Some buyer', book') \<and>
    trade_execute (Some sample_trade) (Some buyer') (Some sample_trader) = (0, Some seller') \<and>
    balance buyer' = Fin (of_int bb') \<and> balance seller' = Fin (of_int sb') \<and> bb' + sb' + 10 = 2000"
proof -
  let ?x = "sample_order ''B2'' 101 5 True 2"
  have s: "sample_store 1 = Some ?x" and ok: "order_ok ?x" by code_simp+
  have f: "t_trader_id sample_trader = trader_id ?x" "is_buy_order ?x" "price ?x = Fin (of_int 101)" "quantity ?x = 5"
    "balance sample_trader = Fin (of_int 1000)" "trade_price sample_trade = Fin (of_int 99)"
    "trade_quantity sample_trade = 5" "price ?x \<noteq> NaN"
    by (simp_all add: sample_trader_def sample_order_def sample_trade_def)
  obtain book' where "order_book_add_order True sample_store (Some sample_book) (Some 1) = Some (0, Some book')"
    using add_order_ok [OF sample_book_ok s ok f(8)] by metis
  from settlement_no_refund [OF s f(1-3,5,5) _ _ _ f(6) _ _ _ _ this] f(4,7) show ?thesis by auto
qed

end
