(* ===== verification/Order_Loader.thy ===== *)
theory Order_Loader
  imports Book_Operations
begin

text \<open>
  \<open>src/utils/order_loader.c\<close>: the type of an order file, trimming, one line of a file, and the loop
  that reads a file into a book. A file is the text that is left to read. What the run meets
  outside the program, by the number of the line, is a record: whether memory is there for the
  order and for the tree node, the address of the new order, and the time.
\<close>

section \<open>Pieces\<close>

definition MAX_LINE_LENGTH :: nat where
  "MAX_LINE_LENGTH = 1024"

definition CSV_DELIMITER :: string where
  "CSV_DELIMITER = '',''"

definition TXT_DELIMITER :: string where
  "TXT_DELIMITER = [CHR '' '', CHR 0x09]"

datatype FileType = FILE_TYPE_CSV | FILE_TYPE_TXT | FILE_TYPE_UNKNOWN

definition determine_file_type :: "string \<Rightarrow> FileType" where
  "determine_file_type filename = (case after_last (CHR ''.'') filename of None \<Rightarrow> FILE_TYPE_UNKNOWN
     | Some extension \<Rightarrow>
         if strcaseeq extension ''csv'' then FILE_TYPE_CSV
         else if strcaseeq extension ''txt'' then FILE_TYPE_TXT
         else FILE_TYPE_UNKNOWN)"

text \<open>
  The returned pointer's string; the text before it, white space, stays in the buffer
  (\<open>trimmed_buffer\<close>), and the terminator is written after the last character that is not white space.
\<close>

definition trim_whitespace :: "string \<Rightarrow> string" where
  "trim_whitespace s = (let t = dropWhile isspace s in
     if t = [] then [] else rev (dropWhile isspace (rev t)))"

definition trimmed_buffer :: "string \<Rightarrow> string" where
  "trimmed_buffer s = (let t = dropWhile isspace s in
     if t = [] then s else takeWhile isspace s @ trim_whitespace s)"

section \<open>One line\<close>

definition parse_order_line :: "bool \<Rightarrow> int \<Rightarrow> string \<Rightarrow> FileType \<Rightarrow> Order option" where
  "parse_order_line malloc_ok now line file_type =
     (let delimiter = (if file_type = FILE_TYPE_CSV then CSV_DELIMITER else TXT_DELIMITER) in do {
       (t1, r1) \<leftarrow> strtok delimiter line;
       let oid = copy_field MAX_ID_LENGTH (trim_whitespace t1);
       (t2, r2) \<leftarrow> strtok delimiter r1;
       let tid = copy_field MAX_ID_LENGTH (trim_whitespace t2);
       (t3, r3) \<leftarrow> strtok delimiter r2;
       let sy = copy_field MAX_SYMBOL_LENGTH (trim_whitespace t3);
       (t4, r4) \<leftarrow> strtok delimiter r3;
       let side = copy_field 10 (trim_whitespace t4);
       (t5, r5) \<leftarrow> strtok delimiter r4;
       let p = atof (trim_whitespace t5);
       if d_le p (Fin 0) then None else do {
         (t6, r6) \<leftarrow> strtok delimiter r5;
         let q = atoi (trim_whitespace t6);
         if q \<le> 0 then None
         else order_create malloc_ok now oid tid sy p q (strcaseeq side ''BUY'') } })"

section \<open>The file\<close>

text \<open>\<open>fgets(line, n, file)\<close>: at most \<open>n - 1\<close> characters, up to and with the first newline.\<close>

definition newline :: char where
  "newline = CHR 0x0A"

definition fgets :: "nat \<Rightarrow> string \<Rightarrow> (string \<times> string) option" where
  "fgets n file = (if file = [] then None
     else let k = min (n - 1) (length (takeWhile (\<lambda>c. c \<noteq> newline) file) + 1) in
       Some (take k file, drop k file))"

lemma fgets_shorter: "fgets n file = Some (l, r) \<Longrightarrow> 1 < n \<Longrightarrow> length r < length file"
  by (auto simp: fgets_def Let_def split: if_splits)

text \<open>What the program sees of a line: the string up to the first NUL, cut at the newline.\<close>

definition line_text :: "string \<Rightarrow> string" where
  "line_text l = takeWhile (\<lambda>c. c \<noteq> newline) (takeWhile (\<lambda>c. c \<noteq> NUL) l)"

record load_env =
  order_mem :: "nat \<Rightarrow> bool"
  node_mem :: "nat \<Rightarrow> bool"
  new_addr :: "nat \<Rightarrow> addr"
  load_time :: "nat \<Rightarrow> int"

text \<open>
  The body of the loop for one line: the store, the book and the count after it. The result is
  \<open>None\<close> when adding faults.
\<close>

definition load_line ::
  "load_env \<Rightarrow> FileType \<Rightarrow> nat \<Rightarrow> string \<Rightarrow> store \<times> OrderBook \<times> int \<Rightarrow> (store \<times> OrderBook \<times> int) option" where
  "load_line env file_type n l s = (case s of (st, book, orders_loaded) \<Rightarrow>
     let line = line_text l; trimmed_line = trim_whitespace line in
     if trimmed_line = [] \<or> hd trimmed_line = CHR ''#'' then Some s
     else case parse_order_line (order_mem env n) (load_time env n) (trimmed_buffer line) file_type of
       None \<Rightarrow> Some s
     | Some x \<Rightarrow>
         let a = new_addr env n; st' = st(a \<mapsto> x) in
         (case order_book_add_order (node_mem env n) st' (Some book) (Some a) of
            Some (r, Some book') \<Rightarrow>
              if r = 0 then Some (st', book', int32 (orders_loaded + 1))
              else Some (st'(a := None), book', orders_loaded)
          | _ \<Rightarrow> None))"

function load_lines ::
  "load_env \<Rightarrow> FileType \<Rightarrow> nat \<Rightarrow> string \<Rightarrow> store \<times> OrderBook \<times> int \<Rightarrow> (store \<times> OrderBook \<times> int) option" where
  "load_lines env file_type n file s = (case fgets MAX_LINE_LENGTH file of None \<Rightarrow> Some s
     | Some (l, rest) \<Rightarrow> (case load_line env file_type (Suc n) l s of None \<Rightarrow> None
        | Some s' \<Rightarrow> load_lines env file_type (Suc n) rest s'))"
  by pat_completeness auto
termination
  by (relation "measure (\<lambda>(env, ft, n, file, s). length file)")
    (auto dest: fgets_shorter simp: MAX_LINE_LENGTH_def)

declare load_lines.simps [simp del]

text \<open>
  \<open>files\<close> is the file system: the text of a file that can be opened. The result is the return
  value with the store and book after the call, or \<open>None\<close> for a fault.
\<close>

definition load_orders_from_file ::
  "load_env \<Rightarrow> (string \<Rightarrow> string option) \<Rightarrow> store \<Rightarrow> string option \<Rightarrow> OrderBook option \<Rightarrow>
   (int \<times> store \<times> OrderBook option) option" where
  "load_orders_from_file env files st filename' book' = (case (filename', book') of
     (Some filename, Some book) \<Rightarrow>
       let file_type = determine_file_type filename in
       if file_type = FILE_TYPE_UNKNOWN then Some (- 1, st, book')
       else (case files filename of None \<Rightarrow> Some (- 1, st, book')
       | Some file \<Rightarrow>
           let finish = map_option (\<lambda>(st', bk, n). (n, st', Some bk)) in
           if file_type = FILE_TYPE_CSV then
             (case fgets MAX_LINE_LENGTH file of None \<Rightarrow> Some (- 1, st, book')
              | Some (_, rest) \<Rightarrow> finish (load_lines env file_type 1 rest (st, book, 0)))
           else finish (load_lines env file_type 0 file (st, book, 0)))
   | _ \<Rightarrow> Some (- 1, st, book'))"

section \<open>What the loader makes of a file\<close>

lemma parse_order_line_SomeD:
  assumes "parse_order_line m now line ft = Some x"
  shows "order_ok x \<and> 0 < quantity x \<and> remaining_quantity x = quantity x \<and>
    \<not> d_le (price x) (Fin 0) \<and> \<not> is_canceled x"
proof -
  obtain oid tid sy p s q buy where c: "order_create m now oid tid sy p q buy = Some x"
      and q: "q = atoi s" "0 < q" and p: "\<not> d_le p (Fin 0)"
    using assms by (auto simp: parse_order_line_def Let_def bind_eq_Some_conv split: prod.splits if_splits)
  have "fits 32 q" using atoi_fits q(1) by simp
  with c q p order_create_ok [OF c] order_create_SomeD [OF c] show ?thesis by simp
qed

text \<open>The order that the loop makes of the \<open>n\<close>-th line, and the lines of a file as \<open>fgets\<close> cuts it.\<close>

definition line_order :: "load_env \<Rightarrow> FileType \<Rightarrow> nat \<Rightarrow> string \<Rightarrow> Order option" where
  "line_order env ft n l = (let t = trim_whitespace (line_text l) in
     if t = [] \<or> hd t = CHR ''#'' then None
     else parse_order_line (order_mem env n) (load_time env n) (trimmed_buffer (line_text l)) ft)"

function file_lines :: "string \<Rightarrow> string list" where
  "file_lines file = (case fgets MAX_LINE_LENGTH file of None \<Rightarrow> [] | Some (l, rest) \<Rightarrow> l # file_lines rest)"
  by pat_completeness auto
termination
  by (relation "measure length") (auto dest: fgets_shorter simp: MAX_LINE_LENGTH_def)

declare file_lines.simps [simp del]

text \<open>The orders that the lines of a file are, each with whether there was memory for its tree node.\<close>

fun line_orders :: "load_env \<Rightarrow> FileType \<Rightarrow> nat \<Rightarrow> string list \<Rightarrow> (bool \<times> Order) list" where
  "line_orders env ft n [] = []"
| "line_orders env ft n (l # ls) = (case line_order env ft (Suc n) l of None \<Rightarrow> line_orders env ft (Suc n) ls
     | Some x \<Rightarrow> (node_mem env (Suc n), x) # line_orders env ft (Suc n) ls)"

text \<open>The new orders are at addresses that were free, all different.\<close>

definition env_ok :: "load_env \<Rightarrow> nat \<Rightarrow> store \<Rightarrow> bool" where
  "env_ok env n st \<longleftrightarrow> inj (new_addr env) \<and> (\<forall>i > n. st (new_addr env i) = None)"

lemma load_line_none:
  "line_order env ft n l = None \<Longrightarrow> load_line env ft n l s = Some s"
  by (auto simp: load_line_def line_order_def Let_def split: if_splits prod.split)

lemma load_line_ok:
  assumes "book_ok st book" "env_ok env n st" "line_order env ft (Suc n) l = Some x" "price x \<noteq> NaN"
  obtains st' book' where "load_line env ft (Suc n) l (st, book, k) = Some (st', book', int32 (k + 1))"
    "book_ok st' book'" "env_ok env (Suc n) st'"
    "\<forall>b. mset (side_list b st' book') = mset (side_list b st book) + mset (entered b (side_list b st book) [(node_mem env (Suc n), x)])"
proof -
  let ?a = "new_addr env (Suc n)"
  let ?st = "st(?a \<mapsto> x)"
  have x: "order_ok x" using parse_order_line_SomeD assms(3) by (auto simp: line_order_def Let_def split: if_splits)
  have free: "st ?a = None" using assms(2) by (simp add: env_ok_def)
  note ok = book_ok_extend [OF assms(1) free, of x]
  have a: "?st ?a = Some x" by simp
  obtain book' where book': "order_book_add_order (node_mem env (Suc n)) ?st (Some book) (Some ?a) = Some (0, Some book')"
      "book_ok ?st book'"
      "\<forall>b. mset (side_list b ?st book') = mset (side_list b ?st book) + mset (entered b (side_list b ?st book) [(node_mem env (Suc n), x)])"
    using add_order_sides [OF ok a x assms(4)] by metis
  have "load_line env ft (Suc n) l (st, book, k) = Some (?st, book', int32 (k + 1))"
    using assms(3) book'(1) by (auto simp: load_line_def line_order_def Let_def split: if_splits simp del: fun_upd_apply)
  moreover have "env_ok env (Suc n) ?st"
    using assms(2) by (auto simp: env_ok_def inj_def)
  ultimately show ?thesis using that book'(2,3) unfolding side_list_extend [OF assms(1) free] by blast
qed

lemma load_lines_step:
  "fgets MAX_LINE_LENGTH src = Some (l, rest) \<Longrightarrow> load_line env ft (Suc n) l s = Some s1 \<Longrightarrow>
   load_lines env ft n src s = load_lines env ft (Suc n) rest s1"
  by (simp add: load_lines.simps [of env ft n src])

lemma load_lines_ok:
  assumes "book_ok st book" "env_ok env n st" "fits 32 k" "\<forall>c \<in> set (line_orders env ft n (file_lines src)). price (snd c) \<noteq> NaN"
  shows "\<exists>st' book'. load_lines env ft n src (st, book, k) =
      Some (st', book', int32 (k + int (length (line_orders env ft n (file_lines src))))) \<and> book_ok st' book' \<and>
      (\<forall>b. mset (side_list b st' book') = mset (side_list b st book) + mset (entered b (side_list b st book) (line_orders env ft n (file_lines src))))"
  using assms
proof (induction "length src" arbitrary: n src st book k rule: less_induct)
  case less
  show ?case
  proof (cases "fgets MAX_LINE_LENGTH src")
    case None
    with less.prems show ?thesis by (simp add: load_lines.simps [of env ft n src] file_lines.simps [of src])
  next
    case (Some lr)
    then obtain l rest where lr: "fgets MAX_LINE_LENGTH src = Some (l, rest)" by (cases lr) simp
    have short: "length rest < length src"
      using fgets_shorter [OF lr] by (simp add: MAX_LINE_LENGTH_def)
    have cut: "file_lines src = l # file_lines rest" by (simp add: file_lines.simps [of src] lr)
    show ?thesis
    proof (cases "line_order env ft (Suc n) l")
      case None
      have "env_ok env (Suc n) st" using less.prems(2) by (simp add: env_ok_def)
      with less.hyps [OF short less.prems(1) this less.prems(3)] less.prems(4) None load_lines_step [OF lr load_line_none [OF None]] show ?thesis
        by (simp add: cut)
    next
      case (Some x)
      let ?xs = "line_orders env ft (Suc n) (file_lines rest)" and ?m = "node_mem env (Suc n)"
      have xs: "line_orders env ft n (file_lines src) = (?m, x) # ?xs" by (simp add: cut Some)
      obtain st1 book1 where 1: "load_line env ft (Suc n) l (st, book, k) = Some (st1, book1, int32 (k + 1))"
          "book_ok st1 book1" "env_ok env (Suc n) st1"
          "\<forall>b. mset (side_list b st1 book1) = mset (side_list b st book) + mset (entered b (side_list b st book) [(?m, x)])"
        by (rule load_line_ok [OF less.prems(1,2) Some]) (use less.prems(4) xs in auto)
      obtain st' book' where 2: "load_lines env ft (Suc n) rest (st1, book1, int32 (k + 1)) = Some (st', book', int32 (int32 (k + 1) + int (length ?xs)))"
          "book_ok st' book'" "\<forall>b. mset (side_list b st' book') = mset (side_list b st1 book1) + mset (entered b (side_list b st1 book1) ?xs)"
        using less.hyps [OF short 1(2,3), of "int32 (k + 1)"] less.prems(4) xs by (auto simp: wrap_fits)
      have "mset (side_list b st' book') = mset (side_list b st book) + mset (entered b (side_list b st book) ((?m, x) # ?xs))" for b
        using entered_step [OF 1(4) [rule_format, of b], of ?xs] 1(4) 2(3) by (metis add.assoc mset_append)
      moreover have "int32 (int32 (k + 1) + int (length ?xs)) = int32 (k + int (length ((?m, x) # ?xs)))" by (simp add: add.assoc [symmetric] add.commute)
      ultimately show ?thesis using 2(1,2) load_lines_step [OF lr 1(1)] unfolding xs by metis
    qed
  qed
qed

section \<open>Round trip of a line\<close>

lemma trim_whitespace_id: "\<forall>c \<in> set t. \<not> isspace c \<Longrightarrow> trim_whitespace t = t"
proof -
  assume "\<forall>c \<in> set t. \<not> isspace c"
  then have "dropWhile isspace t = t" "dropWhile isspace (rev t) = rev t"
    by (auto simp: dropWhile_eq_self_iff hd_rev)
  then show ?thesis by (simp add: trim_whitespace_def)
qed

definition plain_field :: "string \<Rightarrow> bool" where
  "plain_field t \<longleftrightarrow> t \<noteq> [] \<and> list_all (\<lambda>c. \<not> isspace c \<and> c \<noteq> CHR '','') t"

definition csv_line :: "string \<Rightarrow> string \<Rightarrow> string \<Rightarrow> bool \<Rightarrow> int \<Rightarrow> int \<Rightarrow> string" where
  "csv_line oid tid sy buy p q = oid @ '','' @ tid @ '','' @ sy @ '','' @
     (if buy then ''BUY'' else ''SELL'') @ '','' @ show_nat p @ '','' @ show_nat q"

lemma plain_field_show: "0 \<le> n \<Longrightarrow> plain_field (show_nat n)"
  using show_nat_digits digit_facts by (auto simp: plain_field_def list_all_iff show_nat_nonempty)

lemma plain_field_strtok:
  assumes "plain_field t"
  shows "strtok CSV_DELIMITER (t @ CHR '','' # r) = Some (t, r)" "strtok CSV_DELIMITER t = Some (t, [])"
    "trim_whitespace t = t"
  using assms strtok_field [of t CSV_DELIMITER] trim_whitespace_id [of t]
  by (auto simp: plain_field_def list_all_iff CSV_DELIMITER_def)

lemma parse_csv_line:
  assumes f: "plain_field oid" "plain_field tid" "plain_field sy"
    and len: "length oid < MAX_ID_LENGTH" "length tid < MAX_ID_LENGTH" "length sy < MAX_SYMBOL_LENGTH"
    and num: "0 < p" "p < 2 ^ 53" "0 < q" "q < 2 ^ 31"
  shows "parse_order_line m now (csv_line oid tid sy buy p q) FILE_TYPE_CSV =
    order_create m now oid tid sy (Fin (of_int p)) q buy"
proof -
  have side: "plain_field (if buy then ''BUY'' else ''SELL'')"
    by (simp add: plain_field_def isspace_def code_def)
  have sc: "strcaseeq (copy_field 10 (if buy then ''BUY'' else ''SELL'')) ''BUY'' = buy"
    by (simp add: strcaseeq_def)
  note ps = plain_field_show [of p] plain_field_show [of q]
  have "\<not> d_le (Fin (of_int p)) (Fin 0)" using num by (simp add: d_le_less_eq)
  with num show ?thesis
    unfolding csv_line_def append_Cons append_Nil parse_order_line_def
    using len sc plain_field_strtok [OF f(1)] plain_field_strtok [OF f(2)] plain_field_strtok [OF f(3)]
      plain_field_strtok [OF side] plain_field_strtok [OF ps(1)] plain_field_strtok [OF ps(2)]
    by (simp add: Let_def atof_show atoi_show del: if_split)
qed

end
