(* ===== verification/Json.thy ===== *)
theory Json
  imports C_Text "HOL-Library.Monad_Syntax"
begin

text \<open>
  The cJSON library the program calls. It is not part of the repository, so its functions are
  parameters: a record of operations on nodes of an unknown type, NULL being \<open>None\<close>. What the
  program relies on is stated in two locales. \<open>cjson_nodes\<close> is about reading: every node has a value, a
  \<open>json\<close> tree, and the getters read it (keys compare without regard to case and the first match counts).
  \<open>cjson_api\<close> is about a library that does not run out of memory: the \<open>Create\<close> and \<open>Add\<close> functions return
  nodes, a printed text is a string (no NUL in it), and printing a tree of finite numbers, nested at
  most 1000 deep, and parsing the text gives a tree back. The numbers of that
  tree need not be those that were printed: cJSON prints a number with 15 digits if the \<open>double\<close> they
  denote is equal to it up to \<open>DBL_EPSILON\<close>, and with 17 digits otherwise. So the number that is read back is
  \<open>reread d\<close>, where \<open>reread\<close> is a parameter: it is \<open>d\<close> for an integer that fits an \<open>int\<close>, and differs from \<open>d\<close> by at
  most \<open>\<bar>d\<bar> / 2 ^ 51\<close> for \<open>d\<close> up to \<open>2 ^ 53\<close>.
  An \<open>Add\<close> function changes its first argument in place; here it returns the changed node.
  The last section has an executable implementation that satisfies these laws.
\<close>

section \<open>Values\<close>

datatype json = JNull | JBool bool | JNum double | JStr string | JArr "json list" | JObj "(string \<times> json) list"

fun finite_json :: "json \<Rightarrow> bool" where
  "finite_json (JNum d) = (case d of Fin _ \<Rightarrow> True | _ \<Rightarrow> False)"
| "finite_json (JArr xs) = list_all finite_json xs"
| "finite_json (JObj ms) = list_all (\<lambda>m. finite_json (snd m)) ms"
| "finite_json _ = True"

text \<open>At most \<open>n\<close> arrays and objects inside one another; cJSON parses 1000 (\<open>CJSON_NESTING_LIMIT\<close>).\<close>

fun nested_le :: "nat \<Rightarrow> json \<Rightarrow> bool" where
  "nested_le n (JArr xs) = (0 < n \<and> list_all (nested_le (n - 1)) xs)"
| "nested_le n (JObj ms) = (0 < n \<and> list_all (\<lambda>m. nested_le (n - 1) (snd m)) ms)"
| "nested_le _ _ = True"

fun json_get :: "json \<Rightarrow> string \<Rightarrow> json option" where
  "json_get (JObj ms) k = map_option snd (find (\<lambda>m. strcaseeq (fst m) k) ms)"
| "json_get _ k = None"

text \<open>The tree with \<open>f\<close> applied to its numbers.\<close>

fun renumber :: "(double \<Rightarrow> double) \<Rightarrow> json \<Rightarrow> json" where
  "renumber f (JNum d) = JNum (f d)"
| "renumber f (JArr xs) = JArr (map (renumber f) xs)"
| "renumber f (JObj ms) = JObj (map (\<lambda>m. (fst m, renumber f (snd m))) ms)"
| "renumber f JNull = JNull"
| "renumber f (JBool b) = JBool b"
| "renumber f (JStr t) = JStr t"

lemma renumber_id [simp]: "renumber (\<lambda>d. d) j = j"
proof (induction j)
  case (JArr xs)
  then show ?case by (simp add: map_idI)
next
  case (JObj ms)
  then have "(fst m, renumber (\<lambda>d. d) (snd m)) = m" if "m \<in> set ms" for m
    using that by (metis prod.collapse prod_set_simps(2) singletonI)
  then show ?case by (simp add: map_idI)
qed simp_all

lemma json_get_renumber: "json_get (renumber f v) k = map_option (renumber f) (json_get v k)"
proof (cases v)
  case (JObj ms)
  have "find P (map (\<lambda>m. (fst m, renumber f (snd m))) ms) = map_option (\<lambda>m. (fst m, renumber f (snd m))) (find P ms)"
    if "\<And>a b c. P (a, b) = P (a, c)" for P
    using that by (induction ms) (auto, metis prod.collapse, metis prod.collapse)
  from this [of "\<lambda>m. strcaseeq (fst m) k"] show ?thesis by (simp add: JObj option.map_comp comp_def)
qed simp_all

section \<open>The operations the program calls\<close>

record 'j cJSON =
  cJSON_Parse :: "string \<Rightarrow> 'j option"
  cJSON_Print :: "'j option \<Rightarrow> string option"
  cJSON_CreateObject :: "'j option"
  cJSON_CreateArray :: "'j option"
  cJSON_GetObjectItem :: "'j option \<Rightarrow> string \<Rightarrow> 'j option"
  cJSON_GetArraySize :: "'j option \<Rightarrow> int"
  cJSON_GetArrayItem :: "'j option \<Rightarrow> int \<Rightarrow> 'j option"
  cJSON_IsNumber :: "'j option \<Rightarrow> bool"
  cJSON_IsString :: "'j option \<Rightarrow> bool"
  cJSON_IsTrue :: "'j option \<Rightarrow> bool"
  cJSON_IsArray :: "'j option \<Rightarrow> bool"
  cJSON_IsObject :: "'j option \<Rightarrow> bool"
  valuestring :: "'j \<Rightarrow> string option"
  valuedouble :: "'j \<Rightarrow> double"
  valueint :: "'j \<Rightarrow> int"
  cJSON_AddStringToObject :: "'j option \<Rightarrow> string \<Rightarrow> string \<Rightarrow> 'j option"
  cJSON_AddNumberToObject :: "'j option \<Rightarrow> string \<Rightarrow> double \<Rightarrow> 'j option"
  cJSON_AddBoolToObject :: "'j option \<Rightarrow> string \<Rightarrow> bool \<Rightarrow> 'j option"
  cJSON_AddItemToObject :: "'j option \<Rightarrow> string \<Rightarrow> 'j option \<Rightarrow> 'j option"
  cJSON_AddItemToArray :: "'j option \<Rightarrow> 'j option \<Rightarrow> 'j option"

section \<open>The contract\<close>

definition node_is :: "('j \<Rightarrow> json) \<Rightarrow> 'j option \<Rightarrow> json \<Rightarrow> bool" where
  "node_is view e v \<longleftrightarrow> (\<exists>j. e = Some j \<and> view j = v)"

locale cjson_nodes =
  fixes J :: "'j cJSON"
    and view :: "'j \<Rightarrow> json"
  assumes get_item: "map_option view (cJSON_GetObjectItem J (Some j) k) = json_get (view j) k"
    and array_size: "view j = JArr xs \<Longrightarrow> cJSON_GetArraySize J (Some j) = int (length xs)"
    and array_item: "view j = JArr xs \<Longrightarrow> m < length xs \<Longrightarrow> map_option view (cJSON_GetArrayItem J (Some j) (int m)) = Some (xs ! m)"
    and is_number: "cJSON_IsNumber J (Some j) \<longleftrightarrow> (\<exists>d. view j = JNum d)"
    and is_string: "cJSON_IsString J (Some j) \<longleftrightarrow> (\<exists>s. view j = JStr s)"
    and is_true: "cJSON_IsTrue J (Some j) \<longleftrightarrow> view j = JBool True"
    and is_array: "cJSON_IsArray J (Some j) \<longleftrightarrow> (\<exists>xs. view j = JArr xs)"
    and is_object: "cJSON_IsObject J (Some j) \<longleftrightarrow> (\<exists>ms. view j = JObj ms)"
    and string_value: "valuestring J j = (case view j of JStr s \<Rightarrow> Some s | _ \<Rightarrow> None)"
    and double_value: "view j = JNum d \<Longrightarrow> valuedouble J j = d"
    and int_value: "view j = JNum (Fin (of_int n)) \<Longrightarrow> fits 32 n \<Longrightarrow> valueint J j = n"
    and null_not_number: "\<not> cJSON_IsNumber J None"
begin

text \<open>What a getter finds, by the value of the object.\<close>

lemma get_item_Some:
  assumes "json_get (view j) k = Some v"
  obtains i where "cJSON_GetObjectItem J (Some j) k = Some i" "view i = v"
  using get_item [of j k] assms by (cases "cJSON_GetObjectItem J (Some j) k") auto

lemma get_item_None: "json_get (view j) k = None \<Longrightarrow> cJSON_GetObjectItem J (Some j) k = None"
  using get_item [of j k] by (cases "cJSON_GetObjectItem J (Some j) k") auto

end

locale cjson_api = cjson_nodes J view
  for J :: "'j cJSON" and view :: "'j \<Rightarrow> json" +
  fixes reread :: "double \<Rightarrow> double"
  assumes create_object: "\<exists>j. cJSON_CreateObject J = Some j \<and> view j = JObj []"
    and create_array: "\<exists>j. cJSON_CreateArray J = Some j \<and> view j = JArr []"
    and add_string: "view j = JObj ms \<Longrightarrow> \<exists>j'. cJSON_AddStringToObject J (Some j) k s = Some j' \<and> view j' = JObj (ms @ [(k, JStr s)])"
    and add_number: "view j = JObj ms \<Longrightarrow> \<exists>j'. cJSON_AddNumberToObject J (Some j) k d = Some j' \<and> view j' = JObj (ms @ [(k, JNum d)])"
    and add_bool: "view j = JObj ms \<Longrightarrow> \<exists>j'. cJSON_AddBoolToObject J (Some j) k b = Some j' \<and> view j' = JObj (ms @ [(k, JBool b)])"
    and add_item: "view j = JObj ms \<Longrightarrow> \<exists>j'. cJSON_AddItemToObject J (Some j) k (Some i) = Some j' \<and> view j' = JObj (ms @ [(k, view i)])"
    and add_to_array: "view j = JArr xs \<Longrightarrow> \<exists>j'. cJSON_AddItemToArray J (Some j) (Some i) = Some j' \<and> view j' = JArr (xs @ [view i])"
    and print_parse: "finite_json (view j) \<Longrightarrow> nested_le 1000 (view j) \<Longrightarrow>
      \<exists>t j'. cJSON_Print J (Some j) = Some t \<and> cJSON_Parse J t = Some j' \<and> view j' = renumber reread (view j)"
    and print_text: "cJSON_Print J e = Some t \<Longrightarrow> NUL \<notin> set t"
    and reread_int: "fits 32 n \<Longrightarrow> reread (Fin (of_int n)) = Fin (of_int n)"
    and reread_close: "\<bar>q\<bar> \<le> 2 ^ 53 \<Longrightarrow> \<exists>q'. reread (Fin q) = Fin q' \<and> \<bar>q' - q\<bar> \<le> \<bar>q\<bar> / 2 ^ 51"
begin

text \<open>Building a tree step by step.\<close>

lemma node_create:
  "node_is view (cJSON_CreateObject J) (JObj [])"
  "node_is view (cJSON_CreateArray J) (JArr [])"
  using create_object create_array by (auto simp: node_is_def)

lemma node_add:
  "node_is view e (JObj ms) \<Longrightarrow> node_is view (cJSON_AddStringToObject J e k s) (JObj (ms @ [(k, JStr s)]))"
  "node_is view e (JObj ms) \<Longrightarrow> node_is view (cJSON_AddNumberToObject J e k d) (JObj (ms @ [(k, JNum d)]))"
  "node_is view e (JObj ms) \<Longrightarrow> node_is view (cJSON_AddBoolToObject J e k b) (JObj (ms @ [(k, JBool b)]))"
  "node_is view e (JObj ms) \<Longrightarrow> node_is view i v \<Longrightarrow> node_is view (cJSON_AddItemToObject J e k i) (JObj (ms @ [(k, v)]))"
  "node_is view e (JArr xs) \<Longrightarrow> node_is view i v \<Longrightarrow> node_is view (cJSON_AddItemToArray J e i) (JArr (xs @ [v]))"
  using add_string add_number add_bool add_item add_to_array by (auto simp: node_is_def)

lemmas node_build = node_create node_add

lemma node_print_parse:
  assumes "node_is view e v" "finite_json v" "nested_le 1000 v"
  obtains t j' where "cJSON_Print J e = Some t" "cJSON_Parse J t = Some j'" "view j' = renumber reread v"
  using assms print_parse unfolding node_is_def by metis

text \<open>The numbers of message types.\<close>

lemma reread_numeral:
  "reread (Fin 1) = Fin 1" "numeral w < (2 ^ 31 :: int) \<Longrightarrow> reread (Fin (numeral w)) = Fin (numeral w)"
  using reread_int [of 1] reread_int [of "numeral w"] by (simp_all add: fits_def order_trans [OF _ zero_le_numeral])

end

section \<open>An implementation\<close>

text \<open>
  Trees are their own nodes; the text form is a compact JSON dialect with fractions for
  numbers. A number that is not finite is printed as null.
\<close>

fun quote :: "string \<Rightarrow> string" where
  "quote [] = [CHR 0x22]"
| "quote (c # s) = (if c = CHR 0x22 \<or> c = CHR 0x5C then CHR 0x5C # c # quote s
     else if c = NUL then CHR 0x5C # CHR ''0'' # quote s else c # quote s)"

fun unquote :: "string \<Rightarrow> (string \<times> string) option" where
  "unquote [] = None"
| "unquote (c # s) =
     (if c = CHR 0x22 then Some ([], s)
      else if c = CHR 0x5C then (case s of [] \<Rightarrow> None
        | d # s' \<Rightarrow> map_option (\<lambda>(t, r). ((if d = CHR ''0'' then NUL else d) # t, r)) (unquote s'))
      else map_option (\<lambda>(t, r). (c # t, r)) (unquote s))"

lemma unquote_quote [simp]: "unquote (quote s @ r) = Some (s, r)"
  by (induction s) (auto simp: NUL_def)

lemma quote_no_NUL: "NUL \<notin> set (quote s)"
  by (induction s) (auto simp: NUL_def)

definition enc_rat :: "rat \<Rightarrow> string" where
  "enc_rat q = (case quotient_of q of (n, d) \<Rightarrow>
     (if n < 0 then ''-'' else ''+'') @ show_nat \<bar>n\<bar> @ ''/'' @ show_nat d @ '';'')"

definition dec_rat :: "string \<Rightarrow> (rat \<times> string) option" where
  "dec_rat s = (case s of [] \<Rightarrow> None | c # s1 \<Rightarrow>
     let n = digits_val 10 (dec_digits s1); s2 = drop 1 (dropWhile isdigit s1);
         d = digits_val 10 (dec_digits s2); s3 = drop 1 (dropWhile isdigit s2)
     in Some (of_int (if c = CHR ''-'' then - n else n) / of_int d, s3))"

fun enc :: "json \<Rightarrow> string" where
  "enc JNull = ''n''"
| "enc (JBool b) = (if b then ''t'' else ''f'')"
| "enc (JNum d) = (case d of Fin q \<Rightarrow> ''#'' @ enc_rat q | _ \<Rightarrow> ''n'')"
| "enc (JStr s) = CHR 0x22 # quote s"
| "enc (JArr xs) = ''['' @ concat (map (\<lambda>x. CHR '','' # enc x) xs) @ '']''"
| "enc (JObj ms) = ''{'' @ concat (map (\<lambda>(k, x). CHR '','' # quote k @ enc x) ms) @ ''}''"

fun dec :: "nat \<Rightarrow> string \<Rightarrow> (json \<times> string) option"
  and dec_items :: "nat \<Rightarrow> string \<Rightarrow> (json list \<times> string) option"
  and dec_members :: "nat \<Rightarrow> string \<Rightarrow> ((string \<times> json) list \<times> string) option" where
  "dec (Suc n) (c # s) =
     (if c = CHR ''n'' then Some (JNull, s)
      else if c = CHR ''t'' then Some (JBool True, s)
      else if c = CHR ''f'' then Some (JBool False, s)
      else if c = CHR ''#'' then map_option (\<lambda>(q, r). (JNum (Fin q), r)) (dec_rat s)
      else if c = CHR 0x22 then map_option (\<lambda>(t, r). (JStr t, r)) (unquote s)
      else if c = CHR ''['' then map_option (\<lambda>(xs, r). (JArr xs, r)) (dec_items n s)
      else if c = CHR ''{'' then map_option (\<lambda>(ms, r). (JObj ms, r)) (dec_members n s)
      else None)"
| "dec _ _ = None"
| "dec_items (Suc n) (c # s) =
     (if c = CHR '']'' then Some ([], s)
      else do { (x, r) \<leftarrow> dec n s; (xs, r') \<leftarrow> dec_items n r; Some (x # xs, r') })"
| "dec_items _ _ = None"
| "dec_members (Suc n) (c # s) =
     (if c = CHR ''}'' then Some ([], s)
      else do { (k, r) \<leftarrow> unquote s; (x, r') \<leftarrow> dec n r; (ms, r'') \<leftarrow> dec_members n r'; Some ((k, x) # ms, r'') })"
| "dec_members _ _ = None"

lemma takeWhile_digits: "\<forall>c \<in> set s. isdigit c \<Longrightarrow> \<not> isdigit c0 \<Longrightarrow>
    takeWhile isdigit (s @ c0 # r) = s \<and> dropWhile isdigit (s @ c0 # r) = c0 # r"
  by (simp add: takeWhile_append2 dropWhile_append2)

lemma dec_digits_show: "0 \<le> n \<Longrightarrow> \<not> isdigit c \<Longrightarrow>
    digits_val 10 (dec_digits (show_nat n @ c # r)) = n \<and> dropWhile isdigit (show_nat n @ c # r) = c # r"
  using digits_val_show [of n] show_nat_digits [of n] takeWhile_digits [of "show_nat n" c r]
  by (simp add: dec_digits_def takeWhile_eq_all_conv [THEN iffD2])

lemma dec_enc_rat [simp]: "dec_rat (enc_rat q @ r) = Some (q, r)"
proof -
  obtain n d where nd: "quotient_of q = (n, d)" by (cases "quotient_of q")
  have d: "0 < d" and q: "q = of_int n / of_int d"
    using quotient_of_denom_pos [OF nd] quotient_of_div [OF nd] by auto
  have "\<not> isdigit (CHR ''/'')" "\<not> isdigit (CHR '';'')" by (simp_all add: isdigit_def code_def)
  then show ?thesis
    using dec_digits_show [of "\<bar>n\<bar>" "CHR ''/''" "show_nat d @ CHR '';'' # r"] dec_digits_show [of d "CHR '';''" r] d
    by (cases "n < 0") (simp_all add: enc_rat_def dec_rat_def nd q [symmetric] Let_def)
qed

lemma dec_items_enc:
  assumes "\<And>x n r. x \<in> set xs \<Longrightarrow> finite_json x \<Longrightarrow> length (enc x) \<le> n \<Longrightarrow> dec n (enc x @ r) = Some (x, r)"
  shows "list_all finite_json xs \<Longrightarrow> length (concat (map (\<lambda>x. CHR '','' # enc x) xs)) < n \<Longrightarrow>
    dec_items n (concat (map (\<lambda>x. CHR '','' # enc x) xs) @ CHR '']'' # r) = Some (xs, r)"
  using assms
proof (induction xs arbitrary: n)
  case Nil
  then show ?case by (cases n) auto
next
  case (Cons x xs)
  then obtain m where n: "n = Suc m" by (cases n) auto
  have "dec_items m (concat (map (\<lambda>x. CHR '','' # enc x) xs) @ CHR '']'' # r) = Some (xs, r)"
    using Cons.prems n by (intro Cons.IH) auto
  with Cons.prems n show ?case by simp
qed

lemma dec_members_enc:
  assumes "\<And>k x n r. (k, x) \<in> set ms \<Longrightarrow> finite_json x \<Longrightarrow> length (enc x) \<le> n \<Longrightarrow> dec n (enc x @ r) = Some (x, r)"
  shows "list_all (\<lambda>m. finite_json (snd m)) ms \<Longrightarrow> length (concat (map (\<lambda>(k, x). CHR '','' # quote k @ enc x) ms)) < n \<Longrightarrow>
    dec_members n (concat (map (\<lambda>(k, x). CHR '','' # quote k @ enc x) ms) @ CHR ''}'' # r) = Some (ms, r)"
  using assms
proof (induction ms arbitrary: n)
  case Nil
  then show ?case by (cases n) auto
next
  case (Cons m ms)
  obtain k x where m: "m = (k, x)" by (cases m)
  obtain i where n: "n = Suc i" using Cons.prems by (cases n) auto
  have "dec_members i (concat (map (\<lambda>(k, x). CHR '','' # quote k @ enc x) ms) @ CHR ''}'' # r) = Some (ms, r)"
    using Cons.prems n by (intro Cons.IH) (auto simp: m)
  moreover have "dec i (enc x @ r') = Some (x, r')" for r'
    using Cons.prems(1,2) Cons.prems(3) [of k x i r'] n by (simp add: m)
  ultimately show ?case by (simp add: m n)
qed

lemma dec_enc: "finite_json j \<Longrightarrow> length (enc j) \<le> n \<Longrightarrow> dec n (enc j @ r) = Some (j, r)"
proof (induction j arbitrary: n r)
  case JNull
  then show ?case by (cases n) auto
next
  case (JBool b)
  then show ?case by (cases n; cases b) auto
next
  case (JNum d)
  then show ?case by (cases n) (auto split: double.splits)
next
  case (JStr s)
  then show ?case by (cases n) auto
next
  case (JArr xs)
  then obtain m where n: "n = Suc m" by (cases n) auto
  from JArr n show ?case using dec_items_enc [of xs m r] by simp
next
  case (JObj ms)
  then obtain m where n: "n = Suc m" by (cases n) auto
  have IH: "dec n (enc x @ r) = Some (x, r)" if "(k, x) \<in> set ms" "finite_json x" "length (enc x) \<le> n" for k x n r
    using JObj.IH [OF that(1), of x] that(2,3) by (simp add: snds.intros)
  from JObj.prems n show ?case using dec_members_enc [of ms m r, OF IH] by simp
qed

lemma enc_no_NUL: "NUL \<notin> set (enc j)"
proof (induction j)
  case (JNum d)
  have "NUL \<notin> set (enc_rat q)" for q
  proof -
    obtain n e where q: "quotient_of q = (n, e)" by (cases "quotient_of q")
    have "\<not> isdigit NUL" by (simp add: isdigit_def code_def NUL_def)
    then have "NUL \<notin> set (show_nat \<bar>n\<bar>)" "NUL \<notin> set (show_nat e)"
      using show_nat_digits [of "\<bar>n\<bar>"] show_nat_digits [of e] quotient_of_denom_pos [OF q] by fastforce+
    with q show ?thesis by (auto simp: enc_rat_def NUL_def)
  qed
  then show ?case by (auto simp: NUL_def split: double.splits)
next
  case (JObj ms)
  then have "NUL \<notin> set (enc x)" if "(k, x) \<in> set ms" for k x using that by (fastforce simp: snds.intros)
  with quote_no_NUL show ?case by (auto simp: NUL_def)
qed (use quote_no_NUL in \<open>auto simp: NUL_def\<close>)

text \<open>The operations on trees.\<close>

fun obj_append :: "json option \<Rightarrow> string \<Rightarrow> json \<Rightarrow> json option" where
  "obj_append (Some (JObj ms)) k v = Some (JObj (ms @ [(k, v)]))"
| "obj_append j k v = j"

fun arr_append :: "json option \<Rightarrow> json option \<Rightarrow> json option" where
  "arr_append (Some (JArr xs)) (Some v) = Some (JArr (xs @ [v]))"
| "arr_append j v = j"

fun double_int :: "double \<Rightarrow> int" where
  "double_int (Fin q) = max (- (2 ^ 31)) (min (2 ^ 31 - 1) (if 0 \<le> q then \<lfloor>q\<rfloor> else \<lceil>q\<rceil>))"
| "double_int PInf = 2 ^ 31 - 1"
| "double_int NInf = - (2 ^ 31)"
| "double_int NaN = - (2 ^ 31)"

definition json_cJSON :: "json cJSON" where
  "json_cJSON = \<lparr>
     cJSON_Parse = (\<lambda>t. case dec (length t) t of Some (j, []) \<Rightarrow> Some j | _ \<Rightarrow> None),
     cJSON_Print = map_option enc,
     cJSON_CreateObject = Some (JObj []),
     cJSON_CreateArray = Some (JArr []),
     cJSON_GetObjectItem = (\<lambda>j k. Option.bind j (\<lambda>j. json_get j k)),
     cJSON_GetArraySize = (\<lambda>j. case j of Some (JArr xs) \<Rightarrow> int (length xs) | _ \<Rightarrow> 0),
     cJSON_GetArrayItem = (\<lambda>j i. case j of
       Some (JArr xs) \<Rightarrow> if 0 \<le> i \<and> i < int (length xs) then Some (xs ! nat i) else None | _ \<Rightarrow> None),
     cJSON_IsNumber = (\<lambda>j. case j of Some (JNum _) \<Rightarrow> True | _ \<Rightarrow> False),
     cJSON_IsString = (\<lambda>j. case j of Some (JStr _) \<Rightarrow> True | _ \<Rightarrow> False),
     cJSON_IsTrue = (\<lambda>j. case j of Some (JBool b) \<Rightarrow> b | _ \<Rightarrow> False),
     cJSON_IsArray = (\<lambda>j. case j of Some (JArr _) \<Rightarrow> True | _ \<Rightarrow> False),
     cJSON_IsObject = (\<lambda>j. case j of Some (JObj _) \<Rightarrow> True | _ \<Rightarrow> False),
     valuestring = (\<lambda>j. case j of JStr s \<Rightarrow> Some s | _ \<Rightarrow> None),
     valuedouble = (\<lambda>j. case j of JNum d \<Rightarrow> d | _ \<Rightarrow> Fin 0),
     valueint = (\<lambda>j. case j of JNum d \<Rightarrow> double_int d | JBool True \<Rightarrow> 1 | _ \<Rightarrow> 0),
     cJSON_AddStringToObject = (\<lambda>j k s. obj_append j k (JStr s)),
     cJSON_AddNumberToObject = (\<lambda>j k d. obj_append j k (JNum d)),
     cJSON_AddBoolToObject = (\<lambda>j k b. obj_append j k (JBool b)),
     cJSON_AddItemToObject = (\<lambda>j k i. case i of None \<Rightarrow> j | Some v \<Rightarrow> obj_append j k v),
     cJSON_AddItemToArray = arr_append\<rparr>"

interpretation json_impl: cjson_api json_cJSON "\<lambda>j. j" "\<lambda>d. d"
proof unfold_locales
  fix j :: json
  show "valuestring json_cJSON j = (case j of JStr s \<Rightarrow> Some s | _ \<Rightarrow> None)"
    by (simp add: json_cJSON_def split: json.splits)
  show "\<exists>t j'. cJSON_Print json_cJSON (Some j) = Some t \<and> cJSON_Parse json_cJSON t = Some j' \<and> j' = renumber (\<lambda>d. d) j"
    if "finite_json j"
    using dec_enc [OF that order_refl, of "[]"] by (simp add: json_cJSON_def)
  show "NUL \<notin> set t" if "cJSON_Print json_cJSON e = Some t" for e t
    using that enc_no_NUL by (auto simp: json_cJSON_def)
qed (auto simp: json_cJSON_def fits_def option.map_ident split: json.splits bool.splits)

end
