(* ===== verification/Protocol.thy ===== *)
theory Protocol
  imports Json
begin

text \<open>
  The wire protocol: \<open>include/protocol/message_types.h\<close>, the limits of \<open>protocol_constants.h\<close>,
  \<open>src/protocol/protocol_constants.c\<close>, \<open>protocol_validation.c\<close> and \<open>json_protocol.c\<close>. The \<open>char\<close> arrays of the
  messages are lists of their bytes, because some of them are filled without a terminator;
  reading one as a string is \<open>c_string\<close>, \<open>None\<close> when there is no terminator in it. A result of
  \<open>None\<close> is a fault: such a read, a NULL dereference, or an access beyond an array.
\<close>

section \<open>Types and constants\<close>

definition MSG_PLACE_ORDER :: int where "MSG_PLACE_ORDER = 1"

definition MSG_CANCEL_ORDER :: int where "MSG_CANCEL_ORDER = 2"

definition MSG_REQUEST_BOOK :: int where "MSG_REQUEST_BOOK = 3"

definition MSG_ORDER_ACCEPTED :: int where "MSG_ORDER_ACCEPTED = 101"

definition MSG_ORDER_REJECTED :: int where "MSG_ORDER_REJECTED = 102"

definition MSG_ORDER_CANCELED :: int where "MSG_ORDER_CANCELED = 103"

definition MSG_TRADE_EXECUTED :: int where "MSG_TRADE_EXECUTED = 104"

definition MSG_BOOK_SNAPSHOT :: int where "MSG_BOOK_SNAPSHOT = 105"

definition MSG_SERVER_STATUS :: int where "MSG_SERVER_STATUS = 106"

definition MSG_ERROR :: int where "MSG_ERROR = 107"

lemmas msg_types = MSG_PLACE_ORDER_def MSG_CANCEL_ORDER_def MSG_REQUEST_BOOK_def MSG_ORDER_ACCEPTED_def
  MSG_ORDER_REJECTED_def MSG_ORDER_CANCELED_def MSG_TRADE_EXECUTED_def MSG_BOOK_SNAPSHOT_def
  MSG_SERVER_STATUS_def MSG_ERROR_def

record OrderMessage =
  om_symbol :: "char list"
  om_order_id :: "char list"
  om_trader_id :: "char list"
  om_price :: double
  om_quantity :: int
  om_is_buy :: bool

record TradeMessage =
  tm_symbol :: "char list"
  tm_buy_order_id :: "char list"
  tm_sell_order_id :: "char list"
  tm_price :: double
  tm_quantity :: int
  tm_timestamp :: int

record BookSnapshot =
  bs_symbol :: "char list"
  num_bids :: int
  num_asks :: int
  max_orders :: nat
  bid_prices :: "double list option"
  bid_quantities :: "int list option"
  ask_prices :: "double list option"
  ask_quantities :: "int list option"

record ServerStatus =
  is_ready :: bool
  num_connected_clients :: int
  num_active_orders :: int
  ss_timestamp :: int

definition PROTOCOL_SYMBOL_LENGTH :: nat where "PROTOCOL_SYMBOL_LENGTH = 16"

definition PROTOCOL_ORDER_ID_LENGTH :: nat where "PROTOCOL_ORDER_ID_LENGTH = 32"

definition PROTOCOL_TRADER_ID_LENGTH :: nat where "PROTOCOL_TRADER_ID_LENGTH = 32"

definition MIN_PRICE :: double where "MIN_PRICE = round_double (1 / 10000)"

definition MAX_PRICE :: double where "MAX_PRICE = Fin 1000000"

definition MIN_QUANTITY :: int where "MIN_QUANTITY = 1"

definition MAX_QUANTITY :: int where "MAX_QUANTITY = 1000000"

definition VALID_SYMBOLS :: "string list" where
  "VALID_SYMBOLS = [''AAPL'', ''GOOG'', ''MSFT'', ''AMZN'', ''TSLA'']"

section \<open>Validation of fields\<close>

definition validate_symbol :: "string option \<Rightarrow> bool" where
  "validate_symbol s' = (case s' of None \<Rightarrow> False
     | Some s \<Rightarrow> if length s = 0 \<or> PROTOCOL_SYMBOL_LENGTH \<le> length s then False
         else find_index (\<lambda>v. s = v) VALID_SYMBOLS \<noteq> None)"

fun id_chars_ok :: "string \<Rightarrow> string \<Rightarrow> bool" where
  "id_chars_ok extra [] = True"
| "id_chars_ok extra (c # cs) = (if \<not> isalnum c \<and> c \<notin> set extra then False else id_chars_ok extra cs)"

definition validate_order_id :: "string option \<Rightarrow> bool" where
  "validate_order_id s' = (case s' of None \<Rightarrow> False
     | Some s \<Rightarrow> if length s = 0 \<or> PROTOCOL_ORDER_ID_LENGTH \<le> length s then False
         else id_chars_ok ''_-'' s)"

definition validate_trader_id :: "string option \<Rightarrow> bool" where
  "validate_trader_id s' = (case s' of None \<Rightarrow> False
     | Some s \<Rightarrow> if length s = 0 \<or> PROTOCOL_TRADER_ID_LENGTH \<le> length s then False
         else id_chars_ok ''_'' s)"

definition validate_price :: "double \<Rightarrow> bool" where
  "validate_price p = (if d_lt p MIN_PRICE \<or> d_lt MAX_PRICE p then False else True)"

definition validate_quantity :: "int \<Rightarrow> bool" where
  "validate_quantity q = (if q < MIN_QUANTITY \<or> MAX_QUANTITY < q then False else True)"

section \<open>Validation of messages\<close>

text \<open>The error text goes to the caller's buffer of \<open>n\<close> bytes.\<close>

definition snprintf_to :: "char list \<Rightarrow> nat \<Rightarrow> string \<Rightarrow> char list" where
  "snprintf_to buf n s =
     (if n = 0 then buf else let t = snprintf n s @ [NUL] in t @ drop (length t) buf)"

definition validate_order_message :: "OrderMessage option \<Rightarrow> char list \<Rightarrow> nat \<Rightarrow> (bool \<times> char list) option" where
  "validate_order_message order' error_msg n = (case order' of
     None \<Rightarrow> Some (False, strncpy error_msg ''Null order message'' n)
   | Some order \<Rightarrow> do {
       oid \<leftarrow> c_string (om_order_id order);
       if \<not> validate_order_id (Some oid) then Some (False, snprintf_to error_msg n (''Invalid order ID: '' @ oid))
       else do {
         tid \<leftarrow> c_string (om_trader_id order);
         if \<not> validate_trader_id (Some tid) then Some (False, snprintf_to error_msg n (''Invalid trader ID: '' @ tid))
         else do {
           sy \<leftarrow> c_string (om_symbol order);
           if \<not> validate_symbol (Some sy) then Some (False, snprintf_to error_msg n (''Invalid symbol: '' @ sy))
           else if \<not> validate_price (om_price order)
             then Some (False, snprintf_to error_msg n (''Invalid price: '' @ show_f2 (om_price order)))
           else if \<not> validate_quantity (om_quantity order)
             then Some (False, snprintf_to error_msg n (''Invalid quantity: '' @ show_int (om_quantity order)))
           else Some (True, error_msg) } } })"

definition validate_trade_message :: "TradeMessage option \<Rightarrow> char list \<Rightarrow> nat \<Rightarrow> (bool \<times> char list) option" where
  "validate_trade_message trade' error_msg n = (case trade' of
     None \<Rightarrow> Some (False, strncpy error_msg ''Null trade message'' n)
   | Some trade \<Rightarrow> do {
       sy \<leftarrow> c_string (tm_symbol trade);
       if \<not> validate_symbol (Some sy) then Some (False, snprintf_to error_msg n (''Invalid symbol: '' @ sy))
       else do {
         bid \<leftarrow> c_string (tm_buy_order_id trade);
         if \<not> validate_order_id (Some bid) then Some (False, snprintf_to error_msg n (''Invalid buy order ID: '' @ bid))
         else do {
           sid \<leftarrow> c_string (tm_sell_order_id trade);
           if \<not> validate_order_id (Some sid) then Some (False, snprintf_to error_msg n (''Invalid sell order ID: '' @ sid))
           else if \<not> validate_price (tm_price trade)
             then Some (False, snprintf_to error_msg n (''Invalid price: '' @ show_f2 (tm_price trade)))
           else if \<not> validate_quantity (tm_quantity trade)
             then Some (False, snprintf_to error_msg n (''Invalid quantity: '' @ show_int (tm_quantity trade)))
           else Some (True, error_msg) } } })"

text \<open>The first level, among the first \<open>k\<close>, that is not valid; reading beyond an array is a fault.\<close>

fun first_invalid :: "nat \<Rightarrow> double list \<Rightarrow> int list \<Rightarrow> (double \<times> int) option option" where
  "first_invalid 0 ps qs = Some None"
| "first_invalid (Suc k) (p # ps) (q # qs) =
     (if \<not> validate_price p \<or> \<not> validate_quantity q then Some (Some (p, q)) else first_invalid k ps qs)"
| "first_invalid (Suc k) _ _ = None"

definition level_error :: "string \<Rightarrow> double \<times> int \<Rightarrow> string" where
  "level_error side l = ''Invalid '' @ side @ '': price='' @ show_f2 (fst l) @ '', quantity='' @ show_int (snd l)"

definition array :: "'a list option \<Rightarrow> 'a list" where
  "array xs = (case xs of None \<Rightarrow> [] | Some ys \<Rightarrow> ys)"

definition validate_book_snapshot :: "BookSnapshot option \<Rightarrow> char list \<Rightarrow> nat \<Rightarrow> (bool \<times> char list) option" where
  "validate_book_snapshot snapshot' error_msg n = (case snapshot' of
     None \<Rightarrow> Some (False, strncpy error_msg ''Null book snapshot'' n)
   | Some s \<Rightarrow> do {
       sy \<leftarrow> c_string (bs_symbol s);
       if \<not> validate_symbol (Some sy) then Some (False, snprintf_to error_msg n (''Invalid symbol: '' @ sy))
       else if num_bids s < 0 \<or> num_asks s < 0
         then Some (False, snprintf_to error_msg n (''Invalid number of orders: bids='' @ show_int (num_bids s) @
                '', asks='' @ show_int (num_asks s)))
       else do {
         bad_bid \<leftarrow> first_invalid (nat (num_bids s)) (array (bid_prices s)) (array (bid_quantities s));
         (case bad_bid of Some l \<Rightarrow> Some (False, snprintf_to error_msg n (level_error ''bid'' l))
          | None \<Rightarrow> do {
              bad_ask \<leftarrow> first_invalid (nat (num_asks s)) (array (ask_prices s)) (array (ask_quantities s));
              (case bad_ask of Some l \<Rightarrow> Some (False, snprintf_to error_msg n (level_error ''ask'' l))
               | None \<Rightarrow> Some (True, error_msg)) }) } })"

definition validate_server_status :: "ServerStatus option \<Rightarrow> char list \<Rightarrow> nat \<Rightarrow> bool \<times> char list" where
  "validate_server_status status' error_msg n = (case status' of
     None \<Rightarrow> (False, strncpy error_msg ''Null server status'' n)
   | Some s \<Rightarrow>
       if num_connected_clients s < 0
         then (False, snprintf_to error_msg n (''Invalid client count: '' @ show_int (num_connected_clients s)))
       else if num_active_orders s < 0
         then (False, snprintf_to error_msg n (''Invalid order count: '' @ show_int (num_active_orders s)))
       else (True, error_msg))"

end
