(* ===== verification/Json_Protocol.thy ===== *)
theory Json_Protocol
  imports Protocol
begin

text \<open>
  \<open>src/protocol/json_protocol.c\<close>: recognising, writing and reading messages. \<open>J\<close> is the cJSON library.
  A reader writes into a struct of its caller, whose old content is an argument; a writer that
  gets NULL leaves a text in \<open>last_error\<close>. \<open>malloc\<close> of the snapshot arrays is a parameter: what
  each of the four allocations gives, its content being whatever was there.
\<close>

section \<open>Recognising\<close>

text \<open>The type of the message, \<open>None\<close> when the function returns false.\<close>

definition parse_base_message :: "'j cJSON \<Rightarrow> string option \<Rightarrow> int option" where
  "parse_base_message J json' = (case json' of None \<Rightarrow> None
     | Some json \<Rightarrow> (case cJSON_Parse J json of None \<Rightarrow> None
     | Some node \<Rightarrow>
         let type_obj = cJSON_GetObjectItem J (Some node) ''type'' in
         if type_obj \<noteq> None \<and> cJSON_IsNumber J type_obj then map_option (valueint J) type_obj
         else if cJSON_GetObjectItem J (Some node) ''symbol'' \<noteq> None \<and>
                 cJSON_GetObjectItem J (Some node) ''bids'' \<noteq> None \<and>
                 cJSON_GetObjectItem J (Some node) ''asks'' \<noteq> None then Some MSG_BOOK_SNAPSHOT
         else if cJSON_GetObjectItem J (Some node) ''Trade Details'' \<noteq> None then Some MSG_ORDER_ACCEPTED
         else None))"

section \<open>Writing\<close>

text \<open>The result: the content of \<open>last_error\<close> afterwards and the text or NULL.\<close>

definition serialize_order_message ::
  "'j cJSON \<Rightarrow> char list \<Rightarrow> OrderMessage option \<Rightarrow> (char list \<times> string option) option" where
  "serialize_order_message J last_error order' = (case order' of
     None \<Rightarrow> Some (strncpy last_error ''Null order message'' 256, None)
   | Some m \<Rightarrow> (case cJSON_CreateObject J of None \<Rightarrow> Some (last_error, None)
     | Some r0 \<Rightarrow> do {
         oid \<leftarrow> c_string (om_order_id m);
         tid \<leftarrow> c_string (om_trader_id m);
         sy \<leftarrow> c_string (om_symbol m);
         let r1 = cJSON_AddStringToObject J (Some r0) ''order_id'' oid;
         let r2 = cJSON_AddStringToObject J r1 ''trader_id'' tid;
         let r3 = cJSON_AddStringToObject J r2 ''symbol'' sy;
         let r4 = cJSON_AddNumberToObject J r3 ''price'' (om_price m);
         let r5 = cJSON_AddNumberToObject J r4 ''quantity'' (d_of_int (om_quantity m));
         let r6 = cJSON_AddBoolToObject J r5 ''is_buy'' (om_is_buy m);
         Some (last_error, cJSON_Print J r6) }))"

text \<open>\<open>(double) n\<close> of a 64-bit integer rounds.\<close>

definition d_of_int64 :: "int \<Rightarrow> double" where
  "d_of_int64 n = round_double (of_int n)"

definition serialize_trade_message ::
  "'j cJSON \<Rightarrow> char list \<Rightarrow> TradeMessage option \<Rightarrow> (char list \<times> string option) option" where
  "serialize_trade_message J last_error trade' = (case trade' of
     None \<Rightarrow> Some (strncpy last_error ''Null trade message'' 256, None)
   | Some m \<Rightarrow> do {
       let r0 = cJSON_CreateObject J;
       sy \<leftarrow> c_string (tm_symbol m);
       bid \<leftarrow> c_string (tm_buy_order_id m);
       sid \<leftarrow> c_string (tm_sell_order_id m);
       let r1 = cJSON_AddStringToObject J r0 ''symbol'' sy;
       let r2 = cJSON_AddStringToObject J r1 ''buy_order_id'' bid;
       let r3 = cJSON_AddStringToObject J r2 ''sell_order_id'' sid;
       let r4 = cJSON_AddNumberToObject J r3 ''price'' (tm_price m);
       let r5 = cJSON_AddNumberToObject J r4 ''quantity'' (d_of_int (tm_quantity m));
       let r6 = cJSON_AddNumberToObject J r5 ''timestamp'' (d_of_int64 (tm_timestamp m));
       Some (last_error, cJSON_Print J r6) })"

text \<open>The loop over one side: the first \<open>k\<close> levels appended to the array node.\<close>

fun add_levels :: "'j cJSON \<Rightarrow> nat \<Rightarrow> double list \<Rightarrow> int list \<Rightarrow> 'j option \<Rightarrow> 'j option option" where
  "add_levels J 0 ps qs arr = Some arr"
| "add_levels J (Suc k) (p # ps) (q # qs) arr =
     (let o0 = cJSON_CreateObject J;
          o1 = cJSON_AddNumberToObject J o0 ''price'' p;
          o2 = cJSON_AddNumberToObject J o1 ''quantity'' (d_of_int q)
      in add_levels J k ps qs (cJSON_AddItemToArray J arr o2))"
| "add_levels J (Suc k) _ _ arr = None"

definition serialize_book_snapshot :: "'j cJSON \<Rightarrow> BookSnapshot option \<Rightarrow> string option option" where
  "serialize_book_snapshot J snapshot' = (case snapshot' of None \<Rightarrow> Some None
   | Some s \<Rightarrow> do {
       let r0 = cJSON_CreateObject J;
       sy \<leftarrow> c_string (bs_symbol s);
       let r1 = cJSON_AddStringToObject J r0 ''symbol'' sy;
       bids \<leftarrow> add_levels J (nat (num_bids s)) (array (bid_prices s)) (array (bid_quantities s)) (cJSON_CreateArray J);
       asks \<leftarrow> add_levels J (nat (num_asks s)) (array (ask_prices s)) (array (ask_quantities s)) (cJSON_CreateArray J);
       let r2 = cJSON_AddItemToObject J r1 ''bids'' bids;
       let r3 = cJSON_AddItemToObject J r2 ''asks'' asks;
       Some (cJSON_Print J r3) })"

section \<open>Reading\<close>

definition parse_order_message ::
  "'j cJSON \<Rightarrow> string option \<Rightarrow> OrderMessage option \<Rightarrow> (bool \<times> OrderMessage option) option" where
  "parse_order_message J json' order' = (case (json', order') of
     (Some json, Some m) \<Rightarrow> (case cJSON_Parse J json of None \<Rightarrow> Some (False, order')
     | Some node \<Rightarrow>
        (case (cJSON_GetObjectItem J (Some node) ''order_id'', cJSON_GetObjectItem J (Some node) ''trader_id'',
               cJSON_GetObjectItem J (Some node) ''symbol'', cJSON_GetObjectItem J (Some node) ''price'',
               cJSON_GetObjectItem J (Some node) ''quantity'', cJSON_GetObjectItem J (Some node) ''is_buy'') of
           (Some oi, Some ti, Some si, Some pr, Some qi, Some bi) \<Rightarrow> do {
             oid \<leftarrow> valuestring J oi;
             tid \<leftarrow> valuestring J ti;
             sy \<leftarrow> valuestring J si;
             Some (True, Some (m\<lparr>om_order_id := strncpy (om_order_id m) oid 31,
                                om_trader_id := strncpy (om_trader_id m) tid 31,
                                om_symbol := strncpy (om_symbol m) sy 15,
                                om_price := valuedouble J pr,
                                om_quantity := valueint J qi,
                                om_is_buy := cJSON_IsTrue J (Some bi)\<rparr>)) }
         | _ \<Rightarrow> Some (False, order')))
   | _ \<Rightarrow> Some (False, order'))"

text \<open>\<open>(int64_t) d\<close> drops the fraction; out of range it is undefined.\<close>

definition double_to_int64 :: "double \<Rightarrow> int option" where
  "double_to_int64 d = (case d of Fin q \<Rightarrow>
      (let n = (if 0 \<le> q then \<lfloor>q\<rfloor> else \<lceil>q\<rceil>) in if fits 64 n then Some n else None)
    | _ \<Rightarrow> None)"

definition parse_trade_message ::
  "'j cJSON \<Rightarrow> string option \<Rightarrow> TradeMessage option \<Rightarrow> (bool \<times> TradeMessage option) option" where
  "parse_trade_message J json' trade' = (case (json', trade') of
     (Some json, Some m) \<Rightarrow> (case cJSON_Parse J json of None \<Rightarrow> Some (False, trade')
     | Some node \<Rightarrow>
        (case (cJSON_GetObjectItem J (Some node) ''symbol'', cJSON_GetObjectItem J (Some node) ''buy_order_id'',
               cJSON_GetObjectItem J (Some node) ''sell_order_id'', cJSON_GetObjectItem J (Some node) ''price'',
               cJSON_GetObjectItem J (Some node) ''quantity'', cJSON_GetObjectItem J (Some node) ''timestamp'') of
           (Some si, Some bi, Some li, Some pr, Some qi, Some ti) \<Rightarrow> do {
             sy \<leftarrow> valuestring J si;
             bid \<leftarrow> valuestring J bi;
             sid \<leftarrow> valuestring J li;
             ts \<leftarrow> double_to_int64 (valuedouble J ti);
             Some (True, Some (m\<lparr>tm_symbol := strncpy (tm_symbol m) sy 15,
                                tm_buy_order_id := strncpy (tm_buy_order_id m) bid 31,
                                tm_sell_order_id := strncpy (tm_sell_order_id m) sid 31,
                                tm_price := valuedouble J pr,
                                tm_quantity := valueint J qi,
                                tm_timestamp := ts\<rparr>)) }
         | _ \<Rightarrow> Some (False, trade')))
   | _ \<Rightarrow> Some (False, trade'))"

record snapshot_mem =
  bid_price_mem :: "nat \<Rightarrow> double list option"
  bid_quantity_mem :: "nat \<Rightarrow> int list option"
  ask_price_mem :: "nat \<Rightarrow> double list option"
  ask_quantity_mem :: "nat \<Rightarrow> int list option"

text \<open>The loop over one side: levels \<open>i\<close> to \<open>i + k - 1\<close> of the array node.\<close>

fun parse_levels :: "'j cJSON \<Rightarrow> 'j option \<Rightarrow> nat \<Rightarrow> nat \<Rightarrow> double list \<times> int list \<Rightarrow> double list \<times> int list" where
  "parse_levels J arr i 0 lv = lv"
| "parse_levels J arr i (Suc k) (ps, qs) =
     (let item = cJSON_GetArrayItem J arr (int i) in
      parse_levels J arr (Suc i) k
        (case (cJSON_GetObjectItem J item ''price'', cJSON_GetObjectItem J item ''quantity'') of
           (Some p, Some q) \<Rightarrow> (ps[i := valuedouble J p], qs[i := valueint J q])
         | _ \<Rightarrow> (ps, qs)))"

definition parse_book_snapshot ::
  "'j cJSON \<Rightarrow> snapshot_mem \<Rightarrow> string option \<Rightarrow> BookSnapshot option \<Rightarrow> (bool \<times> BookSnapshot option) option" where
  "parse_book_snapshot J mem json' snapshot' = (case (json', snapshot') of
     (Some json, Some m) \<Rightarrow> (case cJSON_Parse J json of None \<Rightarrow> Some (False, snapshot')
     | Some node \<Rightarrow>
         let bids = cJSON_GetObjectItem J (Some node) ''bids''; asks = cJSON_GetObjectItem J (Some node) ''asks'' in
         (case cJSON_GetObjectItem J (Some node) ''symbol'' of None \<Rightarrow> Some (False, snapshot')
          | Some si \<Rightarrow>
              if bids = None \<or> asks = None \<or> \<not> cJSON_IsArray J bids \<or> \<not> cJSON_IsArray J asks then Some (False, snapshot')
              else do {
                sy \<leftarrow> valuestring J si;
                let nb = cJSON_GetArraySize J bids;
                let na = cJSON_GetArraySize J asks;
                let bp = bid_price_mem mem (nat nb);
                let bq = bid_quantity_mem mem (nat nb);
                let ap = ask_price_mem mem (nat na);
                let aq = ask_quantity_mem mem (nat na);
                let m1 = m\<lparr>bs_symbol := strncpy (bs_symbol m) sy 15, num_bids := nb, num_asks := na,
                            bid_prices := bp, bid_quantities := bq, ask_prices := ap, ask_quantities := aq\<rparr>;
                (case (bp, bq, ap, aq) of
                   (Some bps, Some bqs, Some aps, Some aqs) \<Rightarrow>
                     (case (parse_levels J bids 0 (nat nb) (bps, bqs), parse_levels J asks 0 (nat na) (aps, aqs)) of
                       ((bps', bqs'), (aps', aqs')) \<Rightarrow>
                         Some (True, Some (m1\<lparr>bid_prices := Some bps', bid_quantities := Some bqs',
                                             ask_prices := Some aps', ask_quantities := Some aqs'\<rparr>)))
                 | _ \<Rightarrow> Some (False, Some m1)) }))
   | _ \<Rightarrow> Some (False, snapshot'))"

definition get_last_protocol_error :: "char list \<Rightarrow> char list" where
  "get_last_protocol_error last_error = last_error"

section \<open>Round trips\<close>

lemma d_of_int_value: "d_of_int n = Fin (of_int n)"
  by (simp add: d_of_int_def)

lemma add_levels_take: "add_levels J k (take k ps) (take k qs) e = add_levels J k ps qs e"
  by (induction J k ps qs e rule: add_levels.induct) auto

text \<open>The levels a snapshot holds on each side.\<close>

definition bid_levels :: "BookSnapshot \<Rightarrow> double list \<times> int list" where
  "bid_levels s = (take (nat (num_bids s)) (array (bid_prices s)), take (nat (num_bids s)) (array (bid_quantities s)))"

definition ask_levels :: "BookSnapshot \<Rightarrow> double list \<times> int list" where
  "ask_levels s = (take (nat (num_asks s)) (array (ask_prices s)), take (nat (num_asks s)) (array (ask_quantities s)))"

fun finite_double :: "double \<Rightarrow> bool" where
  "finite_double (Fin _) = True"
| "finite_double _ = False"

text \<open>As many levels as announced, with \<open>int\<close> quantities, and, in a snapshot that can be written, with finite prices.\<close>

definition levels_fit :: "int \<Rightarrow> double list \<times> int list \<Rightarrow> bool" where
  "levels_fit n lv \<longleftrightarrow> 0 \<le> n \<and> length (fst lv) = nat n \<and> length (snd lv) = nat n \<and> list_all (fits 32) (snd lv)"

definition levels_ok :: "int \<Rightarrow> double list \<times> int list \<Rightarrow> bool" where
  "levels_ok n lv \<longleftrightarrow> 0 \<le> n \<and> length (fst lv) = nat n \<and> length (snd lv) = nat n \<and>
     list_all finite_double (fst lv) \<and> list_all (fits 32) (snd lv)"

definition snapshot_ok :: "BookSnapshot \<Rightarrow> bool" where
  "snapshot_ok s \<longleftrightarrow> levels_ok (num_bids s) (bid_levels s) \<and> levels_ok (num_asks s) (ask_levels s)"

text \<open>Every allocation succeeds with the size asked for.\<close>

definition mem_ok :: "snapshot_mem \<Rightarrow> bool" where
  "mem_ok mem \<longleftrightarrow> (\<forall>n. (\<exists>xs. bid_price_mem mem n = Some xs \<and> length xs = n) \<and>
     (\<exists>xs. bid_quantity_mem mem n = Some xs \<and> length xs = n) \<and>
     (\<exists>xs. ask_price_mem mem n = Some xs \<and> length xs = n) \<and>
     (\<exists>xs. ask_quantity_mem mem n = Some xs \<and> length xs = n))"

definition level_json :: "double list \<times> int list \<Rightarrow> json" where
  "level_json lv = JArr (map2 (\<lambda>p q. JObj [(''price'', JNum p), (''quantity'', JNum (Fin (of_int q)))]) (fst lv) (snd lv))"

text \<open>The levels with the prices that are read back.\<close>

definition reread_levels :: "(double \<Rightarrow> double) \<Rightarrow> double list \<times> int list \<Rightarrow> double list \<times> int list" where
  "reread_levels f lv = (map f (fst lv), snd lv)"

lemma levels_fit_reread: "levels_ok n lv \<Longrightarrow> levels_fit n (reread_levels f lv)"
  by (simp add: levels_ok_def levels_fit_def reread_levels_def)

lemma nested_level_json: "nested_le 999 (level_json lv)"
  by (auto simp: level_json_def list_all_iff in_set_zip)

lemma finite_level_json: "list_all finite_double (fst lv) \<Longrightarrow> finite_json (level_json lv)"
proof -
  have "list_all finite_json (map2 (\<lambda>p q. JObj [(''price'', JNum p), (''quantity'', JNum (Fin (of_int q)))]) ps qs)"
    if "list_all finite_double ps" for ps :: "double list" and qs :: "int list"
    using that
  proof (induction ps arbitrary: qs)
    case (Cons p ps)
    then show ?case by (cases p; cases qs) auto
  qed simp
  then show "list_all finite_double (fst lv) \<Longrightarrow> ?thesis" by (simp add: level_json_def)
qed

context cjson_nodes
begin

text \<open>What the reader makes of an object with the six fields, whatever comes after them.\<close>

lemma parse_order_message_fields:
  assumes "cJSON_Parse J t = Some j"
    and "json_get (view j) ''order_id'' = Some (JStr oid)" "json_get (view j) ''trader_id'' = Some (JStr tid)"
      "json_get (view j) ''symbol'' = Some (JStr sy)" "json_get (view j) ''price'' = Some (JNum p)"
      "json_get (view j) ''quantity'' = Some (JNum (Fin (of_int q)))" "json_get (view j) ''is_buy'' = Some (JBool b)"
    and "fits 32 q"
  shows "parse_order_message J (Some t) (Some m) = Some (True, Some (m\<lparr>
    om_order_id := strncpy (om_order_id m) oid 31, om_trader_id := strncpy (om_trader_id m) tid 31,
    om_symbol := strncpy (om_symbol m) sy 15, om_price := p, om_quantity := q, om_is_buy := b\<rparr>))"
proof -
  obtain oi where 1: "cJSON_GetObjectItem J (Some j) ''order_id'' = Some oi" "view oi = JStr oid"
    using assms(2) by (rule get_item_Some)
  obtain ti where 2: "cJSON_GetObjectItem J (Some j) ''trader_id'' = Some ti" "view ti = JStr tid"
    using assms(3) by (rule get_item_Some)
  obtain si where 3: "cJSON_GetObjectItem J (Some j) ''symbol'' = Some si" "view si = JStr sy"
    using assms(4) by (rule get_item_Some)
  obtain pr where 4: "cJSON_GetObjectItem J (Some j) ''price'' = Some pr" "view pr = JNum p"
    using assms(5) by (rule get_item_Some)
  obtain qi where 5: "cJSON_GetObjectItem J (Some j) ''quantity'' = Some qi" "view qi = JNum (Fin (of_int q))"
    using assms(6) by (rule get_item_Some)
  obtain bi where 6: "cJSON_GetObjectItem J (Some j) ''is_buy'' = Some bi" "view bi = JBool b"
    using assms(7) by (rule get_item_Some)
  from 1 2 3 4 5 6 assms(1,8) show ?thesis
    by (simp add: parse_order_message_def string_value double_value int_value is_true)
qed

lemma parse_levels_array:
  assumes "view a = JArr (map2 (\<lambda>p q. JObj [(''price'', JNum p), (''quantity'', JNum (Fin (of_int q)))]) ps qs)"
    and "length ps = length qs" "\<forall>q \<in> set qs. fits 32 q" "i + k = length ps" "length xs = length ps" "length ys = length ps"
  shows "parse_levels J (Some a) i k (xs, ys) = (take i xs @ drop i ps, take i ys @ drop i qs)"
  using assms(4-6)
proof (induction k arbitrary: i xs ys)
  case (Suc k)
  have i: "i < length ps" "i < length qs" using Suc.prems(1) assms(2) by auto
  let ?v = "JObj [(''price'', JNum (ps ! i)), (''quantity'', JNum (Fin (of_int (qs ! i))))]"
  have "map_option view (cJSON_GetArrayItem J (Some a) (int i)) = Some ?v"
    using array_item [OF assms(1), of i] i by simp
  then obtain it where it: "cJSON_GetArrayItem J (Some a) (int i) = Some it" "view it = ?v" by auto
  obtain pr where pr: "cJSON_GetObjectItem J (Some it) ''price'' = Some pr" "view pr = JNum (ps ! i)"
    by (rule get_item_Some [of it "''price''"]) (auto simp: it(2))
  obtain qi where qi: "cJSON_GetObjectItem J (Some it) ''quantity'' = Some qi" "view qi = JNum (Fin (of_int (qs ! i)))"
    by (rule get_item_Some [of it "''quantity''"]) (auto simp: it(2) strcaseeq_def tolower_def isupper_def code_def)
  have "fits 32 (qs ! i)" using assms(3) i by simp
  then have "parse_levels J (Some a) i (Suc k) (xs, ys) = parse_levels J (Some a) (Suc i) k (xs[i := ps ! i], ys[i := qs ! i])"
    using it pr qi by (simp add: double_value int_value)
  also have "\<dots> = (take (Suc i) (xs[i := ps ! i]) @ drop (Suc i) ps, take (Suc i) (ys[i := qs ! i]) @ drop (Suc i) qs)"
    using Suc.prems by (intro Suc.IH) auto
  also have "\<dots> = (take i xs @ drop i ps, take i ys @ drop i qs)"
    using i Suc.prems assms(2) by (simp add: take_Suc_conv_app_nth Cons_nth_drop_Suc)
  finally show ?case .
qed (use assms(2) in simp)

lemma parse_side:
  assumes "view a = level_json lv" "levels_fit n lv" "length xs = nat n" "length ys = nat n"
  shows "cJSON_IsArray J (Some a)" "cJSON_GetArraySize J (Some a) = n" "parse_levels J (Some a) 0 (nat n) (xs, ys) = lv"
proof -
  show "cJSON_IsArray J (Some a)" using assms(1) by (simp add: is_array level_json_def)
  show "cJSON_GetArraySize J (Some a) = n"
    using array_size [OF assms(1) [unfolded level_json_def]] assms(2) by (simp add: levels_fit_def)
  show "parse_levels J (Some a) 0 (nat n) (xs, ys) = lv"
  proof -
    have l: "length (fst lv) = nat n" "length (snd lv) = nat n" "\<forall>q \<in> set (snd lv). fits 32 q"
      using assms(2) by (auto simp: levels_fit_def list_all_iff)
    have "parse_levels J (Some a) 0 (nat n) (xs, ys) = (take 0 xs @ drop 0 (fst lv), take 0 ys @ drop 0 (snd lv))"
      by (rule parse_levels_array [OF assms(1) [unfolded level_json_def]]) (use l(3) in \<open>simp_all only: l(1,2) assms(3,4) add_0\<close>)
    then show ?thesis by simp
  qed
qed

end

context cjson_api
begin

lemma order_message_text:
  assumes "c_string (om_order_id m) = Some oid" "c_string (om_trader_id m) = Some tid" "c_string (om_symbol m) = Some sy"
    and "om_price m = Fin p" "fits 32 (om_quantity m)"
  obtains t j where "serialize_order_message J le (Some m) = Some (le, Some t)" "cJSON_Parse J t = Some j"
    "view j = JObj [(''order_id'', JStr oid), (''trader_id'', JStr tid), (''symbol'', JStr sy), (''price'', JNum (reread (Fin p))),
       (''quantity'', JNum (Fin (of_int (om_quantity m)))), (''is_buy'', JBool (om_is_buy m))]"
proof -
  obtain r0 where r0: "cJSON_CreateObject J = Some r0" "view r0 = JObj []" using create_object by blast
  have r6: "node_is view
      (cJSON_AddBoolToObject J (cJSON_AddNumberToObject J (cJSON_AddNumberToObject J (cJSON_AddStringToObject J
        (cJSON_AddStringToObject J (cJSON_AddStringToObject J (Some r0) ''order_id'' oid) ''trader_id'' tid)
        ''symbol'' sy) ''price'' (om_price m)) ''quantity'' (d_of_int (om_quantity m))) ''is_buy'' (om_is_buy m))
      (JObj (((((([] @ [(''order_id'', JStr oid)]) @ [(''trader_id'', JStr tid)]) @ [(''symbol'', JStr sy)]) @
        [(''price'', JNum (Fin p))]) @ [(''quantity'', JNum (Fin (of_int (om_quantity m))))]) @
        [(''is_buy'', JBool (om_is_buy m))]))"
    unfolding assms(4) d_of_int_value by (intro node_add) (simp add: node_is_def r0)
  obtain t j where "cJSON_Print J (cJSON_AddBoolToObject J (cJSON_AddNumberToObject J (cJSON_AddNumberToObject J (cJSON_AddStringToObject J
        (cJSON_AddStringToObject J (cJSON_AddStringToObject J (Some r0) ''order_id'' oid) ''trader_id'' tid)
        ''symbol'' sy) ''price'' (om_price m)) ''quantity'' (d_of_int (om_quantity m))) ''is_buy'' (om_is_buy m)) = Some t"
      "cJSON_Parse J t = Some j" "view j = JObj [(''order_id'', JStr oid), (''trader_id'', JStr tid), (''symbol'', JStr sy),
        (''price'', JNum (reread (Fin p))), (''quantity'', JNum (Fin (of_int (om_quantity m)))), (''is_buy'', JBool (om_is_buy m))]"
    by (rule node_print_parse [OF r6]) (auto simp: reread_int [OF assms(5)])
  with that show ?thesis
    using assms r0(1) by (simp add: serialize_order_message_def)
qed

lemma trade_message_text:
  assumes "c_string (tm_symbol m) = Some sy" "c_string (tm_buy_order_id m) = Some bid" "c_string (tm_sell_order_id m) = Some sid"
    and "tm_price m = Fin p" "\<bar>tm_timestamp m\<bar> < 2 ^ 53"
  obtains t j where "serialize_trade_message J le (Some m) = Some (le, Some t)" "cJSON_Parse J t = Some j"
    "view j = JObj [(''symbol'', JStr sy), (''buy_order_id'', JStr bid), (''sell_order_id'', JStr sid), (''price'', JNum (reread (Fin p))),
       (''quantity'', JNum (reread (Fin (of_int (tm_quantity m))))), (''timestamp'', JNum (reread (Fin (of_int (tm_timestamp m)))))]"
proof -
  let ?e = "cJSON_AddNumberToObject J (cJSON_AddNumberToObject J (cJSON_AddNumberToObject J (cJSON_AddStringToObject J
      (cJSON_AddStringToObject J (cJSON_AddStringToObject J (cJSON_CreateObject J) ''symbol'' sy) ''buy_order_id'' bid)
      ''sell_order_id'' sid) ''price'' (Fin p)) ''quantity'' (Fin (of_int (tm_quantity m)))) ''timestamp'' (Fin (of_int (tm_timestamp m)))"
  have e: "node_is view ?e (JObj (((((([] @ [(''symbol'', JStr sy)]) @ [(''buy_order_id'', JStr bid)]) @ [(''sell_order_id'', JStr sid)]) @
      [(''price'', JNum (Fin p))]) @ [(''quantity'', JNum (Fin (of_int (tm_quantity m))))]) @
      [(''timestamp'', JNum (Fin (of_int (tm_timestamp m))))]))"
    by (intro node_build)
  obtain t j where "cJSON_Print J ?e = Some t" "cJSON_Parse J t = Some j" "view j = JObj [(''symbol'', JStr sy), (''buy_order_id'', JStr bid),
      (''sell_order_id'', JStr sid), (''price'', JNum (reread (Fin p))), (''quantity'', JNum (reread (Fin (of_int (tm_quantity m))))),
      (''timestamp'', JNum (reread (Fin (of_int (tm_timestamp m)))))]"
    by (rule node_print_parse [OF e]) auto
  with that show ?thesis
    using assms by (simp add: serialize_trade_message_def d_of_int_value d_of_int64_def round_double_of_int)
qed

text \<open>The levels of one side of a snapshot.\<close>

lemma add_levels_node:
  assumes "node_is view e (JArr vs)" "length ps = length qs"
  shows "\<exists>e'. add_levels J (length ps) ps qs e = Some e' \<and>
    node_is view e' (JArr (vs @ map2 (\<lambda>p q. JObj [(''price'', JNum p), (''quantity'', JNum (Fin (of_int q)))]) ps qs))"
  using assms(2,1)
proof (induction ps qs arbitrary: e vs rule: list_induct2)
  case (Cons p ps q qs)
  have "node_is view (cJSON_AddNumberToObject J (cJSON_AddNumberToObject J (cJSON_CreateObject J) ''price'' p) ''quantity'' (d_of_int q))
      (JObj (([] @ [(''price'', JNum p)]) @ [(''quantity'', JNum (Fin (of_int q)))]))"
    unfolding d_of_int_value by (intro node_build)
  from Cons.IH [OF node_add(5) [OF Cons.prems this]] show ?case by simp
qed simp

lemma side_node:
  assumes "levels_ok n (take (nat n) ps, take (nat n) qs)"
  obtains e where "add_levels J (nat n) ps qs (cJSON_CreateArray J) = Some e"
    "node_is view e (level_json (take (nat n) ps, take (nat n) qs))"
proof -
  have l: "length (take (nat n) ps) = nat n" "length (take (nat n) ps) = length (take (nat n) qs)"
    using assms by (simp_all add: levels_ok_def)
  from add_levels_node [OF node_create(2) l(2)] that show ?thesis
    unfolding l(1) add_levels_take level_json_def by auto
qed

lemma renumber_level_json:
  assumes "list_all (fits 32) (snd lv)"
  shows "renumber reread (level_json lv) = level_json (reread_levels reread lv)"
proof -
  have "map (renumber reread) (map2 (\<lambda>p q. JObj [(''price'', JNum p), (''quantity'', JNum (Fin (of_int q)))]) ps qs) =
      map2 (\<lambda>p q. JObj [(''price'', JNum p), (''quantity'', JNum (Fin (of_int q)))]) (map reread ps) qs"
    if "list_all (fits 32) qs" for ps qs
    using that
  proof (induction ps arbitrary: qs)
    case (Cons p ps)
    then show ?case by (cases qs) (auto simp: reread_int)
  qed simp
  from this [OF assms] show ?thesis by (simp add: level_json_def reread_levels_def)
qed

lemma snapshot_text:
  assumes "snapshot_ok s" "c_string (bs_symbol s) = Some sy"
  obtains t j where "serialize_book_snapshot J (Some s) = Some (Some t)" "cJSON_Parse J t = Some j"
    "view j = JObj [(''symbol'', JStr sy), (''bids'', level_json (reread_levels reread (bid_levels s))),
       (''asks'', level_json (reread_levels reread (ask_levels s)))]" "NUL \<notin> set t"
proof -
  obtain b where b: "add_levels J (nat (num_bids s)) (array (bid_prices s)) (array (bid_quantities s)) (cJSON_CreateArray J) = Some b"
      "node_is view b (level_json (bid_levels s))"
    using assms(1) side_node unfolding snapshot_ok_def bid_levels_def by metis
  obtain a where a: "add_levels J (nat (num_asks s)) (array (ask_prices s)) (array (ask_quantities s)) (cJSON_CreateArray J) = Some a"
      "node_is view a (level_json (ask_levels s))"
    using assms(1) side_node unfolding snapshot_ok_def ask_levels_def by metis
  let ?e = "cJSON_AddItemToObject J (cJSON_AddItemToObject J (cJSON_AddStringToObject J (cJSON_CreateObject J) ''symbol'' sy) ''bids'' b) ''asks'' a"
  have e: "node_is view ?e (JObj ((([] @ [(''symbol'', JStr sy)]) @ [(''bids'', level_json (bid_levels s))]) @ [(''asks'', level_json (ask_levels s))]))"
    by (intro node_build a(2) b(2))
  have fin: "finite_json (level_json (bid_levels s))" "finite_json (level_json (ask_levels s))"
    using assms(1) finite_level_json by (auto simp: snapshot_ok_def levels_ok_def)
  obtain t j where "cJSON_Print J ?e = Some t" "cJSON_Parse J t = Some j"
      "view j = JObj [(''symbol'', JStr sy), (''bids'', level_json (reread_levels reread (bid_levels s))),
         (''asks'', level_json (reread_levels reread (ask_levels s)))]"
    by (rule node_print_parse [OF e]) (use fin assms(1) in \<open>auto simp: nested_level_json renumber_level_json snapshot_ok_def levels_ok_def\<close>)
  moreover have "serialize_book_snapshot J (Some s) = Some (cJSON_Print J ?e)"
    using assms(2) a(1) b(1) by (simp add: serialize_book_snapshot_def)
  ultimately show ?thesis using that print_text by metis
qed

lemma snapshot_read_back:
  assumes "snapshot_ok s" "c_string (bs_symbol s) = Some sy" "length sy < 15" "mem_ok mem"
  shows "\<exists>t m'. serialize_book_snapshot J (Some s) = Some (Some t) \<and>
    parse_book_snapshot J mem (Some t) (Some m) = Some (True, Some m') \<and>
    c_string (bs_symbol m') = Some sy \<and> num_bids m' = num_bids s \<and> num_asks m' = num_asks s \<and>
    bid_levels m' = reread_levels reread (bid_levels s) \<and> ask_levels m' = reread_levels reread (ask_levels s)"
proof -
  let ?B = "reread_levels reread (bid_levels s)" and ?A = "reread_levels reread (ask_levels s)"
  obtain t j where tj: "serialize_book_snapshot J (Some s) = Some (Some t)" "cJSON_Parse J t = Some j"
    "view j = JObj [(''symbol'', JStr sy), (''bids'', level_json ?B), (''asks'', level_json ?A)]"
    by (rule snapshot_text [OF assms(1,2)])
  note cmp = strcaseeq_def tolower_def isupper_def code_def
  obtain si where si: "cJSON_GetObjectItem J (Some j) ''symbol'' = Some si" "view si = JStr sy"
    by (rule get_item_Some [of j "''symbol''"]) (auto simp: tj(3))
  obtain b where b: "cJSON_GetObjectItem J (Some j) ''bids'' = Some b" "view b = level_json ?B"
    by (rule get_item_Some [of j "''bids''"]) (auto simp: tj(3) cmp)
  obtain a where a: "cJSON_GetObjectItem J (Some j) ''asks'' = Some a" "view a = level_json ?A"
    by (rule get_item_Some [of j "''asks''"]) (auto simp: tj(3) cmp)
  have ok: "levels_fit (num_bids s) ?B" "levels_fit (num_asks s) ?A"
    using assms(1) levels_fit_reread by (simp_all add: snapshot_ok_def)
  obtain bp bq ap aq where m4: "bid_price_mem mem (nat (num_bids s)) = Some bp" "length bp = nat (num_bids s)"
    "bid_quantity_mem mem (nat (num_bids s)) = Some bq" "length bq = nat (num_bids s)"
    "ask_price_mem mem (nat (num_asks s)) = Some ap" "length ap = nat (num_asks s)"
    "ask_quantity_mem mem (nat (num_asks s)) = Some aq" "length aq = nat (num_asks s)"
    using assms(4) unfolding mem_ok_def by metis
  note B = parse_side [OF b(2) ok(1) m4(2,4)] and A = parse_side [OF a(2) ok(2) m4(6,8)]
  have nul: "NUL \<notin> set sy" by (rule c_string_no_NUL [OF assms(2)])
  obtain b1 b2 a1 a2 where lv: "?B = (b1, b2)" "?A = (a1, a2)" by fastforce
  define m' where "m' = m\<lparr>bs_symbol := strncpy (bs_symbol m) sy 15, num_bids := num_bids s, num_asks := num_asks s,
    bid_prices := Some b1, bid_quantities := Some b2, ask_prices := Some a1, ask_quantities := Some a2\<rparr>"
  have "parse_book_snapshot J mem (Some t) (Some m) = Some (True, Some m')"
    using tj(2) si b(1) a(1) A B m4 lv by (simp add: parse_book_snapshot_def string_value m'_def)
  moreover have "bid_levels m' = (b1, b2)" "ask_levels m' = (a1, a2)"
    using ok unfolding bid_levels_def [of m'] ask_levels_def [of m']
    by (simp_all add: m'_def lv array_def levels_fit_def)
  moreover have "c_string (bs_symbol m') = Some sy"
    using c_string_strncpy_short [OF nul assms(3)] by (simp add: m'_def)
  ultimately show ?thesis
    using tj(1) lv by (intro exI [of _ t] exI [of _ m']) (simp add: m'_def)
qed

end

end
