(* ===== verification/Client_Commands.thy ===== *)
theory Client_Commands
  imports Json_Protocol
begin

text \<open>
  \<open>src/client/client_commands.c\<close>: reading a command line and writing it as a message. The character
  arrays of a command are zeroed and terminated, so they are strings. \<open>now\<close> is \<open>time(NULL)\<close>.
\<close>

section \<open>Commands\<close>

datatype CommandType = CMD_BUY | CMD_SELL | CMD_CANCEL | CMD_VIEW | CMD_HELP | CMD_QUIT | CMD_INVALID

record Command =
  cmd_type :: CommandType
  cmd_symbol :: string
  cmd_price :: double
  cmd_quantity :: int
  cmd_order_id :: string

definition generate_order_id :: "int \<Rightarrow> nat \<Rightarrow> string" where
  "generate_order_id now n = snprintf n (''ORD'' @ show_int now)"

definition blanks :: string where
  "blanks = [CHR 0x20, CHR 0x09, CHR 0x0A]"

definition no_command :: Command where
  "no_command = \<lparr>cmd_type = CMD_INVALID, cmd_symbol = [], cmd_price = Fin 0, cmd_quantity = 0, cmd_order_id = []\<rparr>"

text \<open>The keyword of a command, without regard to case.\<close>

definition command_word :: "string \<Rightarrow> CommandType" where
  "command_word token =
     (if strcaseeq token ''BUY'' then CMD_BUY
      else if strcaseeq token ''SELL'' then CMD_SELL
      else if strcaseeq token ''CANCEL'' then CMD_CANCEL
      else if strcaseeq token ''VIEW'' then CMD_VIEW
      else if strcaseeq token ''HELP'' then CMD_HELP
      else if strcaseeq token ''QUIT'' then CMD_QUIT
      else CMD_INVALID)"

text \<open>The price, the quantity and the new id of a buy or sell order; \<open>rest\<close> is the text after the symbol.\<close>

definition parse_price_quantity :: "int \<Rightarrow> Command \<Rightarrow> string \<Rightarrow> Command" where
  "parse_price_quantity now cmd rest = (case strtok blanks rest of
     None \<Rightarrow> cmd\<lparr>cmd_type := CMD_INVALID\<rparr>
   | Some (t1, r1) \<Rightarrow>
       let cmd1 = cmd\<lparr>cmd_price := atof t1\<rparr> in
       if \<not> validate_price (cmd_price cmd1) then cmd1\<lparr>cmd_type := CMD_INVALID\<rparr>
       else (case strtok blanks r1 of
          None \<Rightarrow> cmd1\<lparr>cmd_type := CMD_INVALID\<rparr>
        | Some (t2, r2) \<Rightarrow>
            let cmd2 = cmd1\<lparr>cmd_quantity := atoi t2\<rparr> in
            if \<not> validate_quantity (cmd_quantity cmd2) then cmd2\<lparr>cmd_type := CMD_INVALID\<rparr>
            else cmd2\<lparr>cmd_order_id := generate_order_id now 32\<rparr>))"

definition parse_command :: "int \<Rightarrow> string option \<Rightarrow> Command" where
  "parse_command now input' = (case input' of None \<Rightarrow> no_command
   | Some input \<Rightarrow> (case strtok blanks (copy_field 256 input) of
       None \<Rightarrow> no_command
     | Some (t0, r0) \<Rightarrow>
         let cmd = no_command\<lparr>cmd_type := command_word t0\<rparr> in
         if cmd_type cmd \<in> {CMD_HELP, CMD_QUIT, CMD_INVALID} then cmd
         else (case strtok blanks r0 of
            None \<Rightarrow> cmd\<lparr>cmd_type := CMD_INVALID\<rparr>
          | Some (t1, r1) \<Rightarrow>
              let cmd1 = cmd\<lparr>cmd_symbol := copy_field 16 t1\<rparr> in
              if cmd_type cmd1 = CMD_VIEW then cmd1
              else if cmd_type cmd1 = CMD_CANCEL then cmd1\<lparr>cmd_order_id := copy_field 32 t1\<rparr>
              else parse_price_quantity now cmd1 r1)))"

section \<open>The message of a command\<close>

definition format_command_as_json :: "'j cJSON \<Rightarrow> Command \<Rightarrow> string \<Rightarrow> string option" where
  "format_command_as_json J cmd trader_id = (case cJSON_CreateObject J of None \<Rightarrow> None
   | Some r0 \<Rightarrow>
       if cmd_type cmd = CMD_BUY \<or> cmd_type cmd = CMD_SELL then
         let r1 = cJSON_AddNumberToObject J (Some r0) ''type'' (d_of_int MSG_PLACE_ORDER);
             r2 = cJSON_AddStringToObject J r1 ''order_id'' (cmd_order_id cmd);
             r3 = cJSON_AddStringToObject J r2 ''trader_id'' trader_id;
             r4 = cJSON_AddStringToObject J r3 ''symbol'' (cmd_symbol cmd);
             r5 = cJSON_AddNumberToObject J r4 ''price'' (cmd_price cmd);
             r6 = cJSON_AddNumberToObject J r5 ''quantity'' (d_of_int (cmd_quantity cmd));
             r7 = cJSON_AddBoolToObject J r6 ''is_buy'' (cmd_type cmd = CMD_BUY)
         in cJSON_Print J r7
       else if cmd_type cmd = CMD_VIEW then
         let r1 = cJSON_AddNumberToObject J (Some r0) ''type'' (d_of_int MSG_REQUEST_BOOK);
             r2 = cJSON_AddStringToObject J r1 ''symbol'' (cmd_symbol cmd)
         in cJSON_Print J r2
       else None)"

definition lf :: string where
  "lf = [CHR 0x0A]"

definition print_command_help :: string where
  "print_command_help = lf @ ''Available commands:'' @ lf @
     ''  BUY <symbol> <price> <quantity>'' @ lf @
     ''  SELL <symbol> <price> <quantity>'' @ lf @
     ''  CANCEL <order_id>'' @ lf @
     ''  VIEW <symbol>'' @ lf @
     ''  HELP'' @ lf @
     ''  QUIT'' @ lf @ lf"

section \<open>Well-formed commands\<close>

text \<open>What a command that was not rejected satisfies.\<close>

definition command_ok :: "Command \<Rightarrow> bool" where
  "command_ok cmd \<longleftrightarrow> length (cmd_symbol cmd) < 16 \<and> length (cmd_order_id cmd) < 32 \<and>
     (cmd_type cmd \<in> {CMD_BUY, CMD_SELL} \<longrightarrow>
        cmd_symbol cmd \<noteq> [] \<and> validate_price (cmd_price cmd) \<and> validate_quantity (cmd_quantity cmd))"

lemma parse_command_ok: "command_ok (parse_command now input)"
proof -
  have ids: "length (generate_order_id now 32) < 32" by (simp add: generate_order_id_def length_snprintf)
  have cf: "length (copy_field 16 t) < 16" "length (copy_field 32 t) < 32" for t by (simp_all add: length_copy_field)
  have other: "command_ok \<lparr>cmd_type = ty, cmd_symbol = s, cmd_price = p, cmd_quantity = q, cmd_order_id = i\<rparr>"
    if "ty \<notin> {CMD_BUY, CMD_SELL}" "length s < 16" "length i < 32" for ty s p q i
    using that by (auto simp: command_ok_def)
  have pq: "command_ok (parse_price_quantity now (no_command\<lparr>cmd_type := ty, cmd_symbol := copy_field 16 t\<rparr>) r)"
    if "t \<noteq> []" for ty t r
    using ids cf(1) [of t] that
    by (auto simp: parse_price_quantity_def command_ok_def no_command_def Let_def copy_field_def split: option.splits prod.splits)
  show ?thesis
    using cf pq strtok_token(1)
    by (auto simp: parse_command_def Let_def no_command_def intro!: other split: option.splits prod.splits)
qed

section \<open>Reading a well-formed command line\<close>

definition word :: "string \<Rightarrow> bool" where
  "word t \<longleftrightarrow> t \<noteq> [] \<and> list_all (\<lambda>c. c \<notin> set blanks) t"

text \<open>A buy or sell line with the texts of its price and quantity.\<close>

definition order_line :: "string \<Rightarrow> string \<Rightarrow> string \<Rightarrow> string \<Rightarrow> string" where
  "order_line kw sy pt qt = kw @ '' '' @ sy @ '' '' @ pt @ '' '' @ qt"

lemma word_strtok:
  assumes "word t"
  shows "strtok blanks (t @ CHR '' '' # r) = Some (t, r)" "strtok blanks t = Some (t, [])"
  using assms strtok_field [of t blanks] by (auto simp: word_def list_all_iff blanks_def)

lemma parse_order_line_command:
  assumes "word kw" "command_word kw \<in> {CMD_BUY, CMD_SELL}" "word sy" "length sy < 16"
    and "word pt" "word qt" "validate_price (atof pt)" "validate_quantity (atoi qt)" "length (order_line kw sy pt qt) < 256"
  shows "parse_command now (Some (order_line kw sy pt qt)) =
    \<lparr>cmd_type = command_word kw, cmd_symbol = sy, cmd_price = atof pt, cmd_quantity = atoi qt,
     cmd_order_id = generate_order_id now 32\<rparr>"
proof -
  have cf: "copy_field 256 (order_line kw sy pt qt) = kw @ CHR '' '' # sy @ CHR '' '' # pt @ CHR '' '' # qt"
    using assms(9) by (simp add: order_line_def)
  show ?thesis
    using assms(2,4,7,8) unfolding parse_command_def option.case cf
    by (auto simp: word_strtok(1) [OF assms(1)] word_strtok(1) [OF assms(3)] word_strtok(1) [OF assms(5)] word_strtok(2) [OF assms(6)]
        Let_def no_command_def parse_price_quantity_def)
qed

lemma generate_order_id_text: "0 \<le> now \<Longrightarrow> fits 64 now \<Longrightarrow> generate_order_id now 32 = ''ORD'' @ show_nat now \<and> length (show_nat now) \<le> 19"
proof -
  assume n: "0 \<le> now" "fits 64 now"
  have "length (show_nat now) \<le> 19" by (rule length_show_nat) (use n in \<open>simp_all add: fits_def\<close>)
  with n(1) show ?thesis by (simp add: generate_order_id_def snprintf_def show_int_def)
qed

lemma show_nat_no_NUL: "0 \<le> n \<Longrightarrow> NUL \<notin> set (show_nat n)"
  using show_nat_digits [of n] by (auto simp: isdigit_def code_def NUL_def)

section \<open>What the server makes of it\<close>

context cjson_nodes
begin

lemma parse_base_message_typed:
  assumes "cJSON_Parse J t = Some j" "json_get (view j) ''type'' = Some (JNum (Fin (of_int n)))" "fits 32 n"
  shows "parse_base_message J (Some t) = Some n"
proof -
  obtain i where "cJSON_GetObjectItem J (Some j) ''type'' = Some i" "view i = JNum (Fin (of_int n))"
    using assms(2) by (rule get_item_Some)
  with assms(1,3) show ?thesis by (simp add: parse_base_message_def is_number int_value)
qed

end

context cjson_api
begin

lemma command_message_text:
  assumes "cmd_type cmd \<in> {CMD_BUY, CMD_SELL}" "cmd_price cmd = Fin p" "fits 32 (cmd_quantity cmd)"
  obtains t j where "format_command_as_json J cmd tid = Some t" "cJSON_Parse J t = Some j"
    "view j = JObj [(''type'', JNum (Fin 1)), (''order_id'', JStr (cmd_order_id cmd)), (''trader_id'', JStr tid),
       (''symbol'', JStr (cmd_symbol cmd)), (''price'', JNum (reread (Fin p))), (''quantity'', JNum (Fin (of_int (cmd_quantity cmd)))),
       (''is_buy'', JBool (cmd_type cmd = CMD_BUY))]"
proof -
  obtain r0 where r0: "cJSON_CreateObject J = Some r0" "view r0 = JObj []" using create_object by blast
  let ?e = "cJSON_AddBoolToObject J (cJSON_AddNumberToObject J (cJSON_AddNumberToObject J (cJSON_AddStringToObject J
      (cJSON_AddStringToObject J (cJSON_AddStringToObject J (cJSON_AddNumberToObject J (Some r0) ''type'' (Fin 1))
      ''order_id'' (cmd_order_id cmd)) ''trader_id'' tid) ''symbol'' (cmd_symbol cmd)) ''price'' (Fin p))
      ''quantity'' (Fin (of_int (cmd_quantity cmd)))) ''is_buy'' (cmd_type cmd = CMD_BUY)"
  have e: "node_is view ?e (JObj ((((((([] @ [(''type'', JNum (Fin 1))]) @ [(''order_id'', JStr (cmd_order_id cmd))]) @
      [(''trader_id'', JStr tid)]) @ [(''symbol'', JStr (cmd_symbol cmd))]) @ [(''price'', JNum (Fin p))]) @
      [(''quantity'', JNum (Fin (of_int (cmd_quantity cmd))))]) @ [(''is_buy'', JBool (cmd_type cmd = CMD_BUY))]))"
    by (intro node_add) (simp add: node_is_def r0)
  obtain t j where "cJSON_Print J ?e = Some t" "cJSON_Parse J t = Some j"
    "view j = JObj [(''type'', JNum (Fin 1)), (''order_id'', JStr (cmd_order_id cmd)), (''trader_id'', JStr tid),
       (''symbol'', JStr (cmd_symbol cmd)), (''price'', JNum (reread (Fin p))), (''quantity'', JNum (Fin (of_int (cmd_quantity cmd)))),
       (''is_buy'', JBool (cmd_type cmd = CMD_BUY))]"
    by (rule node_print_parse [OF e]) (simp_all add: reread_numeral reread_int [OF assms(3)])
  with that show ?thesis
    using assms r0(1) by (auto simp: format_command_as_json_def Let_def d_of_int_value MSG_PLACE_ORDER_def)
qed

end

end
