(* ===== verification/Protocol_Properties.thy ===== *)
theory Protocol_Properties
  imports Order_Loader Client_Commands Samples
begin

text \<open>
  The properties of the wire protocol, of the file loader and of the client's commands. Where a property
  uses cJSON its hypothesis is the contract \<open>cjson_nodes\<close>, for what only reads a text, or \<open>cjson_api\<close>, under which there is
  memory for the nodes and texts; the witnesses use the implementation of \<open>Json\<close>.
\<close>

section \<open>Sample messages\<close>

definition sample_stack :: OrderMessage where
  "sample_stack = \<lparr>om_symbol = replicate 16 (CHR ''x''), om_order_id = replicate 32 (CHR ''x''),
     om_trader_id = replicate 32 (CHR ''x''), om_price = NaN, om_quantity = 99, om_is_buy = False\<rparr>"

definition sample_message :: OrderMessage where
  "sample_message = \<lparr>om_symbol = strncpy (replicate 16 NUL) ''AAPL'' 15, om_order_id = strncpy (replicate 32 NUL) ''ORD-7'' 31,
     om_trader_id = strncpy (replicate 32 NUL) ''T_1'' 31, om_price = Fin (301 / 2), om_quantity = 25, om_is_buy = True\<rparr>"

definition sample_snapshot :: BookSnapshot where
  "sample_snapshot = \<lparr>bs_symbol = strncpy (replicate 16 NUL) ''AAPL'' 15, num_bids = 2, num_asks = 1, max_orders = 200,
     bid_prices = Some [Fin 99, Fin 100, Fin 0], bid_quantities = Some [5, 7, 0],
     ask_prices = Some [Fin 101], ask_quantities = Some [3]\<rparr>"

definition sample_mem :: snapshot_mem where
  "sample_mem = \<lparr>bid_price_mem = (\<lambda>n. Some (replicate n (Fin 0))), bid_quantity_mem = (\<lambda>n. Some (replicate n 0)),
     ask_price_mem = (\<lambda>n. Some (replicate n (Fin 0))), ask_quantity_mem = (\<lambda>n. Some (replicate n 0))\<rparr>"

lemma sample_mem_ok: "mem_ok sample_mem"
  by (simp add: mem_ok_def sample_mem_def)

lemma json_contract: "cjson_api json_cJSON (\<lambda>j. j) (\<lambda>d. d)"
  by (rule json_impl.cjson_api_axioms)

text \<open>What becomes of a price that is printed and read again: a number as large as \<open>2 ^ 53\<close> or smaller changes by at most one
  part in \<open>2 ^ 51\<close>, and a whole number of 32 bits not at all.\<close>

definition price_kept :: "rat \<Rightarrow> double \<Rightarrow> bool" where
  "price_kept p d \<longleftrightarrow> (\<bar>p\<bar> \<le> 2 ^ 53 \<longrightarrow> (\<exists>p'. d = Fin p' \<and> \<bar>p' - p\<bar> \<le> \<bar>p\<bar> / 2 ^ 51)) \<and> (\<forall>n. p = of_int n \<and> fits 32 n \<longrightarrow> d = Fin p)"

lemma price_kept_reread: "cjson_api J view reread \<Longrightarrow> price_kept p (reread (Fin p))"
  using cjson_api.reread_close [of J view reread p] cjson_api.reread_int [of J view reread] by (auto simp: price_kept_def)

lemma price_kept_whole: "price_kept (of_int n) d \<Longrightarrow> fits 32 n \<Longrightarrow> d = Fin (of_int n)"
  by (auto simp: price_kept_def)

lemma finite_double_Fin: "finite_double d \<longleftrightarrow> (\<exists>p. d = Fin p)"
  by (cases d) auto

section \<open>Messages\<close>

text \<open>C27. An order message written by \<open>serialize_order_message\<close> and read by \<open>parse_order_message\<close>, into a struct with
  any content, is the same order: identifiers of at most 30 and a symbol of at most 14 characters, the side
  and a 32-bit quantity come back unchanged. A finite price comes back as cJSON prints and reads it: unchanged when it
  is a whole number of 32 bits, and otherwise, up to \<open>2 ^ 53\<close>, to within one part in \<open>2 ^ 51\<close>. There is memory for the nodes and
  the text.\<close>

theorem order_message_round_trip:
  assumes "cjson_api J view reread"
    and "c_string (om_order_id m) = Some oid" "c_string (om_trader_id m) = Some tid" "c_string (om_symbol m) = Some sy"
    and "length oid < 31" "length tid < 31" "length sy < 15"
    and "om_price m = Fin p" "fits 32 (om_quantity m)"
  shows "\<exists>t m'. serialize_order_message J le (Some m) = Some (le, Some t) \<and>
    parse_order_message J (Some t) (Some m0) = Some (True, Some m') \<and>
    c_string (om_order_id m') = Some oid \<and> c_string (om_trader_id m') = Some tid \<and> c_string (om_symbol m') = Some sy \<and>
    price_kept p (om_price m') \<and> om_quantity m' = om_quantity m \<and> om_is_buy m' = om_is_buy m"
proof -
  obtain t j where t: "serialize_order_message J le (Some m) = Some (le, Some t)" "cJSON_Parse J t = Some j"
    "view j = JObj [(''order_id'', JStr oid), (''trader_id'', JStr tid), (''symbol'', JStr sy), (''price'', JNum (reread (Fin p))),
       (''quantity'', JNum (Fin (of_int (om_quantity m)))), (''is_buy'', JBool (om_is_buy m))]"
    by (rule cjson_api.order_message_text [OF assms(1-4,8,9)])
  note cmp = strcaseeq_def tolower_def isupper_def code_def
  have "parse_order_message J (Some t) (Some m0) = Some (True, Some (m0\<lparr>
      om_order_id := strncpy (om_order_id m0) oid 31, om_trader_id := strncpy (om_trader_id m0) tid 31,
      om_symbol := strncpy (om_symbol m0) sy 15, om_price := reread (Fin p), om_quantity := om_quantity m, om_is_buy := om_is_buy m\<rparr>))"
    by (rule cjson_nodes.parse_order_message_fields [OF cjson_api.axioms(1) [OF assms(1)] t(2)]) (simp_all add: t(3) cmp assms(9))
  moreover have "NUL \<notin> set oid" "NUL \<notin> set tid" "NUL \<notin> set sy" using assms(2-4) c_string_no_NUL by blast+
  ultimately show ?thesis
    using t(1) assms(5-8) price_kept_reread [OF assms(1), of p] by (auto simp: c_string_strncpy_short)
qed

theorem order_message_round_trip_witness:
  "\<exists>t m'. serialize_order_message json_cJSON (replicate 256 NUL) (Some sample_message) = Some (replicate 256 NUL, Some t) \<and>
    parse_order_message json_cJSON (Some t) (Some sample_stack) = Some (True, Some m') \<and>
    c_string (om_order_id m') = Some ''ORD-7'' \<and> c_string (om_trader_id m') = Some ''T_1'' \<and> c_string (om_symbol m') = Some ''AAPL'' \<and>
    price_kept (301 / 2) (om_price m') \<and> om_quantity m' = 25 \<and> om_is_buy m'"
proof -
  have c: "c_string (om_order_id sample_message) = Some ''ORD-7''" "c_string (om_trader_id sample_message) = Some ''T_1''"
    "c_string (om_symbol sample_message) = Some ''AAPL''" by code_simp+
  show ?thesis
    using order_message_round_trip [OF json_contract c, of "301 / 2" "replicate 256 NUL" sample_stack]
    by (simp add: sample_message_def fits_def)
qed

text \<open>C28. A well-formed book snapshot, with finite prices and 32-bit quantities, written by \<open>serialize_book_snapshot\<close> and read by
  \<open>parse_book_snapshot\<close> has the same symbol (of at most 14 characters), the same number of levels on each side and the
  same levels in the same order: equal quantities, and prices as cJSON prints and reads them, unchanged when
  they are whole numbers of 32 bits and otherwise, up to \<open>2 ^ 53\<close>, to within one part in \<open>2 ^ 51\<close>. There is memory for the nodes,
  the text and the four arrays.\<close>

theorem snapshot_round_trip:
  assumes "cjson_api J view reread" "snapshot_ok s" "c_string (bs_symbol s) = Some sy" "length sy < 15" "mem_ok mem"
  shows "\<exists>t m'. serialize_book_snapshot J (Some s) = Some (Some t) \<and>
    parse_book_snapshot J mem (Some t) (Some m) = Some (True, Some m') \<and>
    c_string (bs_symbol m') = Some sy \<and> num_bids m' = num_bids s \<and> num_asks m' = num_asks s \<and>
    list_all2 (\<lambda>d d'. \<exists>p. d = Fin p \<and> price_kept p d') (fst (bid_levels s)) (fst (bid_levels m')) \<and> snd (bid_levels m') = snd (bid_levels s) \<and>
    list_all2 (\<lambda>d d'. \<exists>p. d = Fin p \<and> price_kept p d') (fst (ask_levels s)) (fst (ask_levels m')) \<and> snd (ask_levels m') = snd (ask_levels s)"
proof -
  have "list_all2 (\<lambda>d d'. \<exists>p. d = Fin p \<and> price_kept p d') (fst lv) (fst (reread_levels reread lv))" if "levels_ok n lv" for n lv
    using that price_kept_reread [OF assms(1)]
    by (auto simp: reread_levels_def levels_ok_def list_all_iff list_all2_conv_all_nth finite_double_Fin dest!: bspec [OF _ nth_mem])
  then have "list_all2 (\<lambda>d d'. \<exists>p. d = Fin p \<and> price_kept p d') (fst (bid_levels s)) (fst (reread_levels reread (bid_levels s)))"
    "list_all2 (\<lambda>d d'. \<exists>p. d = Fin p \<and> price_kept p d') (fst (ask_levels s)) (fst (reread_levels reread (ask_levels s)))"
    using assms(2) unfolding snapshot_ok_def by blast+
  with cjson_api.snapshot_read_back [OF assms, of m] show ?thesis by (auto simp: reread_levels_def)
qed

theorem snapshot_round_trip_witness:
  "\<exists>t m'. serialize_book_snapshot json_cJSON (Some sample_snapshot) = Some (Some t) \<and>
    parse_book_snapshot json_cJSON sample_mem (Some t) (Some sample_snapshot) = Some (True, Some m') \<and>
    c_string (bs_symbol m') = Some ''AAPL'' \<and> num_bids m' = 2 \<and> num_asks m' = 1 \<and>
    bid_levels m' = ([Fin 99, Fin 100], [5, 7]) \<and> ask_levels m' = ([Fin 101], [3])"
proof -
  have s: "snapshot_ok sample_snapshot"
    by (simp add: snapshot_ok_def sample_snapshot_def levels_ok_def bid_levels_def ask_levels_def array_def fits_def)
  have c: "c_string (bs_symbol sample_snapshot) = Some ''AAPL''" by code_simp
  have l: "bid_levels sample_snapshot = ([Fin 99, Fin 100], [5, 7])" "ask_levels sample_snapshot = ([Fin 101], [3])"
    by (simp_all add: sample_snapshot_def bid_levels_def ask_levels_def array_def)
  have k: "price_kept 99 d \<Longrightarrow> d = Fin 99" "price_kept 100 d \<Longrightarrow> d = Fin 100" "price_kept 101 d \<Longrightarrow> d = Fin 101" for d
    using price_kept_whole [of 99 d] price_kept_whole [of 100 d] price_kept_whole [of 101 d] by (simp_all add: fits_def)
  show ?thesis
    using snapshot_round_trip [OF json_contract s c _ sample_mem_ok, of sample_snapshot] l
    by (auto simp: sample_snapshot_def list_all2_Cons1 prod_eq_iff dest!: k)
qed

text \<open>C29. An order id that fills the 31 bytes that \<open>parse_order_message\<close> copies is not terminated by it: reading the
  field gives these 31 characters followed by whatever string was in the struct behind them, and runs
  past the array when there is no NUL. The function returns true nevertheless.\<close>

theorem long_order_id_unterminated:
  assumes "cjson_nodes J view" "cJSON_Parse J t = Some j"
    and "view j = JObj [(''order_id'', JStr oid), (''trader_id'', JStr tid), (''symbol'', JStr sy), (''price'', JNum p),
       (''quantity'', JNum (Fin (of_int q))), (''is_buy'', JBool b)]"
    and "fits 32 q" "NUL \<notin> set oid" "31 \<le> length oid"
  shows "\<exists>m'. parse_order_message J (Some t) (Some m0) = Some (True, Some m') \<and>
    c_string (om_order_id m') = map_option ((@) (take 31 oid)) (c_string (drop 31 (om_order_id m0)))"
proof -
  note cmp = strcaseeq_def tolower_def isupper_def code_def
  have "parse_order_message J (Some t) (Some m0) = Some (True, Some (m0\<lparr>
      om_order_id := strncpy (om_order_id m0) oid 31, om_trader_id := strncpy (om_trader_id m0) tid 31,
      om_symbol := strncpy (om_symbol m0) sy 15, om_price := p, om_quantity := q, om_is_buy := b\<rparr>))"
    by (rule cjson_nodes.parse_order_message_fields [OF assms(1,2)]) (simp_all add: assms(3,4) cmp)
  then show ?thesis using c_string_strncpy_full [OF assms(5,6), of "om_order_id m0"] by simp
qed

theorem long_order_id_unterminated_witness:
  "\<exists>t j m'. cJSON_Parse json_cJSON t = Some j \<and> parse_order_message json_cJSON (Some t) (Some sample_stack) = Some (True, Some m') \<and>
    c_string (om_order_id m') = None"
proof -
  let ?j = "JObj [(''order_id'', JStr (replicate 40 (CHR ''a''))), (''trader_id'', JStr ''T''), (''symbol'', JStr ''AAPL''),
    (''price'', JNum (Fin 1)), (''quantity'', JNum (Fin (of_int 5))), (''is_buy'', JBool True)]"
  obtain t where t: "cJSON_Parse json_cJSON t = Some ?j"
    using json_impl.print_parse [of ?j] by (auto simp: renumber_id)
  have n: "NUL \<notin> set (replicate 40 (CHR ''a''))" by (simp add: NUL_def)
  have d: "c_string (drop 31 (om_order_id sample_stack)) = None" by code_simp
  show ?thesis
    using long_order_id_unterminated [OF json_impl.cjson_nodes_axioms t, of "replicate 40 (CHR ''a'')" "''T''" "''AAPL''" "Fin 1" 5 True sample_stack]
      t n d by (auto simp: fits_def)
qed

section \<open>Validation\<close>

definition id_text :: "string \<Rightarrow> string \<Rightarrow> bool" where
  "id_text extra s \<longleftrightarrow> s \<noteq> [] \<and> length s < 32 \<and> list_all (\<lambda>c. isalnum c \<or> c \<in> set extra) s"

lemma id_chars_ok_iff: "id_chars_ok extra s \<longleftrightarrow> list_all (\<lambda>c. isalnum c \<or> c \<in> set extra) s"
  by (induction s) auto

lemma validate_ids:
  "validate_order_id (Some s) \<longleftrightarrow> id_text ''_-'' s" "validate_trader_id (Some s) \<longleftrightarrow> id_text ''_'' s"
  by (auto simp: validate_order_id_def validate_trader_id_def id_text_def id_chars_ok_iff
      PROTOCOL_ORDER_ID_LENGTH_def PROTOCOL_TRADER_ID_LENGTH_def)

lemma validate_symbol_iff: "validate_symbol (Some s) \<longleftrightarrow> s \<in> set VALID_SYMBOLS"
  by (auto simp: validate_symbol_def VALID_SYMBOLS_def PROTOCOL_SYMBOL_LENGTH_def)

lemma validate_price_iff: "validate_price p \<longleftrightarrow> p = NaN \<or> d_le MIN_PRICE p \<and> d_le p MAX_PRICE"
proof (cases "p = NaN")
  case False
  moreover have "MIN_PRICE \<noteq> NaN" "MAX_PRICE \<noteq> NaN" by (simp_all add: MIN_PRICE_def MAX_PRICE_def)
  ultimately show ?thesis using d_not_lt by (auto simp: validate_price_def)
qed (simp add: validate_price_def)

text \<open>C30. \<open>validate_order_message\<close> accepts an order exactly when its identifiers have 1 to 31 letters, digits, underscores
  (and hyphens in the order id), its symbol is one of the five known ones, its quantity is from 1 to
  1000000, and its price is from 0.0001 to 1000000 or is not a number; it then leaves the error text alone.\<close>

theorem order_message_valid_iff:
  assumes "c_string (om_order_id m) = Some oid" "c_string (om_trader_id m) = Some tid" "c_string (om_symbol m) = Some sy"
  shows "\<exists>ok text. validate_order_message (Some m) buf n = Some (ok, text) \<and> (ok \<longrightarrow> text = buf) \<and>
    (ok \<longleftrightarrow> id_text ''_-'' oid \<and> id_text ''_'' tid \<and> sy \<in> {''AAPL'', ''GOOG'', ''MSFT'', ''AMZN'', ''TSLA''} \<and>
      (om_price m = NaN \<or> d_le MIN_PRICE (om_price m) \<and> d_le (om_price m) MAX_PRICE) \<and>
      1 \<le> om_quantity m \<and> om_quantity m \<le> 1000000)"
proof -
  have q: "validate_quantity (om_quantity m) \<longleftrightarrow> 1 \<le> om_quantity m \<and> om_quantity m \<le> 1000000"
    by (auto simp: validate_quantity_def MIN_QUANTITY_def MAX_QUANTITY_def)
  have s: "validate_symbol (Some sy) \<longleftrightarrow> sy \<in> {''AAPL'', ''GOOG'', ''MSFT'', ''AMZN'', ''TSLA''}"
    unfolding validate_symbol_iff VALID_SYMBOLS_def list.set ..
  show ?thesis
    unfolding s [symmetric] q [symmetric] validate_ids [symmetric] validate_price_iff [symmetric]
    using assms by (auto simp: validate_order_message_def)
qed

theorem order_message_valid_iff_witness:
  "\<exists>text. validate_order_message (Some (sample_message\<lparr>om_price := NaN\<rparr>)) (replicate 64 NUL) 64 = Some (True, text) \<and>
     text = replicate 64 NUL"
proof -
  let ?m = "sample_message\<lparr>om_price := NaN\<rparr>"
  have c: "c_string (om_order_id ?m) = Some ''ORD-7''" "c_string (om_trader_id ?m) = Some ''T_1''"
    "c_string (om_symbol ?m) = Some ''AAPL''" by code_simp+
  have i: "id_text ''_-'' ''ORD-7''" "id_text ''_'' ''T_1''" by code_simp+
  have q: "om_price ?m = NaN" "om_quantity ?m = 25" by (simp_all add: sample_message_def)
  obtain ok tx where r: "validate_order_message (Some ?m) (replicate 64 NUL) 64 = Some (ok, tx)" "ok \<longrightarrow> tx = replicate 64 NUL"
    "ok \<longleftrightarrow> id_text ''_-'' ''ORD-7'' \<and> id_text ''_'' ''T_1'' \<and> ''AAPL'' \<in> {''AAPL'', ''GOOG'', ''MSFT'', ''AMZN'', ''TSLA''} \<and>
      (om_price ?m = NaN \<or> d_le MIN_PRICE (om_price ?m) \<and> d_le (om_price ?m) MAX_PRICE) \<and>
      1 \<le> om_quantity ?m \<and> om_quantity ?m \<le> 1000000"
    using order_message_valid_iff [OF c, of "replicate 64 NUL" 64] by blast
  have ok unfolding r(3) q using i by simp
  with r(1,2) show ?thesis by simp
qed

section \<open>Files of orders\<close>

text \<open>A CSV line with plain fields (no blanks, no commas), an integral price and a quantity is read by \<open>parse_order_line\<close>
  as the order that \<open>order_create\<close> makes of exactly these fields.\<close>

lemma csv_line_round_trip:
  assumes "plain_field oid" "plain_field tid" "plain_field sy"
    and "length oid < MAX_ID_LENGTH" "length tid < MAX_ID_LENGTH" "length sy < MAX_SYMBOL_LENGTH"
    and "0 < p" "p < 2 ^ 53" "0 < q" "q < 2 ^ 31"
  shows "parse_order_line m now (csv_line oid tid sy buy p q) FILE_TYPE_CSV =
    order_create m now oid tid sy (Fin (of_int p)) q buy"
  by (rule parse_csv_line [OF assms])

text \<open>The part of a file that holds the orders: a CSV file begins with a header line.\<close>

definition file_body :: "FileType \<Rightarrow> string \<Rightarrow> string" where
  "file_body ft text = (if ft = FILE_TYPE_CSV then (case fgets MAX_LINE_LENGTH text of None \<Rightarrow> [] | Some (_, rest) \<Rightarrow> rest) else text)"

definition first_line :: "FileType \<Rightarrow> nat" where
  "first_line ft = (if ft = FILE_TYPE_CSV then 1 else 0)"

text \<open>C35. Loading a file. On a well-formed book and a file that can be opened, of type TXT, or CSV and not empty, it
  returns the number of lines that are orders, modulo the width of \<open>int\<close>, whatever the other lines are, and leaves
  a well-formed book, provided no price is read as not a number. The orders it counts are not all in the book: each
  side has, besides those it had, exactly the orders for whose tree node there was memory and whose price and
  timestamp (in seconds) together were not yet on that side. So the count is the number of orders added only when none
  of them is left out in this way.\<close>

theorem loader_counts_orders:
  assumes "book_ok st book" "files name = Some text" "determine_file_type name = ft" "ft \<noteq> FILE_TYPE_UNKNOWN" "ft = FILE_TYPE_CSV \<Longrightarrow> text \<noteq> []"
    and "env_ok env (first_line ft) st" "xs = line_orders env ft (first_line ft) (file_lines (file_body ft text))"
    and "\<forall>c \<in> set xs. price (snd c) \<noteq> NaN"
  shows "\<exists>st' book'. load_orders_from_file env files st (Some name) (Some book) = Some (int32 (int (length xs)), st', Some book') \<and>
    book_ok st' book' \<and>
    (\<forall>b. mset (side_list b st' book') = mset (side_list b st book) + mset (entered b (side_list b st book) xs))"
proof -
  obtain st' book' where l: "load_lines env ft (first_line ft) (file_body ft text) (st, book, 0) = Some (st', book', int32 (0 + int (length xs)))"
      "book_ok st' book'" "\<forall>b. mset (side_list b st' book') = mset (side_list b st book) + mset (entered b (side_list b st book) xs)"
    using load_lines_ok [where k = 0 and src = "file_body ft text" and ft = ft, OF assms(1,6)] assms(7,8) by (auto simp: fits_def)
  have "load_orders_from_file env files st (Some name) (Some book) = Some (int32 (int (length xs)), st', Some book')"
  proof (cases "ft = FILE_TYPE_CSV")
    case True
    then obtain h rest where "fgets MAX_LINE_LENGTH text = Some (h, rest)" using assms(5) by (auto simp: fgets_def Let_def)
    with l(1) assms(2-4) True show ?thesis by (simp add: load_orders_from_file_def file_body_def first_line_def Let_def)
  qed (use l(1) assms(2-4) in \<open>simp add: load_orders_from_file_def file_body_def first_line_def Let_def\<close>)
  with l(2,3) show ?thesis by blast
qed

definition sample_file :: string where
  "sample_file = ''h'' @ [newline] @ ''O,T,S,BUY,9,1'' @ [newline] @ ''#'' @ [newline] @ ''O,T,S,BUY,9,1'' @ [newline] @ ''bad''"

definition sample_load :: load_env where
  "sample_load = \<lparr>order_mem = (\<lambda>_. True), node_mem = (\<lambda>_. True), new_addr = (\<lambda>i. 100 + i), load_time = (\<lambda>_. 50)\<rparr>"

lemma sample_file_lines:
  "file_lines (file_body FILE_TYPE_CSV sample_file) = [''O,T,S,BUY,9,1'' @ [newline], ''#'' @ [newline],
     ''O,T,S,BUY,9,1'' @ [newline], ''bad'']"
  by code_simp

lemma sample_line_order:
  "line_order sample_load FILE_TYPE_CSV i l =
     (let t = trim_whitespace (line_text l) in if t = [] \<or> hd t = CHR ''#'' then None
      else parse_order_line True 50 (trimmed_buffer (line_text l)) FILE_TYPE_CSV)"
  by (simp add: line_order_def sample_load_def Let_def)

lemma sample_lines:
  "line_order sample_load FILE_TYPE_CSV i (''O,T,S,BUY,9,1'' @ [newline]) = order_create True 50 ''O'' ''T'' ''S'' (Fin 9) 1 True"
  "line_order sample_load FILE_TYPE_CSV i (''#'' @ [newline]) = None"
  "line_order sample_load FILE_TYPE_CSV i ''bad'' = None"
proof -
  have t: "trim_whitespace (line_text (''O,T,S,BUY,9,1'' @ [newline])) = ''O,T,S,BUY,9,1''"
    "trimmed_buffer (line_text (''O,T,S,BUY,9,1'' @ [newline])) = csv_line ''O'' ''T'' ''S'' True 9 1"
    "plain_field ''O''" "plain_field ''T''" "plain_field ''S''" by code_simp+
  have c: "parse_order_line True 50 (csv_line ''O'' ''T'' ''S'' True 9 1) FILE_TYPE_CSV = order_create True 50 ''O'' ''T'' ''S'' (Fin 9) 1 True"
    using parse_csv_line [OF t(3-5), of 9 1 True 50 True] by (simp add: MAX_ID_LENGTH_def MAX_SYMBOL_LENGTH_def)
  show "line_order sample_load FILE_TYPE_CSV i (''O,T,S,BUY,9,1'' @ [newline]) = order_create True 50 ''O'' ''T'' ''S'' (Fin 9) 1 True"
    unfolding sample_line_order t(1,2) c Let_def by simp
  show "line_order sample_load FILE_TYPE_CSV i (''#'' @ [newline]) = None" unfolding sample_line_order by code_simp
  show "line_order sample_load FILE_TYPE_CSV i ''bad'' = None" unfolding sample_line_order by code_simp
qed

theorem loader_counts_orders_witness:
  "\<exists>st' book'. load_orders_from_file sample_load (\<lambda>f. if f = ''orders.CSV'' then Some sample_file else None)
      sample_store (Some ''orders.CSV'') (Some sample_book) = Some (2, st', Some book') \<and> book_ok st' book' \<and>
      length (side_list True st' book') = length (side_list True sample_store sample_book) + 1"
proof -
  have env: "env_ok sample_load (first_line FILE_TYPE_CSV) sample_store"
    by (auto simp: env_ok_def sample_load_def sample_store_def sample_orders_def inj_def)
  have ft: "determine_file_type ''orders.CSV'' = FILE_TYPE_CSV" by code_simp
  obtain x where x: "order_create True 50 ''O'' ''T'' ''S'' (Fin 9) 1 True = Some x" "price x = Fin 9" "is_buy_order x"
    by (simp add: order_create_def MAX_ID_LENGTH_def MAX_SYMBOL_LENGTH_def)
  let ?xs = "line_orders sample_load FILE_TYPE_CSV (first_line FILE_TYPE_CSV) (file_lines (file_body FILE_TYPE_CSV sample_file))"
  have xs: "?xs = [(True, x), (True, x)]"
    unfolding sample_file_lines line_orders.simps sample_lines x(1) option.case by (simp add: sample_load_def)
  have "Fin 9 \<notin> price ` set (side_list True sample_store sample_book)" by code_simp
  then have "entered True (side_list True sample_store sample_book) ?xs = [x]" unfolding xs by (auto simp: x)
  moreover obtain st' book' where "load_orders_from_file sample_load (\<lambda>f. if f = ''orders.CSV'' then Some sample_file else None)
      sample_store (Some ''orders.CSV'') (Some sample_book) = Some (int32 (int (length ?xs)), st', Some book')" "book_ok st' book'"
      "\<forall>b. mset (side_list b st' book') = mset (side_list b sample_store sample_book) + mset (entered b (side_list b sample_store sample_book) ?xs)"
    using loader_counts_orders [OF sample_book_ok _ ft _ _ env refl,
      of "\<lambda>f. if f = ''orders.CSV'' then Some sample_file else None" sample_file] xs x(2) by (auto simp: sample_file_def)
  moreover from this(3) [rule_format, of True] have "length (side_list True st' book') =
      length (side_list True sample_store sample_book) + length (entered True (side_list True sample_store sample_book) ?xs)"
    by (metis size_mset size_union)
  ultimately show ?thesis by (intro exI [of _ st'] exI [of _ book']) (simp add: xs fits_def)
qed

end
