(* ===== verification/Message_Queue.thy ===== *)
theory Message_Queue
  imports Json_Protocol Order_Book Machine
begin

text \<open>
  The state of \<open>src/server/server_handlers.c\<close> and its message queue: a ring of pointers to copies of
  the received texts, shared by the network thread, which puts messages in, and the workers,
  which take them out, always under the queue's lock. The copies live in a heap of texts; a freed
  copy is absent from it. \<open>fifo_queue\<close> is the contract of a bounded queue; the ring is an instance.
\<close>

section \<open>State\<close>

definition MAX_SYMBOLS :: nat where
  "MAX_SYMBOLS = 100"

record HandlerConfig =
  thread_pool_size :: int
  max_message_size :: int
  message_queue_size :: int
  hc_trade_broadcaster :: "TradeBroadcaster option"

record ServerHandlers =
  thread_count :: int
  running :: bool
  message_queue :: "addr option list"
  client_queue :: "addr option list"
  queue_size :: int
  queue_head :: int
  queue_tail :: int
  books :: "OrderBook option list"
  symbols :: "char list list"
  book_count :: int
  sh_trade_broadcaster :: "TradeBroadcaster option"

type_synonym msg_heap = "addr \<Rightarrow> string option"

text \<open>\<open>free(p)\<close>: NULL is allowed, a pointer that is not to live memory is a fault.\<close>

definition free_msg :: "addr option \<Rightarrow> msg_heap \<Rightarrow> msg_heap option" where
  "free_msg p heap = (case p of None \<Rightarrow> Some heap
     | Some a \<Rightarrow> if heap a = None then None else Some (heap(a := None)))"

fun free_all :: "addr option list \<Rightarrow> msg_heap \<Rightarrow> msg_heap option" where
  "free_all [] heap = Some heap"
| "free_all (p # ps) heap = Option.bind (free_msg p heap) (free_all ps)"

section \<open>Creation and destruction\<close>

text \<open>\<open>calloc\<close> of a negative number of elements fails.\<close>

definition server_handlers_create :: "bool \<Rightarrow> bool \<Rightarrow> bool \<Rightarrow> bool \<Rightarrow> HandlerConfig \<Rightarrow> ServerHandlers option" where
  "server_handlers_create m0 m1 m2 m3 config =
     (if \<not> m0 then None
      else if \<not> m1 \<or> \<not> m2 \<or> \<not> m3 \<or> thread_pool_size config < 0 \<or> message_queue_size config < 0 then None
      else Some \<lparr>thread_count = thread_pool_size config, running = False,
        message_queue = replicate (nat (message_queue_size config)) None,
        client_queue = replicate (nat (message_queue_size config)) None,
        queue_size = message_queue_size config, queue_head = 0, queue_tail = 0,
        books = replicate MAX_SYMBOLS None, symbols = replicate MAX_SYMBOLS (replicate 16 NUL),
        book_count = 0, sh_trade_broadcaster = hc_trade_broadcaster config\<rparr>)"

text \<open>
  Starting and stopping the workers; \<open>pthread_create\<close> succeeds for the \<open>i\<close>-th thread when
  \<open>created i\<close>. The result has the number of threads that were started.
\<close>

fun start_threads :: "(nat \<Rightarrow> bool) \<Rightarrow> nat \<Rightarrow> nat \<Rightarrow> bool \<times> nat" where
  "start_threads created i 0 = (True, i)"
| "start_threads created i (Suc k) = (if \<not> created i then (False, i) else start_threads created (Suc i) k)"

definition server_handlers_start_workers :: "(nat \<Rightarrow> bool) \<Rightarrow> ServerHandlers option \<Rightarrow> rc \<times> ServerHandlers option \<times> nat" where
  "server_handlers_start_workers created h' = (case h' of None \<Rightarrow> (- 1, None, 0)
     | Some h \<Rightarrow> if running h then (- 1, h', 0)
         else (case start_threads created 0 (nat (thread_count h)) of
           (True, n) \<Rightarrow> (0, Some (h\<lparr>running := True\<rparr>), n)
         | (False, n) \<Rightarrow> (- 1, Some (h\<lparr>running := False\<rparr>), n)))"

definition server_handlers_stop_workers :: "ServerHandlers option \<Rightarrow> rc \<times> ServerHandlers option" where
  "server_handlers_stop_workers h' = (case h' of None \<Rightarrow> (- 1, None)
     | Some h \<Rightarrow> if \<not> running h then (- 1, h') else (0, Some (h\<lparr>running := False\<rparr>)))"

text \<open>Destroying frees every slot of the ring; the result is the heap, \<open>None\<close> for a double free.\<close>

definition server_handlers_destroy :: "msg_heap \<Rightarrow> ServerHandlers option \<Rightarrow> msg_heap option" where
  "server_handlers_destroy heap h' = (case h' of None \<Rightarrow> Some heap
     | Some h \<Rightarrow>
         let h1 = (if running h then the (snd (server_handlers_stop_workers h')) else h) in
         free_all (take (nat (queue_size h1)) (message_queue h1)) heap)"

section \<open>Putting in and taking out\<close>

text \<open>
  \<open>dup\<close> is what \<open>strdup\<close> returns. A ring of size 0 makes the remainder a division by zero.
\<close>

definition server_handlers_process_message ::
  "addr option \<Rightarrow> msg_heap \<Rightarrow> ServerHandlers option \<Rightarrow> addr option \<Rightarrow> string option \<Rightarrow>
   (rc \<times> msg_heap \<times> ServerHandlers option) option" where
  "server_handlers_process_message dup heap h' client message' = (case (h', message') of
     (Some h, Some message) \<Rightarrow>
       if queue_size h = 0 then None
       else if (queue_tail h + 1) mod queue_size h = queue_head h then Some (- 1, heap, h')
       else (case dup of None \<Rightarrow> Some (- 1, heap, h')
         | Some a \<Rightarrow> do {
             mq \<leftarrow> array_set (message_queue h) (queue_tail h) (Some a);
             cq \<leftarrow> array_set (client_queue h) (queue_tail h) client;
             Some (0, heap(a \<mapsto> message),
               Some (h\<lparr>message_queue := mq, client_queue := cq,
                       queue_tail := (queue_tail h + 1) mod queue_size h\<rparr>)) })
   | _ \<Rightarrow> Some (- 1, heap, h'))"

text \<open>A worker in \<open>dequeue_message\<close> waits, is told to stop, or gets a message and its client.\<close>

datatype dequeued = Waits | Stopped | Got "addr option" "addr option"

definition dequeue_message :: "ServerHandlers \<Rightarrow> (dequeued \<times> ServerHandlers) option" where
  "dequeue_message h =
     (if queue_head h = queue_tail h \<and> running h then Some (Waits, h)
      else if \<not> running h then Some (Stopped, h)
      else do {
        message \<leftarrow> array_get (message_queue h) (queue_head h);
        client \<leftarrow> array_get (client_queue h) (queue_head h);
        if queue_size h = 0 then None
        else Some (Got message client, h\<lparr>queue_head := (queue_head h + 1) mod queue_size h\<rparr>) })"

section \<open>The contract of a bounded queue\<close>

datatype 'a queue_op = Put 'a | Get

text \<open>A sequence of operations: what was accepted, what came out, and the queue after it.\<close>

fun run_queue :: "('q \<Rightarrow> 'a \<Rightarrow> 'q option) \<Rightarrow> ('q \<Rightarrow> ('a \<times> 'q) option) \<Rightarrow> 'a queue_op list \<Rightarrow> 'q \<Rightarrow> 'a list \<times> 'a list \<times> 'q" where
  "run_queue put get [] q = ([], [], q)"
| "run_queue put get (Put x # os) q = (case put q x of
     None \<Rightarrow> run_queue put get os q
   | Some q' \<Rightarrow> (case run_queue put get os q' of (ins, outs, r) \<Rightarrow> (x # ins, outs, r)))"
| "run_queue put get (Get # os) q = (case get q of
     None \<Rightarrow> run_queue put get os q
   | Some (y, q') \<Rightarrow> (case run_queue put get os q' of (ins, outs, r) \<Rightarrow> (ins, y # outs, r)))"

locale fifo_queue =
  fixes put :: "'q \<Rightarrow> 'a \<Rightarrow> 'q option"
    and get :: "'q \<Rightarrow> ('a \<times> 'q) option"
    and contents :: "'q \<Rightarrow> 'a list"
    and capacity :: "'q \<Rightarrow> nat"
    and ok :: "'q \<Rightarrow> bool"
  assumes put_room: "ok q \<Longrightarrow> length (contents q) < capacity q \<Longrightarrow>
      \<exists>q'. put q x = Some q' \<and> ok q' \<and> contents q' = contents q @ [x] \<and> capacity q' = capacity q"
    and put_full: "ok q \<Longrightarrow> \<not> length (contents q) < capacity q \<Longrightarrow> put q x = None"
    and get_empty: "ok q \<Longrightarrow> contents q = [] \<Longrightarrow> get q = None"
    and get_head: "ok q \<Longrightarrow> contents q = x # xs \<Longrightarrow>
      \<exists>q'. get q = Some (x, q') \<and> ok q' \<and> contents q' = xs \<and> capacity q' = capacity q"
begin

lemma put_SomeD:
  assumes "ok q" "put q x = Some q'"
  shows "ok q' \<and> contents q' = contents q @ [x] \<and> capacity q' = capacity q"
  using assms put_room [of q x] put_full [of q x] by (cases "length (contents q) < capacity q") auto

lemma get_SomeD:
  assumes "ok q" "get q = Some (x, q')"
  shows "ok q' \<and> contents q = x # contents q' \<and> capacity q' = capacity q"
  using assms get_empty [of q] get_head [of q] by (cases "contents q") auto

lemma fifo_run:
  "ok q \<Longrightarrow> run_queue put get os q = (ins, outs, q') \<Longrightarrow> contents q @ ins = outs @ contents q' \<and> ok q'"
proof (induction os arbitrary: q ins outs)
  case (Cons o1 os)
  show ?case
  proof (cases o1)
    case (Put x)
    show ?thesis
    proof (cases "put q x")
      case None
      with Cons Put show ?thesis by simp
    next
      case (Some q1)
      obtain i r where "run_queue put get os q1 = (i, r, q')" "ins = x # i" "outs = r"
        using Cons.prems(2) Put Some by (auto split: prod.splits)
      with Cons.IH [of q1] put_SomeD [OF Cons.prems(1) Some] show ?thesis by auto
    qed
  next
    case Get
    show ?thesis
    proof (cases "get q")
      case None
      with Cons Get show ?thesis by simp
    next
      case (Some yq)
      then obtain y q1 where g: "get q = Some (y, q1)" by (cases yq) simp
      obtain i r where "run_queue put get os q1 = (i, r, q')" "ins = i" "outs = y # r"
        using Cons.prems(2) Get g by (auto split: prod.splits)
      with Cons.IH [of q1] get_SomeD [OF Cons.prems(1) g] show ?thesis by auto
    qed
  qed
qed simp

lemma capacity_bound: "ok q \<Longrightarrow> length (contents q) \<le> capacity q \<Longrightarrow> put q x = Some q' \<Longrightarrow> length (contents q') \<le> capacity q'"
  using put_SomeD [of q x q'] put_full [of q x] by (cases "length (contents q) < capacity q") auto

end

section \<open>The ring is a bounded queue\<close>

text \<open>
  What \<open>server_handlers_process_message\<close> puts into the ring when there is memory for the copy of the message: the
  address of the copy and the client. The text of the message only goes into the copy; without memory for it the
  message is refused and the ring stays as it is (\<open>process_message_ring\<close> below).
\<close>

definition ring_put :: "ServerHandlers \<Rightarrow> addr \<times> addr option \<Rightarrow> ServerHandlers option" where
  "ring_put h x = (case server_handlers_process_message (Some (fst x)) (\<lambda>_. None) (Some h) (snd x) (Some []) of
     Some (r, _, Some h') \<Rightarrow> if r = 0 then Some h' else None | _ \<Rightarrow> None)"

definition ring_get :: "ServerHandlers \<Rightarrow> ((addr \<times> addr option) \<times> ServerHandlers) option" where
  "ring_get h = (case dequeue_message h of Some (Got (Some a) c, h') \<Rightarrow> Some ((a, c), h') | _ \<Rightarrow> None)"

text \<open>The slots in use, from the head on.\<close>

definition ring_used :: "ServerHandlers \<Rightarrow> nat" where
  "ring_used h = nat ((queue_tail h - queue_head h) mod queue_size h)"

definition ring_slot :: "ServerHandlers \<Rightarrow> nat \<Rightarrow> nat" where
  "ring_slot h i = nat ((queue_head h + int i) mod queue_size h)"

definition ring_contents :: "ServerHandlers \<Rightarrow> (addr \<times> addr option) list" where
  "ring_contents h = map (\<lambda>i. (the (message_queue h ! ring_slot h i), client_queue h ! ring_slot h i)) [0..<ring_used h]"

definition ring_capacity :: "ServerHandlers \<Rightarrow> nat" where
  "ring_capacity h = nat (queue_size h) - 1"

definition ring_ok :: "ServerHandlers \<Rightarrow> bool" where
  "ring_ok h \<longleftrightarrow> running h \<and> 0 < queue_size h \<and> length (message_queue h) = nat (queue_size h) \<and>
     length (client_queue h) = nat (queue_size h) \<and> 0 \<le> queue_head h \<and> queue_head h < queue_size h \<and>
     0 \<le> queue_tail h \<and> queue_tail h < queue_size h \<and>
     (\<forall>i < ring_used h. message_queue h ! ring_slot h i \<noteq> None)"

lemma mod_shift_inj:
  fixes n :: int
  assumes "0 \<le> i" "i < n" "0 \<le> j" "j < n" "(h + i) mod n = (h + j) mod n"
  shows "i = j"
proof -
  have "i mod n = ((h + i) mod n - h) mod n" by (simp add: mod_simps)
  also have "\<dots> = ((h + j) mod n - h) mod n" by (simp only: assms(5))
  also have "\<dots> = j mod n" by (simp add: mod_simps)
  finally show ?thesis using assms by simp
qed

text \<open>In the ring: \<open>u\<close> slots used, the tail is the slot after them, and there is room for one more exactly
  when the next tail is not the head.\<close>

lemma ring_facts:
  assumes "ring_ok h"
  defines "n \<equiv> queue_size h" and "u \<equiv> (queue_tail h - queue_head h) mod queue_size h"
  shows "0 \<le> u" "u < n" "(queue_head h + u) mod n = queue_tail h"
    "(queue_tail h + 1) mod n = queue_head h \<longleftrightarrow> u = n - 1"
    "queue_head h = queue_tail h \<longleftrightarrow> u = 0"
proof -
  have b: "0 < n" "0 \<le> queue_head h" "queue_head h < n" "0 \<le> queue_tail h" "queue_tail h < n"
    using assms(1) by (auto simp: ring_ok_def n_def)
  show u: "0 \<le> u" "u < n" using b(1) by (simp_all add: u_def n_def)
  show t: "(queue_head h + u) mod n = queue_tail h"
    using b by (simp add: u_def n_def mod_simps)
  have "(queue_tail h + 1) mod n = (queue_head h + (u + 1)) mod n"
    using t by (metis add.assoc mod_add_left_eq)
  moreover have "(queue_head h + 0) mod n = queue_head h" using b by simp
  moreover have "(queue_head h + n) mod n = queue_head h" using b by simp
  ultimately show "(queue_tail h + 1) mod n = queue_head h \<longleftrightarrow> u = n - 1"
    using mod_shift_inj [of "u + 1" n 0 "queue_head h"] u b(1) by (cases "u + 1 = n") auto
  show "queue_head h = queue_tail h \<longleftrightarrow> u = 0"
    using t b u mod_shift_inj [of u n 0 "queue_head h"] by auto
qed

lemma ring_slot_bound: "ring_ok h \<Longrightarrow> ring_slot h i < nat (queue_size h)"
  by (simp add: ring_ok_def ring_slot_def nat_less_iff)

lemma ring_slot_inj:
  assumes "ring_ok h" "i < nat (queue_size h)" "j < nat (queue_size h)" "ring_slot h i = ring_slot h j"
  shows "i = j"
proof -
  have "(queue_head h + int i) mod queue_size h = (queue_head h + int j) mod queue_size h"
    using assms(1,4) by (auto simp: ring_slot_def ring_ok_def eq_nat_nat_iff)
  then show ?thesis
    using mod_shift_inj [of "int i" "queue_size h" "int j" "queue_head h"] assms(2,3) by auto
qed

lemma ring_put_room:
  assumes ok: "ring_ok h" and room: "length (ring_contents h) < ring_capacity h"
  shows "\<exists>h'. ring_put h x = Some h' \<and> ring_ok h' \<and> ring_contents h' = ring_contents h @ [x] \<and> ring_capacity h' = ring_capacity h"
proof -
  let ?n = "queue_size h" and ?u = "(queue_tail h - queue_head h) mod queue_size h"
  let ?t = "nat (queue_tail h)"
  note F = ring_facts [OF ok]
  have n: "0 < ?n" "0 \<le> queue_tail h" "queue_tail h < ?n" using ok by (auto simp: ring_ok_def)
  have room': "?u < ?n - 1" using room F(1) n by (simp add: ring_contents_def ring_used_def ring_capacity_def)
  define h' where "h' = h\<lparr>message_queue := (message_queue h)[?t := Some (fst x)],
    client_queue := (client_queue h)[?t := snd x], queue_tail := (queue_tail h + 1) mod ?n\<rparr>"
  have put: "ring_put h x = Some h'"
    using F(4) room' n ok by (simp add: ring_put_def server_handlers_process_message_def h'_def ring_ok_def)
  have "(queue_tail h + 1 - queue_head h) mod ?n = (?u + 1) mod ?n" by (simp add: mod_simps algebra_simps)
  also have "\<dots> = ?u + 1" using F(1) room' by simp
  finally have used: "ring_used h' = Suc (ring_used h)"
    using F(1) by (simp add: ring_used_def h'_def mod_simps nat_add_distrib)
  have slot: "ring_slot h' = ring_slot h" by (rule ext) (simp add: ring_slot_def h'_def)
  have tail: "ring_slot h (ring_used h) = ?t" using F(1,3) by (simp add: ring_slot_def ring_used_def)
  have other: "?t \<noteq> ring_slot h i" if "i < ring_used h" for i
    using ring_slot_inj [OF ok, of i "ring_used h"] that tail F(1,2) by (auto simp: ring_used_def)
  have len: "length (message_queue h) = nat ?n" "length (client_queue h) = nat ?n" using ok by (auto simp: ring_ok_def)
  have "ring_contents h' = ring_contents h @ [x]"
    using tail other len n by (simp add: ring_contents_def used slot) (auto simp: h'_def)
  moreover have "ring_ok h'"
    using ok n tail other len by (auto simp: ring_ok_def [of h'] used slot less_Suc_eq) (auto simp: h'_def ring_ok_def)
  ultimately show ?thesis using put by (simp add: ring_capacity_def h'_def)
qed

lemma ring_get_head:
  assumes ok: "ring_ok h" and c: "ring_contents h = x # xs"
  shows "\<exists>h'. ring_get h = Some (x, h') \<and> ring_ok h' \<and> ring_contents h' = xs \<and> ring_capacity h' = ring_capacity h"
proof -
  let ?n = "queue_size h" and ?u = "(queue_tail h - queue_head h) mod queue_size h"
  note F = ring_facts [OF ok]
  have n: "0 < ?n" "0 \<le> queue_head h" "queue_head h < ?n" using ok by (auto simp: ring_ok_def)
  have len: "length (message_queue h) = nat ?n" "length (client_queue h) = nat ?n" using ok by (auto simp: ring_ok_def)
  have pos: "0 < ring_used h" using c by (cases "ring_used h") (auto simp: ring_contents_def)
  then have u: "0 < ?u" by (simp add: ring_used_def)
  define h' where "h' = h\<lparr>queue_head := (queue_head h + 1) mod ?n\<rparr>"
  have s0: "ring_slot h 0 = nat (queue_head h)" using n by (simp add: ring_slot_def)
  have x: "x = (the (message_queue h ! nat (queue_head h)), client_queue h ! nat (queue_head h))"
    and xs: "xs = map (\<lambda>i. (the (message_queue h ! ring_slot h (Suc i)), client_queue h ! ring_slot h (Suc i))) [0..<ring_used h - 1]"
    using c pos s0 by (auto simp: ring_contents_def upt_conv_Cons map_Suc_upt [symmetric] simp del: map_Suc_upt upt_Suc
        elim: subst [OF Suc_pred])
  have get: "ring_get h = Some (x, h')"
    using ok n len F(5) u s0 pos by (auto simp: ring_get_def dequeue_message_def ring_ok_def x h'_def split: option.splits)
  have "(queue_tail h - (queue_head h + 1)) mod ?n = (?u - 1) mod ?n" by (simp add: mod_simps algebra_simps)
  also have "\<dots> = ?u - 1" using F(2) u by simp
  finally have used: "ring_used h' = ring_used h - 1"
    using u by (simp add: ring_used_def h'_def mod_simps nat_diff_distrib)
  have slot: "ring_slot h' i = ring_slot h (Suc i)" for i
    by (simp add: ring_slot_def h'_def mod_simps algebra_simps)
  have "ring_contents h' = xs" by (simp add: ring_contents_def used slot xs) (simp add: h'_def)
  moreover have "ring_ok h'"
    using ok n by (auto simp: ring_ok_def [of h'] used slot) (auto simp: h'_def ring_ok_def)
  ultimately show ?thesis using get by (simp add: ring_capacity_def h'_def)
qed

interpretation ring: fifo_queue ring_put ring_get ring_contents ring_capacity ring_ok
proof unfold_locales
  fix h x xs
  assume ok: "ring_ok h"
  show "\<exists>h'. ring_put h x = Some h' \<and> ring_ok h' \<and> ring_contents h' = ring_contents h @ [x] \<and> ring_capacity h' = ring_capacity h"
    if "length (ring_contents h) < ring_capacity h" using ring_put_room [OF ok that] .
  show "\<exists>h'. ring_get h = Some (x, h') \<and> ring_ok h' \<and> ring_contents h' = xs \<and> ring_capacity h' = ring_capacity h"
    if "ring_contents h = x # xs" using ring_get_head [OF ok that] .
  show "ring_put h x = None" if "\<not> length (ring_contents h) < ring_capacity h"
  proof -
    have "(queue_tail h - queue_head h) mod queue_size h = queue_size h - 1"
      using that ring_facts(1,2) [OF ok] by (simp add: ring_contents_def ring_used_def ring_capacity_def)
    then show ?thesis
      using ring_facts(4) [OF ok] ok by (simp add: ring_put_def server_handlers_process_message_def ring_ok_def)
  qed
  show "ring_get h = None" if "ring_contents h = []"
  proof -
    have "(queue_tail h - queue_head h) mod queue_size h = 0"
      using that ring_facts(1) [OF ok] by (simp add: ring_contents_def ring_used_def)
    then show ?thesis
      using ring_facts(5) [OF ok] ok by (simp add: ring_get_def dequeue_message_def ring_ok_def)
  qed
qed

text \<open>The function itself, for any text and with or without memory for the copy.\<close>

lemma process_message_ring:
  assumes "ring_ok h"
  shows "server_handlers_process_message dup heap (Some h) client (Some t) =
    Some (case dup of None \<Rightarrow> (- 1, heap, Some h)
      | Some a \<Rightarrow> (case ring_put h (a, client) of None \<Rightarrow> (- 1, heap, Some h) | Some h' \<Rightarrow> (0, heap(a \<mapsto> t), Some h')))"
proof -
  have "queue_size h \<noteq> 0" "nat (queue_tail h) < length (message_queue h)" "nat (queue_tail h) < length (client_queue h)" "0 \<le> queue_tail h"
    using assms by (auto simp: ring_ok_def)
  then show ?thesis by (auto simp: server_handlers_process_message_def ring_put_def array_set_def split: option.split)
qed

end
