(* ===== verification/Ws_Server.thy ===== *)
theory Ws_Server
  imports Order_Book Json_Protocol
begin

text \<open>
  \<open>src/server/ws_server.c\<close> and \<open>src/trading_engine/trade_broadcaster.c\<close>: the life cycle of the WebSocket
  server, the callback that libwebsockets invokes, sending and broadcasting. libwebsockets is not
  part of the repository: its results are arguments (\<open>lws_write\<close>'s return value, the result of
  \<open>lws_create_context\<close>, the connections that \<open>lws_callback_all_protocol\<close> calls back), and what the code
  asks of it is recorded: the frames written and the user callbacks made.
\<close>

section \<open>State\<close>

record WSServerConfig =
  host :: string
  port :: int
  max_clients :: int
  ping_interval_ms :: int
  status_interval_ms :: int

text \<open>Function pointers and the user pointer are addresses.\<close>

record WSServer =
  lws_context_ptr :: addr
  config :: WSServerConfig
  connect_cb :: "addr option"
  disconnect_cb :: "addr option"
  message_cb :: "addr option"
  user_data :: "addr option"
  ws_running :: bool
  broadcast_buf :: "string option"
  broadcast_len :: nat

record WSClientInfo =
  client_id :: string
  connect_time :: int
  info_last_ping_time :: int

record WSClient =
  wsi :: "addr option"
  info :: WSClientInfo
  c_server :: "WSServer option"

datatype lws_callback_reasons =
    LWS_CALLBACK_PROTOCOL_INIT | LWS_CALLBACK_ESTABLISHED | LWS_CALLBACK_CLOSED
  | LWS_CALLBACK_RECEIVE | LWS_CALLBACK_SERVER_WRITEABLE | LWS_CALLBACK_OTHER

text \<open>A user callback made: which function, for which connection, with what and the user pointer.\<close>

datatype ws_event =
    Connected addr addr "addr option"
  | Disconnected addr addr "addr option"
  | Message addr addr string nat "addr option"

section \<open>Life cycle\<close>

definition ws_server_create :: "bool \<Rightarrow> addr option \<Rightarrow> WSServerConfig \<Rightarrow> WSServer option" where
  "ws_server_create calloc_ok lws_context cfg =
     (if \<not> calloc_ok then None
      else case lws_context of None \<Rightarrow> None
      | Some ctx \<Rightarrow> Some \<lparr>lws_context_ptr = ctx, config = cfg, connect_cb = None, disconnect_cb = None, message_cb = None,
          user_data = None, ws_running = False, broadcast_buf = None, broadcast_len = 0\<rparr>)"

definition ws_server_start :: "bool \<Rightarrow> WSServer option \<Rightarrow> rc \<times> WSServer option" where
  "ws_server_start thread_ok srv' = (case srv' of None \<Rightarrow> (- 1, None)
     | Some srv \<Rightarrow> if \<not> thread_ok then (- 1, Some (srv\<lparr>ws_running := False\<rparr>))
                   else (0, Some (srv\<lparr>ws_running := True\<rparr>)))"

definition ws_server_stop :: "WSServer option \<Rightarrow> WSServer option" where
  "ws_server_stop srv' = (case srv' of None \<Rightarrow> None
     | Some srv \<Rightarrow> if \<not> ws_running srv then srv' else Some (srv\<lparr>ws_running := False\<rparr>))"

definition ws_server_set_connect_callback :: "WSServer option \<Rightarrow> addr option \<Rightarrow> addr option \<Rightarrow> WSServer option" where
  "ws_server_set_connect_callback srv' cb user = map_option (\<lambda>srv. srv\<lparr>connect_cb := cb, user_data := user\<rparr>) srv'"

definition ws_server_set_disconnect_callback :: "WSServer option \<Rightarrow> addr option \<Rightarrow> addr option \<Rightarrow> WSServer option" where
  "ws_server_set_disconnect_callback srv' cb user = map_option (\<lambda>srv. srv\<lparr>disconnect_cb := cb, user_data := user\<rparr>) srv'"

definition ws_server_set_message_callback :: "WSServer option \<Rightarrow> addr option \<Rightarrow> addr option \<Rightarrow> WSServer option" where
  "ws_server_set_message_callback srv' cb user = map_option (\<lambda>srv. srv\<lparr>message_cb := cb, user_data := user\<rparr>) srv'"

definition ws_server_get_client_info :: "WSClient option \<Rightarrow> WSClientInfo option" where
  "ws_server_get_client_info c = map_option info c"

section \<open>The callback\<close>

text \<open>
  \<open>ptr_text\<close> is the text \<open>%p\<close> gives for the connection. The result: the client struct, the user
  callbacks, and the frames written, of which there are none in any case.
\<close>

definition callback_trading ::
  "(addr \<Rightarrow> string) \<Rightarrow> int \<Rightarrow> WSServer \<Rightarrow> addr \<Rightarrow> lws_callback_reasons \<Rightarrow> WSClient \<Rightarrow> string \<Rightarrow> nat \<Rightarrow>
   WSClient \<times> ws_event list \<times> string list" where
  "callback_trading ptr_text now srv w reason client inp len = (case reason of
     LWS_CALLBACK_PROTOCOL_INIT \<Rightarrow> (client, [], [])
   | LWS_CALLBACK_ESTABLISHED \<Rightarrow>
       (client\<lparr>wsi := Some w, c_server := Some srv,
              info := (info client)\<lparr>client_id := snprintf 32 (''client-'' @ ptr_text w), connect_time := now\<rparr>\<rparr>,
        (case connect_cb srv of None \<Rightarrow> [] | Some cb \<Rightarrow> [Connected cb w (user_data srv)]), [])
   | LWS_CALLBACK_CLOSED \<Rightarrow>
       (client, (case disconnect_cb srv of None \<Rightarrow> [] | Some cb \<Rightarrow> [Disconnected cb w (user_data srv)]), [])
   | LWS_CALLBACK_RECEIVE \<Rightarrow>
       (client, (case message_cb srv of None \<Rightarrow> [] | Some cb \<Rightarrow> [Message cb w inp len (user_data srv)]), [])
   | _ \<Rightarrow> (client, [], []))"

text \<open>
  The service thread: the value of \<open>running\<close> it reads before each call of \<open>lws_service\<close>, and the callbacks that call makes (the
  time, the connection, the reason, the client struct and the text received). The result is the number of calls and the
  user callbacks made.
\<close>

type_synonym lws_call = "int \<times> addr \<times> lws_callback_reasons \<times> WSClient \<times> string \<times> nat"

fun ws_service_thread :: "(addr \<Rightarrow> string) \<Rightarrow> (bool \<times> lws_call list) list \<Rightarrow> WSServer \<Rightarrow> nat \<times> ws_event list" where
  "ws_service_thread ptr_text [] srv = (0, [])"
| "ws_service_thread ptr_text ((run, calls) # rs) srv = (if \<not> run then (0, [])
     else (case ws_service_thread ptr_text rs srv of (n, es) \<Rightarrow>
       (Suc n, concat (map (\<lambda>(now, w, reason, client, inp, len). fst (snd (callback_trading ptr_text now srv w reason client inp len))) calls) @ es)))"

text \<open>With a message callback registered, and no other, it hears of every received text once and in order, as long as the thread runs.\<close>

lemma ws_service_thread_messages:
  assumes "message_cb srv = Some cb" "connect_cb srv = None" "disconnect_cb srv = None"
  shows "snd (ws_service_thread ptr_text rs srv) =
    map (\<lambda>(now, w, reason, client, inp, len). Message cb w inp len (user_data srv))
      (filter (\<lambda>c. fst (snd (snd c)) = LWS_CALLBACK_RECEIVE) (concat (map snd (takeWhile fst rs))))"
proof -
  have one: "concat (map (\<lambda>(now, w, reason, client, inp, len). fst (snd (callback_trading ptr_text now srv w reason client inp len))) calls) =
      map (\<lambda>(now, w, reason, client, inp, len). Message cb w inp len (user_data srv))
        (filter (\<lambda>c. fst (snd (snd c)) = LWS_CALLBACK_RECEIVE) calls)" for calls :: "lws_call list"
    using assms by (induction calls) (auto simp: callback_trading_def split: lws_callback_reasons.splits)
  show ?thesis
  proof (induction rs)
    case (Cons r rs)
    obtain run calls where r: "r = (run, calls)" by (cases r)
    obtain n es where "ws_service_thread ptr_text rs srv = (n, es)" by (cases "ws_service_thread ptr_text rs srv")
    with Cons r show ?case by (simp add: one)
  qed simp
qed

section \<open>Sending\<close>

text \<open>A frame handed to \<open>lws_write\<close>: the connection and the bytes.\<close>

type_synonym frame = "addr option \<times> string"

definition ws_server_send :: "bool \<Rightarrow> int \<Rightarrow> WSClient option \<Rightarrow> string option \<Rightarrow> nat \<Rightarrow> rc \<times> frame list" where
  "ws_server_send malloc_ok written client' message' len = (case (client', message') of
     (Some client, Some message) \<Rightarrow>
       if \<not> malloc_ok then (- 1, [])
       else (if 0 \<le> written \<and> written = int len then 0 else - 1, [(wsi client, take len message)])
   | _ \<Rightarrow> (- 1, []))"

text \<open>
  \<open>conns\<close> are the connections of the protocol with their client structs; for each of them
  \<open>lws_callback_all_protocol\<close> invokes the callback with the given reason.
\<close>

definition ws_server_broadcast ::
  "(addr \<Rightarrow> string) \<Rightarrow> int \<Rightarrow> bool \<Rightarrow> (addr \<times> WSClient) list \<Rightarrow> WSServer option \<Rightarrow> string option \<Rightarrow> nat \<Rightarrow>
   rc \<times> WSServer option \<times> (addr \<times> string) list" where
  "ws_server_broadcast ptr_text now malloc_ok conns srv' message' len = (case (srv', message') of
     (Some srv, Some message) \<Rightarrow>
       if \<not> malloc_ok then (- 1, srv', [])
       else let srv1 = srv\<lparr>broadcast_buf := Some (take len message), broadcast_len := len\<rparr>;
                frames = concat (map (\<lambda>(w, c).
                  case callback_trading ptr_text now srv1 w LWS_CALLBACK_SERVER_WRITEABLE c [] 0 of
                    (_, _, fs) \<Rightarrow> map (Pair w) fs) conns)
            in (0, Some (srv1\<lparr>broadcast_buf := None, broadcast_len := 0\<rparr>), frames)
   | _ \<Rightarrow> (- 1, srv', []))"

section \<open>Trade notifications\<close>

definition trade_broadcaster_create :: "bool \<Rightarrow> addr option \<Rightarrow> TradeBroadcaster option" where
  "trade_broadcaster_create calloc_ok srv = (if \<not> calloc_ok then None else Some \<lparr>server = srv\<rparr>)"

text \<open>
  \<open>time_text\<close> is what \<open>strftime\<close> and \<open>localtime\<close> make of the time. The result is the message passed to
  \<open>ws_server_broadcast\<close> with the server, if the call gets that far; a NULL text is dereferenced by \<open>strlen\<close>.
\<close>

definition trade_broadcaster_send_trade ::
  "'j cJSON \<Rightarrow> (int \<Rightarrow> string) \<Rightarrow> TradeBroadcaster option \<Rightarrow> string option \<Rightarrow> string option \<Rightarrow> string option \<Rightarrow>
   double \<Rightarrow> int \<Rightarrow> int \<Rightarrow> (addr option \<times> string) option option" where
  "trade_broadcaster_send_trade J time_text broadcaster symbol' buy' sell' pr q ts =
     (case (broadcaster, symbol', buy', sell') of
        (Some br, Some sy, Some bid, Some sid) \<Rightarrow>
          let m1 = cJSON_AddNumberToObject J (cJSON_CreateObject J) ''type'' (Fin 102);
              d1 = cJSON_AddStringToObject J (cJSON_CreateObject J) ''symbol'' sy;
              d2 = cJSON_AddStringToObject J d1 ''buy_order'' bid;
              d3 = cJSON_AddStringToObject J d2 ''sell_order'' sid;
              d4 = cJSON_AddNumberToObject J d3 ''price'' pr;
              d5 = cJSON_AddNumberToObject J d4 ''quantity'' (d_of_int q);
              d6 = cJSON_AddStringToObject J d5 ''time'' (take 31 (time_text ts));
              m2 = cJSON_AddItemToObject J m1 ''trade'' d6
          in (case cJSON_Print J m2 of None \<Rightarrow> None | Some text \<Rightarrow> Some (Some (server br, text)))
      | _ \<Rightarrow> Some None)"

lemma broadcast_writes_nothing:
  "snd (snd (ws_server_broadcast ptr_text now malloc_ok conns srv message len)) = []"
  by (auto simp: ws_server_broadcast_def callback_trading_def Let_def split: option.splits prod.splits)

context cjson_api
begin

lemma trade_notification_text:
  assumes "pr = Fin p"
  obtains t j where
    "trade_broadcaster_send_trade J time_text (Some br) (Some sy) (Some bid) (Some sid) pr q ts =
       Some (Some (server br, t))"
    "cJSON_Parse J t = Some j"
    "view j = JObj [(''type'', JNum (Fin 102)), (''trade'', JObj [(''symbol'', JStr sy), (''buy_order'', JStr bid),
       (''sell_order'', JStr sid), (''price'', JNum (reread (Fin p))), (''quantity'', JNum (reread (Fin (of_int q)))),
       (''time'', JStr (take 31 (time_text ts)))])]" "NUL \<notin> set t"
proof -
  let ?d = "cJSON_AddStringToObject J (cJSON_AddNumberToObject J (cJSON_AddNumberToObject J (cJSON_AddStringToObject J
      (cJSON_AddStringToObject J (cJSON_AddStringToObject J (cJSON_CreateObject J) ''symbol'' sy) ''buy_order'' bid)
      ''sell_order'' sid) ''price'' (Fin p)) ''quantity'' (Fin (of_int q))) ''time'' (take 31 (time_text ts))"
  have d: "node_is view ?d (JObj (((((([] @ [(''symbol'', JStr sy)]) @ [(''buy_order'', JStr bid)]) @ [(''sell_order'', JStr sid)]) @
      [(''price'', JNum (Fin p))]) @ [(''quantity'', JNum (Fin (of_int q)))]) @ [(''time'', JStr (take 31 (time_text ts)))]))"
    by (intro node_build)
  let ?m = "cJSON_AddItemToObject J (cJSON_AddNumberToObject J (cJSON_CreateObject J) ''type'' (Fin 102)) ''trade'' ?d"
  have m: "node_is view ?m (JObj (([] @ [(''type'', JNum (Fin 102))]) @ [(''trade'', JObj (((((([] @ [(''symbol'', JStr sy)]) @
      [(''buy_order'', JStr bid)]) @ [(''sell_order'', JStr sid)]) @ [(''price'', JNum (Fin p))]) @
      [(''quantity'', JNum (Fin (of_int q)))]) @ [(''time'', JStr (take 31 (time_text ts)))]))]))"
    by (intro node_build d)
  obtain t j where "cJSON_Print J ?m = Some t" "cJSON_Parse J t = Some j" "view j = JObj [(''type'', JNum (Fin 102)),
      (''trade'', JObj [(''symbol'', JStr sy), (''buy_order'', JStr bid), (''sell_order'', JStr sid), (''price'', JNum (reread (Fin p))),
       (''quantity'', JNum (reread (Fin (of_int q)))), (''time'', JStr (take 31 (time_text ts)))])]"
    by (rule node_print_parse [OF m]) (auto simp: reread_numeral)
  moreover from this(1) have "NUL \<notin> set t" by (rule print_text)
  ultimately show ?thesis
    using that assms by (simp add: trade_broadcaster_send_trade_def Let_def d_of_int_value)
qed

end

end
