(* ===== verification/Server_Handlers.thy ===== *)
theory Server_Handlers
  imports Message_Queue Ws_Server Book_Operations
begin

text \<open>
  The handlers of \<open>src/server/server_handlers.c\<close>: placing and cancelling an order, the book request, and
  one round of a worker. What a handler meets outside the program is a record: the results of
  its allocations, the address of a new order, the time and its text, the content of an
  uninitialised struct on the stack, the client structs, and what each send meets. A handler's
  outcome has its return code, the handlers, the store of orders, the frames written, in order,
  and the trades announced. \<open>None\<close> is a fault: an access outside an array, a NULL dereference, a
  string without a terminator.
\<close>

section \<open>Environment and outcome\<close>

record handler_env =
  book_mem :: "bool \<times> bool \<times> bool"
  e_order_mem :: bool
  e_node_mem :: bool
  e_new_addr :: addr
  e_now :: int
  e_time_text :: string
  e_clock :: "nat \<Rightarrow> int"
  e_stack :: OrderMessage
  e_snapshot_mem :: snapshot_mem
  e_client :: "addr \<Rightarrow> WSClient"
  e_send :: "nat \<Rightarrow> bool \<times> int"

record outcome =
  o_rc :: rc
  o_handlers :: ServerHandlers
  o_store :: store
  o_frames :: "frame list"
  o_trades :: "trade_call list"

text \<open>The \<open>i\<close>-th send of a handler.\<close>

definition send_nth :: "handler_env \<Rightarrow> nat \<Rightarrow> addr option \<Rightarrow> string \<Rightarrow> rc \<times> frame list" where
  "send_nth env i client text =
     ws_server_send (fst (e_send env i)) (snd (e_send env i)) (map_option (e_client env) client) (Some text) (length text)"

definition send_error_response :: "handler_env \<Rightarrow> nat \<Rightarrow> addr option \<Rightarrow> string \<Rightarrow> rc \<times> frame list" where
  "send_error_response env i client error_msg =
     send_nth env i client (snprintf 1024 (''{\"type\": '' @ show_int MSG_ERROR @
       '', \"status\": \"failed\", \"reason\": \"'' @ error_msg @ ''\"}''))"

definition error_outcome :: "handler_env \<Rightarrow> addr option \<Rightarrow> string \<Rightarrow> ServerHandlers \<Rightarrow> store \<Rightarrow> outcome" where
  "error_outcome env client msg h st = (case send_error_response env 0 client msg of
     (r, fs) \<Rightarrow> \<lparr>o_rc = r, o_handlers = h, o_store = st, o_frames = fs, o_trades = []\<rparr>)"

section \<open>Snapshot of a book\<close>

definition collect_orders :: "store \<Rightarrow> addr \<Rightarrow> BookSnapshot option \<Rightarrow> BookSnapshot option" where
  "collect_orders st a snap' = do {
     snap \<leftarrow> snap';
     x \<leftarrow> st a;
     if is_canceled x \<or> remaining_quantity x \<le> 0 then Some snap
     else if order_is_buy_order (Some x) then
       (if num_bids snap < int (max_orders snap) then do {
          ps \<leftarrow> array_set (array (bid_prices snap)) (num_bids snap) (order_get_price (Some x));
          qs \<leftarrow> array_set (array (bid_quantities snap)) (num_bids snap) (order_get_remaining_quantity (Some x));
          Some (snap\<lparr>bid_prices := Some ps, bid_quantities := Some qs, num_bids := num_bids snap + 1\<rparr>) }
        else Some snap)
     else
       (if num_asks snap < int (max_orders snap) then do {
          ps \<leftarrow> array_set (array (ask_prices snap)) (num_asks snap) (order_get_price (Some x));
          qs \<leftarrow> array_set (array (ask_quantities snap)) (num_asks snap) (order_get_remaining_quantity (Some x));
          Some (snap\<lparr>ask_prices := Some ps, ask_quantities := Some qs, num_asks := num_asks snap + 1\<rparr>) }
        else Some snap) }"

text \<open>
  \<open>BookSnapshot snapshot = {0}\<close> with its symbol and arrays of 200: \<open>Some None\<close> when an allocation
  fails, otherwise the filled snapshot.
\<close>

definition empty_snapshot :: "string \<Rightarrow> BookSnapshot" where
  "empty_snapshot sy = \<lparr>bs_symbol = strncpy (replicate 16 NUL) sy 15, num_bids = 0, num_asks = 0, max_orders = 200,
     bid_prices = None, bid_quantities = None, ask_prices = None, ask_quantities = None\<rparr>"

definition take_snapshot :: "snapshot_mem \<Rightarrow> store \<Rightarrow> string \<Rightarrow> OrderBook \<Rightarrow> BookSnapshot option option" where
  "take_snapshot mem st sy book =
     (case (bid_price_mem mem 200, bid_quantity_mem mem 200, ask_price_mem mem 200, ask_quantity_mem mem 200) of
        (Some bp, Some bq, Some ap, Some aq) \<Rightarrow> do {
          let s0 = (empty_snapshot sy)\<lparr>bid_prices := Some bp, bid_quantities := Some bq,
                                      ask_prices := Some ap, ask_quantities := Some aq\<rparr>;
          let s1 = avl_inorder_traverse (buy_orders book) (Some (collect_orders st)) (Some s0);
          s2 \<leftarrow> avl_inorder_traverse (sell_orders book) (Some (collect_orders st)) s1;
          Some (Some s2) }
      | _ \<Rightarrow> Some None)"

section \<open>Finding a book\<close>

definition find_book :: "ServerHandlers \<Rightarrow> string \<Rightarrow> nat option option" where
  "find_book h sy = find_symbol (take (nat (book_count h)) (symbols h)) sy"

definition server_handlers_get_order_book :: "ServerHandlers option \<Rightarrow> string option \<Rightarrow> OrderBook option option" where
  "server_handlers_get_order_book h' sy' = (case (h', sy') of
     (Some h, Some sy) \<Rightarrow> do {
       found \<leftarrow> find_book h sy;
       (case found of None \<Rightarrow> Some None | Some i \<Rightarrow> array_get (books h) (int i)) }
   | _ \<Rightarrow> Some None)"

text \<open>A new book at the end of the two arrays; the symbol's slot was zeroed at creation.\<close>

definition append_book :: "ServerHandlers \<Rightarrow> string \<Rightarrow> OrderBook \<Rightarrow> ServerHandlers option" where
  "append_book h sy book = do {
     bs \<leftarrow> array_set (books h) (book_count h) (Some book);
     old \<leftarrow> array_get (symbols h) (book_count h);
     ss \<leftarrow> array_set (symbols h) (book_count h) (strncpy old sy 15);
     Some (h\<lparr>books := bs, symbols := ss, book_count := book_count h + 1\<rparr>) }"

definition server_handlers_add_order_book ::
  "bool \<times> bool \<times> bool \<Rightarrow> ServerHandlers option \<Rightarrow> string option \<Rightarrow> (rc \<times> ServerHandlers option) option" where
  "server_handlers_add_order_book mem h' sy' = (case (h', sy') of
     (Some h, Some sy) \<Rightarrow>
       if int MAX_SYMBOLS \<le> book_count h then Some (- 1, h')
       else do {
         found \<leftarrow> find_book h sy;
         (case found of Some i \<Rightarrow> Some (- 1, h')
          | None \<Rightarrow> (case mem of (m1, m2, m3) \<Rightarrow>
              (case order_book_create m1 m2 m3 (sh_trade_broadcaster h) of None \<Rightarrow> Some (- 1, h')
               | Some book \<Rightarrow> do {
                   h1 \<leftarrow> append_book h sy book;
                   b \<leftarrow> array_get (symbols h1) (book_count h);
                   ss \<leftarrow> array_set (symbols h1) (book_count h) (b[15 := NUL]);
                   Some (0, Some (h1\<lparr>symbols := ss\<rparr>)) }))) }
   | _ \<Rightarrow> Some (- 1, h'))"

section \<open>Placing an order\<close>

definition nl :: string where
  "nl = [CHR 0x0A]"

definition accepted_text :: "bool \<Rightarrow> string \<Rightarrow> string \<Rightarrow> string \<Rightarrow> double \<Rightarrow> int \<Rightarrow> string \<Rightarrow> string" where
  "accepted_text buy oid tid sy p q ts = snprintf 1024 (''{'' @ nl @
     ''    \"type\": '' @ show_int MSG_ORDER_ACCEPTED @ '','' @ nl @
     ''    \"Trade Details\": {'' @ nl @
     ''        \"Type\":          \"'' @ (if buy then ''Buy'' else ''Sell'') @ ''\",'' @ nl @
     ''        \"Order ID\":      \"'' @ oid @ ''\",'' @ nl @
     ''        \"Trader ID\":     \"'' @ tid @ ''\",'' @ nl @
     ''        \"Symbol\":        \"'' @ sy @ ''\",'' @ nl @
     ''        \"Price\":         '' @ show_f2 p @ '','' @ nl @
     ''        \"Quantity\":      '' @ show_int q @ nl @
     ''    },'' @ nl @
     ''    \"Timestamp\":     \"'' @ ts @ ''\",'' @ nl @
     ''    \"status\":        \"success\"'' @ nl @ ''}'')"

text \<open>Find or create the book of a symbol: the handlers and the index, or no book.\<close>

definition find_or_create ::
  "bool \<times> bool \<times> bool \<Rightarrow> ServerHandlers \<Rightarrow> string \<Rightarrow> (ServerHandlers \<times> nat option) option" where
  "find_or_create mem h sy = do {
     found \<leftarrow> find_book h sy;
     let book = Option.bind found (\<lambda>i. if array_get (books h) (int i) = Some None then None else Some i);
     (case book of Some i \<Rightarrow> Some (h, Some i)
      | None \<Rightarrow> (case mem of (m1, m2, m3) \<Rightarrow>
          (case order_book_create m1 m2 m3 (sh_trade_broadcaster h) of None \<Rightarrow> Some (h, None)
           | Some book \<Rightarrow> do { h1 \<leftarrow> append_book h sy book; Some (h1, Some (nat (book_count h))) }))) }"

text \<open>Adding the order to the book, confirming, matching, and sending the snapshot.\<close>

definition execute_order ::
  "handler_env \<Rightarrow> 'j cJSON \<Rightarrow> ServerHandlers \<Rightarrow> store \<Rightarrow> addr option \<Rightarrow> nat \<Rightarrow> Order \<Rightarrow> string \<Rightarrow> outcome option" where
  "execute_order env J h st client i x text = do {
     slot \<leftarrow> array_get (books h) (int i);
     let a = e_new_addr env;
     let st1 = st(a \<mapsto> x);
     (r, b1) \<leftarrow> order_book_add_order (e_node_mem env) st1 slot (Some a);
     let f1 = snd (send_nth env 0 client text);
     (st2, b2, cs) \<leftarrow> order_book_match_orders (e_clock env) st1 b1;
     book \<leftarrow> b2;
     bs \<leftarrow> array_set (books h) (int i) b2;
     snap' \<leftarrow> take_snapshot (e_snapshot_mem env) st2 (symbol x) book;
     f2 \<leftarrow> (case snap' of None \<Rightarrow> Some []
        | Some snap \<Rightarrow> do {
            t \<leftarrow> serialize_book_snapshot J (Some snap);
            Some (case t of None \<Rightarrow> [] | Some book_json \<Rightarrow> snd (send_nth env 1 client book_json)) });
     Some \<lparr>o_rc = 0, o_handlers = h\<lparr>books := bs\<rparr>, o_store = st2, o_frames = f1 @ f2, o_trades = cs\<rparr> }"

definition handle_place_order ::
  "handler_env \<Rightarrow> 'j cJSON \<Rightarrow> ServerHandlers \<Rightarrow> store \<Rightarrow> addr option \<Rightarrow> 'j \<Rightarrow> outcome option" where
  "handle_place_order env J h st client node = do {
     (parsed, m') \<leftarrow> parse_order_message J (cJSON_Print J (Some node)) (Some (e_stack env));
     if \<not> parsed then Some (error_outcome env client ''Invalid order format'' h st)
     else do {
       m \<leftarrow> m';
       oid \<leftarrow> c_string (om_order_id m);
       sy \<leftarrow> c_string (om_symbol m);
       (h1, idx) \<leftarrow> find_or_create (book_mem env) h sy;
       (case idx of None \<Rightarrow> Some (error_outcome env client ''Failed to place order'' h1 st)
        | Some i \<Rightarrow> do {
            tid \<leftarrow> c_string (om_trader_id m);
            (case order_create (e_order_mem env) (e_now env) oid tid sy (om_price m) (om_quantity m) (om_is_buy m) of
               None \<Rightarrow> Some (error_outcome env client ''Failed to place order'' h1 st)
             | Some x \<Rightarrow> execute_order env J h1 st client i x
                 (accepted_text (om_is_buy m) oid tid sy (om_price m) (om_quantity m) (e_time_text env))) }) } }"

section \<open>Cancelling and the book request\<close>

definition canceled_text :: "string \<Rightarrow> string \<Rightarrow> string \<Rightarrow> string" where
  "canceled_text oid sy ts = snprintf 1024 (''{'' @ nl @
     ''    \"type\": '' @ show_int MSG_ORDER_CANCELED @ '','' @ nl @
     ''    \"Cancellation Details\": {'' @ nl @
     ''        \"Order ID\":      \"'' @ oid @ ''\",'' @ nl @
     ''        \"Symbol\":        \"'' @ sy @ ''\"'' @ nl @
     ''    },'' @ nl @
     ''    \"Timestamp\":     \"'' @ ts @ ''\",'' @ nl @
     ''    \"status\":        \"success\"'' @ nl @ ''}'')"

text \<open>The string of an item, if there is one and it has one.\<close>

definition item_string :: "'j cJSON \<Rightarrow> 'j option \<Rightarrow> string option" where
  "item_string J item = Option.bind item (valuestring J)"

definition handle_cancel_order ::
  "handler_env \<Rightarrow> 'j cJSON \<Rightarrow> ServerHandlers \<Rightarrow> store \<Rightarrow> addr option \<Rightarrow> 'j \<Rightarrow> outcome option" where
  "handle_cancel_order env J h st client node =
     (case (item_string J (cJSON_GetObjectItem J (Some node) ''order_id''),
            item_string J (cJSON_GetObjectItem J (Some node) ''symbol'')) of
        (Some oid, Some sy) \<Rightarrow> do {
          found \<leftarrow> server_handlers_get_order_book (Some h) (Some sy);
          (case found of None \<Rightarrow> Some (error_outcome env client ''Order book not found'' h st)
           | Some book \<Rightarrow> (case cJSON_GetObjectItem J (Some node) ''is_buy'' of
               None \<Rightarrow> Some (error_outcome env client ''Missing is_buy flag'' h st)
             | Some flag \<Rightarrow> do {
                 (r, st1) \<leftarrow> order_book_cancel_order st (Some book) (Some oid) (valueint J flag \<noteq> 0);
                 if r \<noteq> 0 then Some (error_outcome env client ''Order not found or already canceled'' h st1)
                 else Some \<lparr>o_rc = 0, o_handlers = h, o_store = st1,
                        o_frames = snd (send_nth env 0 client (canceled_text oid sy (e_time_text env))), o_trades = []\<rparr> })) }
      | _ \<Rightarrow> Some (error_outcome env client ''Missing order_id or symbol'' h st))"

definition handle_book_request ::
  "handler_env \<Rightarrow> 'j cJSON \<Rightarrow> ServerHandlers \<Rightarrow> store \<Rightarrow> addr option \<Rightarrow> 'j \<Rightarrow> outcome option" where
  "handle_book_request env J h st client node =
     (case item_string J (cJSON_GetObjectItem J (Some node) ''symbol'') of
        None \<Rightarrow> Some (error_outcome env client ''Missing symbol'' h st)
      | Some sy \<Rightarrow> do {
          found \<leftarrow> server_handlers_get_order_book (Some h) (Some sy);
          (case found of None \<Rightarrow> Some (error_outcome env client ''Order book not found'' h st)
           | Some book \<Rightarrow> do {
               snap' \<leftarrow> take_snapshot (e_snapshot_mem env) st sy book;
               (case snap' of None \<Rightarrow> Some (error_outcome env client ''Memory allocation failed'' h st)
                | Some snap \<Rightarrow> do {
                    t \<leftarrow> serialize_book_snapshot J (Some snap);
                    (case t of None \<Rightarrow> Some (error_outcome env client ''Failed to serialize book snapshot'' h st)
                     | Some book_json \<Rightarrow> Some \<lparr>o_rc = 0, o_handlers = h, o_store = st,
                         o_frames = snd (send_nth env 0 client book_json), o_trades = []\<rparr>) }) }) })"

section \<open>A worker\<close>

text \<open>The table of handlers.\<close>

definition message_handlers ::
  "(int \<times> (handler_env \<Rightarrow> 'j cJSON \<Rightarrow> ServerHandlers \<Rightarrow> store \<Rightarrow> addr option \<Rightarrow> 'j \<Rightarrow> outcome option)) list" where
  "message_handlers = [(MSG_PLACE_ORDER, handle_place_order), (MSG_CANCEL_ORDER, handle_cancel_order),
     (MSG_REQUEST_BOOK, handle_book_request)]"

text \<open>What a worker does with one message.\<close>

definition dispatch_message ::
  "handler_env \<Rightarrow> 'j cJSON \<Rightarrow> ServerHandlers \<Rightarrow> store \<Rightarrow> addr option \<Rightarrow> string \<Rightarrow> outcome option" where
  "dispatch_message env J h st client message = (case parse_base_message J (Some message) of
     None \<Rightarrow> Some (error_outcome env client ''Invalid message format'' h st)
   | Some msg_type \<Rightarrow> (case cJSON_Parse J message of
       None \<Rightarrow> Some (error_outcome env client ''Invalid JSON'' h st)
     | Some node \<Rightarrow> (case map_of message_handlers msg_type of
         None \<Rightarrow> Some (error_outcome env client ''Unsupported message type'' h st)
       | Some handler \<Rightarrow> handler env J h st client node)))"

text \<open>
  One round of the worker's loop, with \<open>send_error_response\<close> to the client the message came from
  and the copy of the message freed at the end. A worker that waits or is stopped does nothing.
\<close>

definition worker_round ::
  "handler_env \<Rightarrow> 'j cJSON \<Rightarrow> msg_heap \<Rightarrow> ServerHandlers \<Rightarrow> store \<Rightarrow> (msg_heap \<times> outcome) option" where
  "worker_round env J heap h st = do {
     (d, h1) \<leftarrow> dequeue_message h;
     let idle = Some (heap, \<lparr>o_rc = 0, o_handlers = h1, o_store = st, o_frames = [], o_trades = []\<rparr>);
     (case d of
        Got (Some a) client \<Rightarrow> do {
          message \<leftarrow> heap a;
          out \<leftarrow> dispatch_message env J h1 st client message;
          heap1 \<leftarrow> free_msg (Some a) heap;
          Some (heap1, out) }
      | _ \<Rightarrow> idle) }"

end
