(* ===== verification/Handler_Facts.thy ===== *)
theory Handler_Facts
  imports Server_Handlers
begin

text \<open>
  What the handlers do: the levels of a snapshot, the invariant of the table of books, and the
  outcome of a well-formed order message from the parsed fields to the frames written.
\<close>

section \<open>Snapshots\<close>

definition live :: "Order \<Rightarrow> bool" where
  "live x \<longleftrightarrow> \<not> is_canceled x \<and> 0 < remaining_quantity x"

text \<open>The snapshot's arrays hold \<open>L\<close> on the side, in arrays of 200.\<close>

definition bids_are :: "BookSnapshot \<Rightarrow> Order list \<Rightarrow> bool" where
  "bids_are s L \<longleftrightarrow> num_bids s = int (length L) \<and> length L \<le> 200 \<and>
     length (array (bid_prices s)) = 200 \<and> length (array (bid_quantities s)) = 200 \<and>
     take (length L) (array (bid_prices s)) = map price L \<and>
     take (length L) (array (bid_quantities s)) = map remaining_quantity L"

definition asks_are :: "BookSnapshot \<Rightarrow> Order list \<Rightarrow> bool" where
  "asks_are s L \<longleftrightarrow> num_asks s = int (length L) \<and> length L \<le> 200 \<and>
     length (array (ask_prices s)) = 200 \<and> length (array (ask_quantities s)) = 200 \<and>
     take (length L) (array (ask_prices s)) = map price L \<and>
     take (length L) (array (ask_quantities s)) = map remaining_quantity L"

definition same_but_bids :: "BookSnapshot \<Rightarrow> BookSnapshot \<Rightarrow> bool" where
  "same_but_bids s s' \<longleftrightarrow> s' = s\<lparr>num_bids := num_bids s', bid_prices := bid_prices s', bid_quantities := bid_quantities s'\<rparr>"

definition same_but_asks :: "BookSnapshot \<Rightarrow> BookSnapshot \<Rightarrow> bool" where
  "same_but_asks s s' \<longleftrightarrow> s' = s\<lparr>num_asks := num_asks s', ask_prices := ask_prices s', ask_quantities := ask_quantities s'\<rparr>"

lemma take_update_end: "n < length xs \<Longrightarrow> take (Suc n) (xs[n := v]) = take n xs @ [v]"
  by (simp add: take_Suc_conv_app_nth)

lemma collect_buy:
  assumes "st a = Some x" "is_buy_order x" "bids_are s L" "max_orders s = 200"
  shows "\<exists>s'. collect_orders st a (Some s) = Some s' \<and> bids_are s' (if live x \<and> length L < 200 then L @ [x] else L) \<and>
    same_but_bids s s'"
proof (cases "live x \<and> length L < 200")
  case True
  then show ?thesis
    using assms by (cases s) (auto simp: collect_orders_def live_def bids_are_def same_but_bids_def order_is_buy_order_def
        order_get_price_def order_get_remaining_quantity_def array_def take_update_end split: option.splits)
next
  case False
  then have "collect_orders st a (Some s) = Some s"
    using assms by (auto simp: collect_orders_def live_def bids_are_def order_is_buy_order_def)
  with False assms(3) show ?thesis by (auto simp: same_but_bids_def)
qed

lemma collect_sell:
  assumes "st a = Some x" "\<not> is_buy_order x" "asks_are s L" "max_orders s = 200"
  shows "\<exists>s'. collect_orders st a (Some s) = Some s' \<and> asks_are s' (if live x \<and> length L < 200 then L @ [x] else L) \<and>
    same_but_asks s s'"
proof (cases "live x \<and> length L < 200")
  case True
  then show ?thesis
    using assms by (cases s) (auto simp: collect_orders_def live_def asks_are_def same_but_asks_def order_is_buy_order_def
        order_get_price_def order_get_remaining_quantity_def array_def take_update_end split: option.splits)
next
  case False
  then have "collect_orders st a (Some s) = Some s"
    using assms by (auto simp: collect_orders_def live_def asks_are_def order_is_buy_order_def)
  with False assms(3) show ?thesis by (auto simp: same_but_asks_def)
qed

lemma same_but_fields:
  "same_but_bids s s' \<Longrightarrow> max_orders s' = max_orders s \<and> bs_symbol s' = bs_symbol s \<and> (asks_are s' L \<longleftrightarrow> asks_are s L)"
  "same_but_asks s s' \<Longrightarrow> max_orders s' = max_orders s \<and> bs_symbol s' = bs_symbol s \<and> (bids_are s' L' \<longleftrightarrow> bids_are s L')"
  by (cases s; cases s'; simp add: same_but_bids_def same_but_asks_def asks_are_def bids_are_def)+

lemma same_but_trans:
  "same_but_bids s s1 \<Longrightarrow> same_but_bids s1 s2 \<Longrightarrow> same_but_bids s s2"
  "same_but_asks s s1 \<Longrightarrow> same_but_asks s1 s2 \<Longrightarrow> same_but_asks s s2"
  by (cases s; cases s1; cases s2; simp add: same_but_bids_def same_but_asks_def)+

lemma take_filter_step:
  "length L \<le> 200 \<Longrightarrow> take 200 ((if P x \<and> length L < 200 then L @ [x] else L) @ filter P xs) = take 200 (L @ filter P (x # xs))"
  by (auto simp: take_Cons')

lemma collect_buys:
  "\<forall>e \<in> set es. entry_ok st True e \<Longrightarrow> bids_are s L \<Longrightarrow> max_orders s = 200 \<Longrightarrow>
   \<exists>s'. fold (collect_orders st) (map snd es) (Some s) = Some s' \<and>
     bids_are s' (take 200 (L @ filter live (map (deref st) es))) \<and> same_but_bids s s'"
proof (induction es arbitrary: s L)
  case Nil
  then show ?case by (auto simp: bids_are_def same_but_bids_def)
next
  case (Cons e es)
  obtain x where x: "st (snd e) = Some x" "is_buy_order x"
    using Cons.prems(1) by (auto simp: entry_ok_def split: option.splits)
  obtain s1 where s1: "collect_orders st (snd e) (Some s) = Some s1"
      "bids_are s1 (if live x \<and> length L < 200 then L @ [x] else L)" "same_but_bids s s1"
    using collect_buy [of st "snd e" x s L, OF x Cons.prems(2,3)] by blast
  have m: "max_orders s1 = 200" using same_but_fields(1) [OF s1(3)] Cons.prems(3) by simp
  have "\<forall>e \<in> set es. entry_ok st True e" using Cons.prems(1) by simp
  from Cons.IH [OF this s1(2) m] obtain s2 where s2: "fold (collect_orders st) (map snd es) (Some s1) = Some s2"
    "bids_are s2 (take 200 ((if live x \<and> length L < 200 then L @ [x] else L) @ filter live (map (deref st) es)))"
    "same_but_bids s1 s2" by blast
  have L: "length L \<le> 200" using Cons.prems(2) by (simp add: bids_are_def)
  have d: "deref st e = x" using x(1) by (simp add: deref_def)
  from s2 s1 same_but_trans(1) take_filter_step [OF L, of live x "map (deref st) es"] show ?case
    by (auto simp: d)
qed

lemma collect_sells:
  "\<forall>e \<in> set es. entry_ok st False e \<Longrightarrow> asks_are s L \<Longrightarrow> max_orders s = 200 \<Longrightarrow>
   \<exists>s'. fold (collect_orders st) (map snd es) (Some s) = Some s' \<and>
     asks_are s' (take 200 (L @ filter live (map (deref st) es))) \<and> same_but_asks s s'"
proof (induction es arbitrary: s L)
  case Nil
  then show ?case by (auto simp: asks_are_def same_but_asks_def)
next
  case (Cons e es)
  obtain x where x: "st (snd e) = Some x" "\<not> is_buy_order x"
    using Cons.prems(1) by (auto simp: entry_ok_def split: option.splits)
  obtain s1 where s1: "collect_orders st (snd e) (Some s) = Some s1"
      "asks_are s1 (if live x \<and> length L < 200 then L @ [x] else L)" "same_but_asks s s1"
    using collect_sell [of st "snd e" x s L, OF x Cons.prems(2,3)] by blast
  have m: "max_orders s1 = 200" using same_but_fields(2) [OF s1(3)] Cons.prems(3) by simp
  have "\<forall>e \<in> set es. entry_ok st False e" using Cons.prems(1) by simp
  from Cons.IH [OF this s1(2) m] obtain s2 where s2: "fold (collect_orders st) (map snd es) (Some s1) = Some s2"
    "asks_are s2 (take 200 ((if live x \<and> length L < 200 then L @ [x] else L) @ filter live (map (deref st) es)))"
    "same_but_asks s1 s2" by blast
  have L: "length L \<le> 200" using Cons.prems(2) by (simp add: asks_are_def)
  have d: "deref st e = x" using x(1) by (simp add: deref_def)
  from s2 s1 same_but_trans(2) take_filter_step [OF L, of live x "map (deref st) es"] show ?case
    by (auto simp: d)
qed

lemma take_snapshot_levels:
  assumes "book_ok st book" "mem_ok mem"
  obtains s where "take_snapshot mem st sy book = Some (Some s)"
    "bids_are s (take 200 (filter live (rev (bids st book))))" "asks_are s (take 200 (filter live (asks st book)))"
    "bs_symbol s = strncpy (replicate 16 NUL) sy 15"
proof -
  obtain bp bq ap aq where m: "bid_price_mem mem 200 = Some bp" "length bp = 200" "bid_quantity_mem mem 200 = Some bq" "length bq = 200"
    "ask_price_mem mem 200 = Some ap" "length ap = 200" "ask_quantity_mem mem 200 = Some aq" "length aq = 200"
    using assms(2) unfolding mem_ok_def by metis
  define s0 where "s0 = (empty_snapshot sy)\<lparr>bid_prices := Some bp, bid_quantities := Some bq, ask_prices := Some ap, ask_quantities := Some aq\<rparr>"
  have s0: "bids_are s0 []" "asks_are s0 []" "max_orders s0 = 200" "bs_symbol s0 = strncpy (replicate 16 NUL) sy 15"
    using m by (auto simp: s0_def empty_snapshot_def bids_are_def asks_are_def array_def)
  obtain tb where tb: "buy_orders book = Some tb" "\<forall>e \<in> set (entries (root tb)). entry_ok st True e"
    using side_of_SomeE [OF assms(1), of True] by (auto simp: side_of_def)
  obtain ta where ta: "sell_orders book = Some ta" "\<forall>e \<in> set (entries (root ta)). entry_ok st False e"
    using side_of_SomeE [OF assms(1), of False] by (auto simp: side_of_def)
  obtain s1 where s1: "fold (collect_orders st) (map snd (entries (root tb))) (Some s0) = Some s1"
      "bids_are s1 (take 200 ([] @ filter live (map (deref st) (entries (root tb)))))" "same_but_bids s0 s1"
    using collect_buys [OF tb(2) s0(1,3)] by blast
  note f1 = same_but_fields(1) [OF s1(3), of "[]"]
  obtain s2 where s2: "fold (collect_orders st) (map snd (entries (root ta))) (Some s1) = Some s2"
      "asks_are s2 (take 200 ([] @ filter live (map (deref st) (entries (root ta)))))" "same_but_asks s1 s2"
    using collect_sells [OF ta(2), of s1 "[]"] f1 s0(2,3) by auto
  have "take_snapshot mem st sy book = Some (Some s2)"
    using m tb(1) ta(1) s1(1) s2(1) by (simp add: take_snapshot_def avl_inorder_traverse_def inorder_traverse_fold s0_def [symmetric])
  with that s1(2) s2 f1 same_but_fields(2) [OF s2(3)] s0(4) tb(1) ta(1) show ?thesis
    by (simp add: bids_def asks_def side_entries_def)
qed

text \<open>A snapshot of a book whose prices are finite can be written.\<close>

definition prices_finite :: "store \<Rightarrow> OrderBook \<Rightarrow> bool" where
  "prices_finite st book \<longleftrightarrow> list_all (\<lambda>x. finite_double (price x)) (bids st book @ asks st book)"

lemma book_quantities_fit:
  "book_ok st book \<Longrightarrow> x \<in> set (asks st book) \<or> x \<in> set (bids st book) \<Longrightarrow> fits 32 (remaining_quantity x)"
  by (auto simp: book_ok_def asks_def bids_def side_entries_def deref_def entry_ok_def order_ok_def fits_def
      dest!: side_ok_SomeD split: option.splits) (force split: option.splits)+

lemma sides_levels_ok:
  "bids_are s L \<Longrightarrow> list_all (\<lambda>x. finite_double (price x) \<and> fits 32 (remaining_quantity x)) L \<Longrightarrow> levels_ok (num_bids s) (bid_levels s)"
  "asks_are s L \<Longrightarrow> list_all (\<lambda>x. finite_double (price x) \<and> fits 32 (remaining_quantity x)) L \<Longrightarrow> levels_ok (num_asks s) (ask_levels s)"
  by (auto simp: bids_are_def asks_are_def levels_ok_def bid_levels_def ask_levels_def list_all_iff)

lemma take_snapshot_ok:
  assumes "book_ok st book" "prices_finite st book"
    and "bids_are s (take 200 (filter live (rev (bids st book))))" "asks_are s (take 200 (filter live (asks st book)))"
  shows "snapshot_ok s"
proof -
  have ok: "list_all (\<lambda>x. finite_double (price x) \<and> fits 32 (remaining_quantity x)) (take k (filter live L))"
    if "set L \<subseteq> set (bids st book) \<union> set (asks st book)" for k L
    using that assms(2) book_quantities_fit [OF assms(1)]
    by (auto simp: list_all_iff prices_finite_def dest!: in_set_takeD)
  show ?thesis
    unfolding snapshot_ok_def
    using sides_levels_ok(1) [OF assms(3)] sides_levels_ok(2) [OF assms(4)] ok [of "rev (bids st book)"] ok [of "asks st book"]
    by auto
qed

section \<open>The table of books\<close>

definition handlers_ok :: "store \<Rightarrow> ServerHandlers \<Rightarrow> bool" where
  "handlers_ok st h \<longleftrightarrow> length (books h) = MAX_SYMBOLS \<and> length (symbols h) = MAX_SYMBOLS \<and>
     0 \<le> book_count h \<and> book_count h \<le> int MAX_SYMBOLS \<and>
     (\<forall>i < nat (book_count h). (\<exists>s. c_string (symbols h ! i) = Some s) \<and>
        (\<exists>b. books h ! i = Some b \<and> book_ok st b \<and> prices_finite st b)) \<and>
     (\<forall>i < MAX_SYMBOLS. nat (book_count h) \<le> i \<longrightarrow> symbols h ! i = replicate 16 NUL)"

lemma find_book_total:
  assumes "handlers_ok st h"
  shows "find_book h sy = Some (find_index (\<lambda>b. c_string b = Some sy) (take (nat (book_count h)) (symbols h)))"
proof -
  have "\<forall>b \<in> set (take (nat (book_count h)) (symbols h)). c_string b \<noteq> None"
    using assms by (fastforce simp: handlers_ok_def in_set_conv_nth)
  then show ?thesis unfolding find_book_def by (rule find_symbol_total)
qed

lemma find_book_Some:
  assumes "handlers_ok st h" "find_book h sy = Some (Some i)"
  shows "i < nat (book_count h)" "c_string (symbols h ! i) = Some sy"
    "\<exists>b. books h ! i = Some b \<and> book_ok st b \<and> prices_finite st b" "i < length (books h)"
proof -
  have "find_index (\<lambda>b. c_string b = Some sy) (take (nat (book_count h)) (symbols h)) = Some i"
    using assms find_book_total [OF assms(1)] by simp
  then have i: "i < nat (book_count h)" "i < length (symbols h)" "c_string (symbols h ! i) = Some sy"
    using find_index_SomeD by fastforce+
  with assms(1) show "i < nat (book_count h)" "c_string (symbols h ! i) = Some sy"
    "\<exists>b. books h ! i = Some b \<and> book_ok st b \<and> prices_finite st b" "i < length (books h)"
    by (auto simp: handlers_ok_def)
qed

text \<open>A new book is well formed and empty, and the table with it keeps its invariant.\<close>

lemma new_book_ok:
  assumes "order_book_create m1 m2 m3 br = Some b"
  shows "book_ok st b \<and> prices_finite st b"
  using order_book_create_ok [OF assms, of st] by (simp add: prices_finite_def)

lemma append_book_ok:
  assumes "handlers_ok st h" "book_count h < int MAX_SYMBOLS" "book_ok st b" "prices_finite st b"
    and "NUL \<notin> set sy" "length sy < 16"
  obtains h1 where "append_book h sy b = Some h1" "handlers_ok st h1" "book_count h1 = book_count h + 1"
    "books h1 ! nat (book_count h) = Some b" "c_string (symbols h1 ! nat (book_count h)) = Some sy"
    "sh_trade_broadcaster h1 = sh_trade_broadcaster h"
proof -
  let ?n = "nat (book_count h)"
  have n: "0 \<le> book_count h" "?n < MAX_SYMBOLS" "length (books h) = MAX_SYMBOLS" "length (symbols h) = MAX_SYMBOLS"
    using assms(1,2) by (auto simp: handlers_ok_def)
  have z: "symbols h ! ?n = replicate 16 NUL" using assms(1) n by (simp add: handlers_ok_def)
  have c: "c_string (strncpy (replicate 16 NUL) sy 15) = Some sy"
    using c_string_strncpy [OF assms(5), of 15 "replicate 16 NUL"] assms(6) by simp
  define h1 where "h1 = h\<lparr>books := (books h)[?n := Some b],
    symbols := (symbols h)[?n := strncpy (replicate 16 NUL) sy 15], book_count := book_count h + 1\<rparr>"
  have "append_book h sy b = Some h1"
    using n assms(2) z by (simp add: append_book_def h1_def)
  moreover have "nat (book_count h + 1) = Suc ?n" using n(1) by simp
  then have "handlers_ok st h1"
    using assms(1-4) n c by (auto simp: handlers_ok_def h1_def nth_list_update less_Suc_eq)
  ultimately show ?thesis using that [of h1] n c by (simp add: h1_def)
qed

section \<open>Changes of the store\<close>

text \<open>Orders may be added and used up; every book stays as it is.\<close>

definition store_le :: "store \<Rightarrow> store \<Rightarrow> bool" where
  "store_le st st' \<longleftrightarrow> (\<forall>a x. st a = Some x \<longrightarrow> (\<exists>y. st' a = Some y \<and> used_up x y))"

lemma store_le_extend: "st a = None \<Longrightarrow> store_le st (st(a \<mapsto> x))"
  by (auto simp: store_le_def)

lemma store_frame_le: "store_frame b st st' \<Longrightarrow> store_le st st'"
  by (simp add: store_frame_def store_le_def)

lemma entry_ok_le:
  assumes "store_le st st'" "entry_ok st buy e"
  shows "entry_ok st' buy e \<and> price (deref st' e) = price (deref st e)"
proof -
  obtain x y where x: "st (snd e) = Some x" "(price x, timestamp x) = fst e" "is_buy_order x = buy" "order_ok x"
      and y: "st' (snd e) = Some y" "used_up x y"
    using assms by (fastforce simp: entry_ok_def store_le_def split: option.splits)
  have "price y = price x" "timestamp y = timestamp x" "is_buy_order y = is_buy_order x" "order_id y = order_id x"
      "trader_id y = trader_id x" "symbol y = symbol x" "quantity y = quantity x"
      "remaining_quantity y \<le> remaining_quantity x" "remaining_quantity y = remaining_quantity x \<or> 0 \<le> remaining_quantity y"
    using y(2) by (cases x, cases y, auto simp add: used_up_def)+
  with x y show ?thesis by (auto simp: entry_ok_def deref_def order_ok_def fits_def)
qed

lemma book_ok_le:
  assumes "store_le st st'" "book_ok st b"
  shows "book_ok st' b" "prices_finite st b \<Longrightarrow> prices_finite st' b"
proof -
  show "book_ok st' b"
    using assms entry_ok_le [OF assms(1)] by (auto simp: book_ok_def side_ok_def split: option.splits)
  have "map price (map (deref st') (side_entries (side_of buy b))) = map price (map (deref st) (side_entries (side_of buy b)))" for buy
  proof -
    obtain t where "side_of buy b = Some t" "\<forall>e \<in> set (entries (root t)). entry_ok st buy e"
      using side_of_SomeE [OF assms(2)] by blast
    then show ?thesis using entry_ok_le [OF assms(1)] by (simp add: side_entries_def) blast
  qed
  from this [of True] this [of False]
  have "map price (bids st' b) = map price (bids st b)" "map price (asks st' b) = map price (asks st b)"
    by (simp_all add: bids_def asks_def side_of_def rev_map [symmetric] del: map_map)
  moreover have "prices_finite s b \<longleftrightarrow> list_all finite_double (map price (bids s b) @ map price (asks s b))" for s
    by (auto simp: prices_finite_def list_all_iff)
  ultimately show "prices_finite st b \<Longrightarrow> prices_finite st' b" by simp
qed

lemma handlers_ok_le: "store_le st st' \<Longrightarrow> handlers_ok st h \<Longrightarrow> handlers_ok st' h"
  using book_ok_le [of st st'] unfolding handlers_ok_def by (metis (no_types, lifting))

text \<open>Replacing a book in use by a well-formed one.\<close>

lemma handlers_ok_update:
  assumes "handlers_ok st h" "i < nat (book_count h)" "book_ok st b" "prices_finite st b"
  shows "handlers_ok st (h\<lparr>books := (books h)[i := Some b]\<rparr>)"
  using assms by (auto simp: handlers_ok_def nth_list_update)

section \<open>Executing an order\<close>

text \<open>Finite prices are kept by adding a finite order and by matching.\<close>

lemma consume_price: "x \<in> set (consume q xs) \<Longrightarrow> price x \<in> price ` set xs"
  by (induction q xs rule: consume.induct) (auto split: if_splits)

lemma prices_finite_consume:
  assumes "prices_finite st b" "bids st' b' = consume q (bids st b)" "asks st' b' = consume q (asks st b)"
  shows "prices_finite st' b'"
  using assms consume_price by (fastforce simp: prices_finite_def list_all_iff)

lemma prices_finite_add:
  assumes "prices_finite st b" "st a = Some x" "finite_double (price x)"
    and "side_entries (side_of (is_buy_order x) b') = ins_key (rank_key x) a (side_entries (side_of (is_buy_order x) b))"
    and "side_of (\<not> is_buy_order x) b' = side_of (\<not> is_buy_order x) b"
  shows "prices_finite st b'"
proof -
  have pf: "prices_finite st bk \<longleftrightarrow> (\<forall>buy. \<forall>e \<in> set (side_entries (side_of buy bk)). finite_double (price (deref st e)))" for bk
    by (auto simp: prices_finite_def list_all_iff bids_def asks_def side_of_def split: if_splits)
  have "finite_double (price (deref st e))" if "e \<in> set (side_entries (side_of buy b'))" for buy e
  proof (cases "buy = is_buy_order x")
    case True
    with that assms(4) have "e \<in> insert (rank_key x, a) (set (side_entries (side_of buy b)))"
      using set_ins_key_subset by fastforce
    with assms(1-3) pf show ?thesis by (auto simp: deref_def)
  next
    case False
    then have "side_of buy b' = side_of buy b" using assms(5) by (cases buy) auto
    with that assms(1) pf show ?thesis by auto
  qed
  with pf show ?thesis by blast
qed

context cjson_api
begin

text \<open>
  On a well-formed table an order with a finite price is added, confirmed, matched until the book is
  not crossed, and the client gets the snapshot of the book.
\<close>

lemma execute_order_ok:
  assumes h: "handlers_ok st h" "i < nat (book_count h)"
    and x: "order_ok x" "price x = Fin p" "NUL \<notin> set (symbol x)" "length (symbol x) < 16"
    and env: "st (e_new_addr env) = None" "mem_ok (e_snapshot_mem env)"
  shows "\<exists>out b' snap t b1. execute_order env J h st client i x text = Some out \<and> o_rc out = 0 \<and>
    order_book_add_order (e_node_mem env) (st(e_new_addr env \<mapsto> x)) (books h ! i) (Some (e_new_addr env)) = Some (0, Some b1) \<and>
    order_book_match_orders (e_clock env) (st(e_new_addr env \<mapsto> x)) (Some b1) = Some (o_store out, Some b', o_trades out) \<and>
    o_handlers out = h\<lparr>books := (books h)[i := Some b']\<rparr> \<and> handlers_ok (o_store out) (o_handlers out) \<and>
    \<not> crossing (bids (o_store out) b') (asks (o_store out) b') \<and>
    bids_are snap (take 200 (filter live (rev (bids (o_store out) b')))) \<and>
    asks_are snap (take 200 (filter live (asks (o_store out) b'))) \<and>
    serialize_book_snapshot J (Some snap) = Some (Some t) \<and>
    o_frames out = snd (send_nth env 0 client text) @ snd (send_nth env 1 client t)"
proof -
  let ?a = "e_new_addr env"
  let ?st1 = "st(?a \<mapsto> x)"
  obtain b where b: "books h ! i = Some b" "book_ok st b" "prices_finite st b" and i: "i < length (books h)"
    using h by (auto simp: handlers_ok_def)
  have le1: "store_le st ?st1" using env(1) by (rule store_le_extend)
  note ok1 = book_ok_le [OF le1 b(2)] and a = fun_upd_same [of st ?a "Some x"]
  have "price x \<noteq> NaN" using x(2) by simp
  obtain b1 where b1: "order_book_add_order (e_node_mem env) ?st1 (Some b) (Some ?a) = Some (0, Some b1)"
      "book_ok ?st1 b1" "prices_finite ?st1 b1"
  proof (cases "e_node_mem env")
    case True
    with add_order_ok [OF ok1(1) a x(1) \<open>price x \<noteq> NaN\<close>] that prices_finite_add [OF ok1(2) [OF b(3)] a]
    show ?thesis by (metis finite_double.simps(1) x(2))
  next
    case False
    with add_order_no_memory [OF ok1(1) a] that ok1 b(3) show ?thesis by (simp del: fun_upd_apply)
  qed
  obtain ts bs ss where m: "match_lists (bids ?st1 b1) (asks ?st1 b1) = (ts, bs, ss)" by (metis prod_cases3)
  obtain st2 b2 cs where r: "order_book_match_orders (e_clock env) ?st1 (Some b1) = Some (st2, Some b2, cs)"
      "book_ok st2 b2" "bids st2 b2 = bs" "asks st2 b2 = ss" "store_frame b1 ?st1 st2"
    using order_book_match_orders_lists [OF b1(2) m, of "e_clock env"] by metis
  have pf: "prices_finite st2 b2"
    using prices_finite_consume [OF b1(3)] match_lists_consume [OF m] r(3,4) by metis
  have h2: "handlers_ok st2 (h\<lparr>books := (books h)[i := Some b2]\<rparr>)"
    using handlers_ok_update [OF _ h(2) r(2) pf] handlers_ok_le [OF store_frame_le [OF r(5)] handlers_ok_le [OF le1 h(1)]] .
  obtain snap where snap: "take_snapshot (e_snapshot_mem env) st2 (symbol x) b2 = Some (Some snap)"
    "bids_are snap (take 200 (filter live (rev (bids st2 b2))))" "asks_are snap (take 200 (filter live (asks st2 b2)))"
    "bs_symbol snap = strncpy (replicate 16 NUL) (symbol x) 15"
    by (rule take_snapshot_levels [OF r(2) env(2)])
  have "c_string (bs_symbol snap) = Some (symbol x)"
    using c_string_strncpy [OF x(3), of 15 "replicate 16 NUL"] x(4) by (simp add: snap(4))
  then obtain t where t: "serialize_book_snapshot J (Some snap) = Some (Some t)"
    using snapshot_text [OF take_snapshot_ok [OF r(2) pf snap(2,3)]] by blast
  have "\<not> crossing (bids st2 b2) (asks st2 b2)" using match_lists_uncrossed [OF m] r(3,4) by simp
  moreover have "execute_order env J h st client i x text = Some \<lparr>o_rc = 0, o_handlers = h\<lparr>books := (books h)[i := Some b2]\<rparr>,
      o_store = st2, o_frames = snd (send_nth env 0 client text) @ snd (send_nth env 1 client t), o_trades = cs\<rparr>"
    using i b(1) b1(1) r(1) snap(1) t by (simp add: execute_order_def del: fun_upd_apply)
  ultimately show ?thesis using h2 snap(2,3) t b(1) b1(1) r(1) by (force simp del: fun_upd_apply)
qed

lemma find_or_create_ok:
  assumes "handlers_ok st h" "NUL \<notin> set sy" "length sy < 16" "sh_trade_broadcaster h \<noteq> None"
    and "find_book h sy \<noteq> Some None \<or> book_count h < int MAX_SYMBOLS"
  obtains h1 i where "find_or_create (True, True, True) h sy = Some (h1, Some i)" "handlers_ok st h1"
    "i < nat (book_count h1)" "c_string (symbols h1 ! i) = Some sy"
proof (cases "find_book h sy = Some None")
  case False
  then obtain i where i: "find_book h sy = Some (Some i)" using find_book_total [OF assms(1)] by (metis option.exhaust)
  from find_book_Some [OF assms(1) i] that [of h i] i assms(1) show ?thesis by (auto simp: find_or_create_def)
next
  case True
  obtain br where "sh_trade_broadcaster h = Some br" using assms(4) by blast
  then obtain b where b: "order_book_create True True True (sh_trade_broadcaster h) = Some b"
    by (simp add: order_book_create_def avl_create_def)
  have "book_count h < int MAX_SYMBOLS" using assms(5) True by blast
  from append_book_ok [OF assms(1) this _ _ assms(2,3)] new_book_ok [OF b, of st] obtain h1 where
    "append_book h sy b = Some h1" "handlers_ok st h1" "book_count h1 = book_count h + 1"
    "c_string (symbols h1 ! nat (book_count h)) = Some sy" by metis
  moreover have "0 \<le> book_count h" using assms(1) by (simp add: handlers_ok_def)
  ultimately show ?thesis using that [of h1 "nat (book_count h)"] True b by (simp add: find_or_create_def)
qed

text \<open>A well-formed order message, from the text to the outcome.\<close>

lemma place_order_ok:
  assumes h: "handlers_ok st h" "sh_trade_broadcaster h \<noteq> None"
      "find_book h sy \<noteq> Some None \<or> book_count h < int MAX_SYMBOLS"
    and msg: "finite_json (view node) \<and> nested_le 1000 (view node)" "json_get (view node) ''order_id'' = Some (JStr oid)"
      "json_get (view node) ''trader_id'' = Some (JStr tid)" "json_get (view node) ''symbol'' = Some (JStr sy)"
      "json_get (view node) ''price'' = Some (JNum (Fin p'))" "json_get (view node) ''quantity'' = Some (JNum (Fin (of_int q)))"
      "json_get (view node) ''is_buy'' = Some (JBool buy)"
    and fields: "NUL \<notin> set oid" "NUL \<notin> set tid" "NUL \<notin> set sy" "length oid < 31" "length tid < 31" "length sy < 15"
      "fits 32 q" "reread (Fin p') = Fin p"
    and env: "book_mem env = (True, True, True)" "e_order_mem env" "st (e_new_addr env) = None" "mem_ok (e_snapshot_mem env)"
  shows "\<exists>out h1 i x b1 b' snap t. handle_place_order env J h st client node = Some out \<and> o_rc out = 0 \<and>
    find_or_create (True, True, True) h sy = Some (h1, Some i) \<and>
    order_create True (e_now env) oid tid sy (Fin p) q buy = Some x \<and>
    order_book_add_order (e_node_mem env) (st(e_new_addr env \<mapsto> x)) (books h1 ! i) (Some (e_new_addr env)) = Some (0, Some b1) \<and>
    order_book_match_orders (e_clock env) (st(e_new_addr env \<mapsto> x)) (Some b1) = Some (o_store out, Some b', o_trades out) \<and>
    handlers_ok (o_store out) (o_handlers out) \<and> i < nat (book_count (o_handlers out)) \<and>
    c_string (symbols (o_handlers out) ! i) = Some sy \<and> books (o_handlers out) ! i = Some b' \<and>
    \<not> crossing (bids (o_store out) b') (asks (o_store out) b') \<and>
    bids_are snap (take 200 (filter live (rev (bids (o_store out) b')))) \<and>
    asks_are snap (take 200 (filter live (asks (o_store out) b'))) \<and>
    serialize_book_snapshot J (Some snap) = Some (Some t) \<and>
    o_frames out = snd (send_nth env 0 client (accepted_text buy oid tid sy (Fin p) q (e_time_text env))) @ snd (send_nth env 1 client t)"
proof -
  obtain tx j where tx: "cJSON_Print J (Some node) = Some tx" "cJSON_Parse J tx = Some j" "view j = renumber reread (view node)"
    using print_parse msg(1) by blast
  let ?m = "(e_stack env)\<lparr>om_order_id := strncpy (om_order_id (e_stack env)) oid 31,
    om_trader_id := strncpy (om_trader_id (e_stack env)) tid 31, om_symbol := strncpy (om_symbol (e_stack env)) sy 15,
    om_price := Fin p, om_quantity := q, om_is_buy := buy\<rparr>"
  have parsed: "parse_order_message J (Some tx) (Some (e_stack env)) = Some (True, Some ?m)"
    by (rule parse_order_message_fields [OF tx(2)])
      (use msg fields in \<open>simp_all add: tx(3) json_get_renumber reread_int [OF fields(7)]\<close>)
  have cs: "c_string (om_order_id ?m) = Some oid" "c_string (om_trader_id ?m) = Some tid" "c_string (om_symbol ?m) = Some sy"
    using fields by (simp_all add: c_string_strncpy_short)
  obtain h1 i where h1: "find_or_create (True, True, True) h sy = Some (h1, Some i)" "handlers_ok st h1"
      "i < nat (book_count h1)" "c_string (symbols h1 ! i) = Some sy"
    by (rule find_or_create_ok [OF h(1) fields(3) _ h(2,3)]) (use fields(6) in simp_all)
  obtain x where x: "order_create True (e_now env) oid tid sy (Fin p) q buy = Some x"
    using fields by (simp add: order_create_def MAX_ID_LENGTH_def MAX_SYMBOL_LENGTH_def)
  note xf = order_create_SomeD [OF x] and xok = order_create_ok [OF x fields(7)]
  have ex: "handle_place_order env J h st client node =
      execute_order env J h1 st client i x (accepted_text buy oid tid sy (Fin p) q (e_time_text env))"
    using tx(1) parsed cs h1(1) x env(1,2) by (simp add: handle_place_order_def)
  have sx: "NUL \<notin> set (symbol x)" "length (symbol x) < 16" using xf(3) fields(3,6) by simp_all
  obtain out b' snap t b1 where "execute_order env J h1 st client i x (accepted_text buy oid tid sy (Fin p) q (e_time_text env)) = Some out"
    "o_rc out = 0"
    "order_book_add_order (e_node_mem env) (st(e_new_addr env \<mapsto> x)) (books h1 ! i) (Some (e_new_addr env)) = Some (0, Some b1)"
    "order_book_match_orders (e_clock env) (st(e_new_addr env \<mapsto> x)) (Some b1) = Some (o_store out, Some b', o_trades out)"
    "o_handlers out = h1\<lparr>books := (books h1)[i := Some b']\<rparr>" "handlers_ok (o_store out) (o_handlers out)"
    "\<not> crossing (bids (o_store out) b') (asks (o_store out) b')"
    "bids_are snap (take 200 (filter live (rev (bids (o_store out) b'))))" "asks_are snap (take 200 (filter live (asks (o_store out) b')))"
    "serialize_book_snapshot J (Some snap) = Some (Some t)"
    "o_frames out = snd (send_nth env 0 client (accepted_text buy oid tid sy (Fin p) q (e_time_text env))) @ snd (send_nth env 1 client t)"
    using execute_order_ok [OF h1(2,3) xok xf(4) sx env(3,4)] by blast
  moreover have "i < length (books h1)" using h1(2,3) by (auto simp: handlers_ok_def)
  ultimately show ?thesis
    using ex h1(1,3,4) x
    by (intro exI [of _ out] exI [of _ h1] exI [of _ i] exI [of _ x] exI [of _ b1] exI [of _ b'] exI [of _ snap] exI [of _ t])
      (simp del: fun_upd_apply)
qed

end

end
