(* ===== verification/Market_Data.thy ===== *)
theory Market_Data
  imports Handler_Facts
begin

text \<open>
  \<open>src/server/market_data.c\<close>: the registry of symbols with a book each, and the snapshot requests. The
  arrays have \<open>MAX_SYMBOLS\<close> slots, zeroed at creation. Where the source has a TODO, nothing is
  copied or filled here either. Starting and stopping the periodic thread
  are here; its body, which only allocates and frees, is in theory \<open>Server_Lifetimes\<close>.
\<close>

section \<open>State\<close>

record MarketDataConfig =
  mc_snapshot_interval_ms :: int
  mc_max_depth :: int
  mc_max_symbols :: int
  mc_trade_broadcaster :: "TradeBroadcaster option"

record MarketData =
  md_trade_broadcaster :: "TradeBroadcaster option"
  md_running :: bool
  md_symbols :: "char list list"
  md_books :: "OrderBook option list"
  md_book_count :: int
  snapshot_interval_ms :: int
  max_depth :: int

definition market_data_create :: "bool \<Rightarrow> MarketDataConfig \<Rightarrow> MarketData option" where
  "market_data_create calloc_ok c = (if \<not> calloc_ok then None
     else Some \<lparr>md_trade_broadcaster = mc_trade_broadcaster c, md_running = False,
       md_symbols = replicate MAX_SYMBOLS (replicate 16 NUL), md_books = replicate MAX_SYMBOLS None, md_book_count = 0,
       snapshot_interval_ms = mc_snapshot_interval_ms c, max_depth = mc_max_depth c\<rparr>)"

definition market_data_start_snapshot_timer :: "bool \<Rightarrow> MarketData option \<Rightarrow> rc \<times> MarketData option" where
  "market_data_start_snapshot_timer thread_ok m' = (case m' of None \<Rightarrow> (- 1, None)
     | Some m \<Rightarrow> if md_running m then (- 1, m')
         else if \<not> thread_ok then (- 1, Some (m\<lparr>md_running := False\<rparr>))
         else (0, Some (m\<lparr>md_running := True\<rparr>)))"

definition market_data_stop_snapshot_timer :: "MarketData option \<Rightarrow> rc \<times> MarketData option" where
  "market_data_stop_snapshot_timer m' = (case m' of None \<Rightarrow> (- 1, None)
     | Some m \<Rightarrow> if \<not> md_running m then (- 1, m') else (0, Some (m\<lparr>md_running := False\<rparr>)))"

section \<open>Operations\<close>

text \<open>The passed book is only tested for NULL. The new symbol's slot was zeroed at creation.\<close>

definition market_data_update_book ::
  "bool \<times> bool \<times> bool \<Rightarrow> MarketData option \<Rightarrow> string option \<Rightarrow> OrderBook option \<Rightarrow> (rc \<times> MarketData option) option" where
  "market_data_update_book mem m' sy' book = (case (m', sy', book) of
     (Some m, Some sy, Some _) \<Rightarrow> do {
       found \<leftarrow> find_symbol (take (nat (md_book_count m)) (md_symbols m)) sy;
       (case found of Some i \<Rightarrow> Some (0, m')
        | None \<Rightarrow>
            if md_book_count m < int MAX_SYMBOLS then do {
              old \<leftarrow> array_get (md_symbols m) (md_book_count m);
              ss \<leftarrow> array_set (md_symbols m) (md_book_count m) (strncpy old sy 15);
              bs \<leftarrow> array_set (md_books m) (md_book_count m)
                     (case mem of (m1, m2, m3) \<Rightarrow> order_book_create m1 m2 m3 (md_trade_broadcaster m));
              Some (0, Some (m\<lparr>md_symbols := ss, md_books := bs, md_book_count := md_book_count m + 1\<rparr>)) }
            else Some (- 1, m')) }
   | _ \<Rightarrow> Some (- 1, m'))"

text \<open>\<open>malloc\<close> for \<open>n\<close> elements; a negative number is a huge size, for which it fails.\<close>

definition malloc_n :: "int \<Rightarrow> (nat \<Rightarrow> 'a list option) \<Rightarrow> 'a list option" where
  "malloc_n n mem = (if n < 0 then None else mem (nat n))"

text \<open>The caller's snapshot gets its symbol and new arrays; their content and the counts are not set.\<close>

definition market_data_get_snapshot ::
  "snapshot_mem \<Rightarrow> MarketData option \<Rightarrow> string option \<Rightarrow> BookSnapshot option \<Rightarrow> (rc \<times> BookSnapshot option) option" where
  "market_data_get_snapshot mem m' sy' snapshot' = (case (m', sy', snapshot') of
     (Some m, Some sy, Some s) \<Rightarrow> do {
       found \<leftarrow> find_symbol (take (nat (md_book_count m)) (md_symbols m)) sy;
       (case found of None \<Rightarrow> Some (- 1, snapshot')
        | Some i \<Rightarrow>
            let n = max_depth m; bp = malloc_n n (bid_price_mem mem); bq = malloc_n n (bid_quantity_mem mem);
                ap = malloc_n n (ask_price_mem mem); aq = malloc_n n (ask_quantity_mem mem);
                s1 = s\<lparr>bs_symbol := strncpy (bs_symbol s) sy 15, bid_prices := bp, bid_quantities := bq,
                       ask_prices := ap, ask_quantities := aq\<rparr>
            in if bp = None \<or> bq = None \<or> ap = None \<or> aq = None then Some (- 1, Some s1) else Some (0, Some s1)) }
   | _ \<Rightarrow> Some (- 1, snapshot'))"

definition zero_snapshot :: BookSnapshot where
  "zero_snapshot = \<lparr>bs_symbol = replicate 16 NUL, num_bids = 0, num_asks = 0, max_orders = 0,
     bid_prices = None, bid_quantities = None, ask_prices = None, ask_quantities = None\<rparr>"

text \<open>The loop over the symbols; \<open>None\<close> when an allocation of one of them fails.\<close>

fun snapshots_loop :: "(nat \<Rightarrow> snapshot_mem) \<Rightarrow> nat \<Rightarrow> int \<Rightarrow> char list list \<Rightarrow> BookSnapshot list option" where
  "snapshots_loop mems i n [] = Some []"
| "snapshots_loop mems i n (b # bs) =
     (case (malloc_n n (bid_price_mem (mems i)), malloc_n n (bid_quantity_mem (mems i)), malloc_n n (ask_price_mem (mems i)), malloc_n n (ask_quantity_mem (mems i))) of
        (Some bp, Some bq, Some ap, Some aq) \<Rightarrow>
          map_option ((#) (zero_snapshot\<lparr>bs_symbol := strncpy (replicate 16 NUL) (the (c_string b)) 15, bid_prices := Some bp,
              bid_quantities := Some bq, ask_prices := Some ap, ask_quantities := Some aq\<rparr>))
            (snapshots_loop mems (Suc i) n bs)
      | _ \<Rightarrow> None)"

text \<open>The return code and, on success, the array of snapshots, whose length is \<open>*num_snapshots\<close>.\<close>

definition market_data_get_all_snapshots ::
  "bool \<Rightarrow> (nat \<Rightarrow> snapshot_mem) \<Rightarrow> MarketData option \<Rightarrow> rc \<times> BookSnapshot list" where
  "market_data_get_all_snapshots calloc_ok mems m' = (case m' of None \<Rightarrow> (- 1, [])
     | Some m \<Rightarrow> if \<not> calloc_ok then (- 1, [])
         else (case snapshots_loop mems 0 (max_depth m) (take (nat (md_book_count m)) (md_symbols m)) of
            None \<Rightarrow> (- 1, []) | Some ss \<Rightarrow> (0, ss)))"

definition market_data_get_symbol_count :: "MarketData option \<Rightarrow> int" where
  "market_data_get_symbol_count m' = (case m' of None \<Rightarrow> 0 | Some m \<Rightarrow> md_book_count m)"

definition market_data_get_total_orders :: "MarketData option \<Rightarrow> int" where
  "market_data_get_total_orders m' = 0"

definition market_data_get_total_volume :: "MarketData option \<Rightarrow> double" where
  "market_data_get_total_volume m' = Fin 0"

section \<open>Invariant and meaning\<close>

definition market_ok :: "MarketData \<Rightarrow> bool" where
  "market_ok m \<longleftrightarrow> length (md_symbols m) = MAX_SYMBOLS \<and> length (md_books m) = MAX_SYMBOLS \<and>
     0 \<le> md_book_count m \<and> md_book_count m \<le> int MAX_SYMBOLS \<and>
     (\<forall>i < nat (md_book_count m). c_string (md_symbols m ! i) \<noteq> None) \<and>
     (\<forall>i < MAX_SYMBOLS. nat (md_book_count m) \<le> i \<longrightarrow> md_symbols m ! i = replicate 16 NUL)"

definition market_names :: "MarketData \<Rightarrow> string list" where
  "market_names m = map (\<lambda>b. the (c_string b)) (take (nat (md_book_count m)) (md_symbols m))"

lemma market_find:
  assumes "market_ok m"
  shows "find_symbol (take (nat (md_book_count m)) (md_symbols m)) sy = Some (find_index (\<lambda>s. s = sy) (market_names m))"
proof -
  have t: "\<forall>b \<in> set (take (nat (md_book_count m)) (md_symbols m)). c_string b \<noteq> None"
    using assms by (fastforce simp: market_ok_def in_set_conv_nth)
  have "find_index (\<lambda>b. c_string b = Some sy) bs = find_index (\<lambda>s. s = sy) (map (\<lambda>b. the (c_string b)) bs)"
    if "\<forall>b \<in> set bs. c_string b \<noteq> None" for bs
    using that by (induction bs) auto
  from this [OF t] find_symbol_total [OF t, of sy] show ?thesis by (simp add: market_names_def)
qed

lemma update_book_spec:
  assumes "market_ok m" "NUL \<notin> set sy"
  obtains (known) "sy \<in> set (market_names m)" "market_data_update_book mem (Some m) (Some sy) (Some b) = Some (0, Some m)"
  | (added) m1 where "sy \<notin> set (market_names m)" "md_book_count m < int MAX_SYMBOLS"
      "market_data_update_book mem (Some m) (Some sy) (Some b) = Some (0, Some m1)" "market_ok m1"
      "market_names m1 = market_names m @ [take 15 sy]"
  | (full) "sy \<notin> set (market_names m)" "md_book_count m = int MAX_SYMBOLS"
      "market_data_update_book mem (Some m) (Some sy) (Some b) = Some (- 1, Some m)"
proof -
  let ?n = "nat (md_book_count m)"
  note F = market_find [OF assms(1), of sy]
  consider (known) i where "find_index (\<lambda>s. s = sy) (market_names m) = Some i"
    | (new) "find_index (\<lambda>s. s = sy) (market_names m) = None" by (cases "find_index (\<lambda>s. s = sy) (market_names m)") auto
  then show ?thesis
  proof cases
    case known
    then have "sy \<in> set (market_names m)" using find_index_SomeD by fastforce
    with known F that(1) show ?thesis by (simp add: market_data_update_book_def)
  next
    case new
    then have nin: "sy \<notin> set (market_names m)" by auto
    have none: "find_symbol (take ?n (md_symbols m)) sy = Some None" using F new by simp
    show ?thesis
    proof (cases "md_book_count m < int MAX_SYMBOLS")
      case False
      with assms(1) have "md_book_count m = int MAX_SYMBOLS" by (simp add: market_ok_def)
      then show ?thesis using none nin that(3) False by (simp add: market_data_update_book_def)
    next
      case True
      have n: "0 \<le> md_book_count m" "?n < MAX_SYMBOLS" "length (md_symbols m) = MAX_SYMBOLS" "length (md_books m) = MAX_SYMBOLS"
        using assms(1) True by (auto simp: market_ok_def)
      have z: "md_symbols m ! ?n = replicate 16 NUL" using assms(1) n by (simp add: market_ok_def)
      have c: "c_string (strncpy (replicate 16 NUL) sy 15) = Some (take 15 sy)"
        using c_string_strncpy [OF assms(2), of 15 "replicate 16 NUL"] by simp
      let ?book = "case mem of (m1, m2, m3) \<Rightarrow> order_book_create m1 m2 m3 (md_trade_broadcaster m)"
      define m1 where "m1 = m\<lparr>md_symbols := (md_symbols m)[?n := strncpy (replicate 16 NUL) sy 15],
        md_books := (md_books m)[?n := ?book], md_book_count := md_book_count m + 1\<rparr>"
      have s: "nat (md_book_count m + 1) = Suc ?n" using n(1) by simp
      have "market_data_update_book mem (Some m) (Some sy) (Some b) = Some (0, Some m1)"
        using none True n z by (simp add: market_data_update_book_def m1_def)
      moreover have "market_ok m1"
        using assms(1) n c s by (auto simp: market_ok_def m1_def nth_list_update less_Suc_eq)
      moreover have "market_names m1 = market_names m @ [take 15 sy]"
        using n c s by (simp add: market_names_def m1_def take_update_end)
      ultimately show ?thesis using that(2) nin True by blast
    qed
  qed
qed

end
