(* ===== verification/Session_Manager.thy ===== *)
theory Session_Manager
  imports Machine
begin

text \<open>
  \<open>src/server/session_manager.c\<close>. The linked list of sessions is a list, most recent first; the array
  of subscriptions of a session is the list of its used slots, so that \<open>subscription_count\<close> is its
  length. Each operation runs under the manager's lock, so a step is one whole operation.
  A client is the address of its connection. \<open>bool\<close> arguments say whether \<open>calloc\<close> or
  \<open>strdup\<close> succeed, \<open>now\<close> is \<open>time(NULL)\<close>.
\<close>

section \<open>State\<close>

definition MAX_SUBSCRIPTIONS :: nat where
  "MAX_SUBSCRIPTIONS = 100"

record ClientSession =
  s_client :: addr
  subscribed_symbols :: "string list"
  last_ping_time :: int

record SessionManager =
  sessions :: "ClientSession list"
  session_count :: int
  max_sessions :: int
  session_timeout_ms :: int

record SessionConfig =
  sc_max_sessions :: int
  sc_session_timeout_ms :: int
  cleanup_interval_ms :: int

section \<open>Operations\<close>

definition session_manager_create :: "bool \<Rightarrow> SessionConfig \<Rightarrow> SessionManager option" where
  "session_manager_create calloc_ok config =
     (if \<not> calloc_ok then None
      else Some \<lparr>sessions = [], session_count = 0, max_sessions = sc_max_sessions config,
                 session_timeout_ms = sc_session_timeout_ms config\<rparr>)"

fun find_session :: "ClientSession list \<Rightarrow> addr \<Rightarrow> ClientSession option" where
  "find_session [] c = None"
| "find_session (s # ss) c = (if s_client s = c then Some s else find_session ss c)"

definition session_manager_add_client ::
  "bool \<Rightarrow> bool \<Rightarrow> int \<Rightarrow> SessionManager option \<Rightarrow> addr option \<Rightarrow> rc \<times> SessionManager option" where
  "session_manager_add_client session_mem symbols_mem now m' c' = (case (m', c') of
     (Some m, Some c) \<Rightarrow>
       if max_sessions m \<le> session_count m then (- 1, m')
       else if find_session (sessions m) c \<noteq> None then (- 1, m')
       else if \<not> session_mem then (- 1, m')
       else if \<not> symbols_mem then (- 1, m')
       else (0, Some (m\<lparr>sessions := \<lparr>s_client = c, subscribed_symbols = [], last_ping_time = now\<rparr> # sessions m,
                        session_count := session_count m + 1\<rparr>))
   | _ \<Rightarrow> (- 1, m'))"

text \<open>The loops that unlink the first session of a client, and that write to it.\<close>

fun unlink_session :: "ClientSession list \<Rightarrow> addr \<Rightarrow> ClientSession list option" where
  "unlink_session [] c = None"
| "unlink_session (s # ss) c = (if s_client s = c then Some ss else map_option ((#) s) (unlink_session ss c))"

fun write_session :: "ClientSession list \<Rightarrow> addr \<Rightarrow> ClientSession \<Rightarrow> ClientSession list" where
  "write_session [] c x = []"
| "write_session (s # ss) c x = (if s_client s = c then x # ss else s # write_session ss c x)"

definition session_manager_remove_client :: "SessionManager option \<Rightarrow> addr option \<Rightarrow> rc \<times> SessionManager option" where
  "session_manager_remove_client m' c' = (case (m', c') of
     (Some m, Some c) \<Rightarrow> (case unlink_session (sessions m) c of
        None \<Rightarrow> (- 1, m')
      | Some ss \<Rightarrow> (0, Some (m\<lparr>sessions := ss, session_count := session_count m - 1\<rparr>)))
   | _ \<Rightarrow> (- 1, m'))"

definition session_manager_subscribe_symbol ::
  "bool \<Rightarrow> SessionManager option \<Rightarrow> addr option \<Rightarrow> string option \<Rightarrow> rc \<times> SessionManager option" where
  "session_manager_subscribe_symbol strdup_ok m' c' sy' = (case (m', c', sy') of
     (Some m, Some c, Some sy) \<Rightarrow> (case find_session (sessions m) c of
        None \<Rightarrow> (- 1, m')
      | Some s \<Rightarrow>
          if MAX_SUBSCRIPTIONS \<le> length (subscribed_symbols s) then (- 1, m')
          else if find_index (\<lambda>x. x = sy) (subscribed_symbols s) \<noteq> None then (0, m')
          else if \<not> strdup_ok then (- 1, m')
          else (0, Some (m\<lparr>sessions := write_session (sessions m) c
                  (s\<lparr>subscribed_symbols := subscribed_symbols s @ [sy]\<rparr>)\<rparr>)))
   | _ \<Rightarrow> (- 1, m'))"

definition session_manager_unsubscribe_symbol ::
  "SessionManager option \<Rightarrow> addr option \<Rightarrow> string option \<Rightarrow> rc \<times> SessionManager option" where
  "session_manager_unsubscribe_symbol m' c' sy' = (case (m', c', sy') of
     (Some m, Some c, Some sy) \<Rightarrow> (case find_session (sessions m) c of
        None \<Rightarrow> (- 1, m')
      | Some s \<Rightarrow> (case find_index (\<lambda>x. x = sy) (subscribed_symbols s) of
          None \<Rightarrow> (- 1, m')
        | Some i \<Rightarrow> (0, Some (m\<lparr>sessions := write_session (sessions m) c
              (s\<lparr>subscribed_symbols := take i (subscribed_symbols s) @ drop (Suc i) (subscribed_symbols s)\<rparr>)\<rparr>))))
   | _ \<Rightarrow> (- 1, m'))"

definition session_manager_is_subscribed :: "SessionManager option \<Rightarrow> addr option \<Rightarrow> string option \<Rightarrow> bool" where
  "session_manager_is_subscribed m' c' sy' = (case (m', c', sy') of
     (Some m, Some c, Some sy) \<Rightarrow> (case find_session (sessions m) c of
        None \<Rightarrow> False
      | Some s \<Rightarrow> find_index (\<lambda>x. x = sy) (subscribed_symbols s) \<noteq> None)
   | _ \<Rightarrow> False)"

text \<open>The clients written to the caller's array, in order, at most \<open>k\<close> of them.\<close>

fun collect_subscribers :: "ClientSession list \<Rightarrow> string \<Rightarrow> nat \<Rightarrow> addr list" where
  "collect_subscribers [] sy k = []"
| "collect_subscribers (s # ss) sy k =
     (if k = 0 then []
      else if find_index (\<lambda>x. x = sy) (subscribed_symbols s) \<noteq> None
        then s_client s # collect_subscribers ss sy (k - 1)
      else collect_subscribers ss sy k)"

text \<open>The return value and, when it is not -1, the entries of \<open>clients\<close>; a NULL array is \<open>clients = False\<close>.\<close>

definition session_manager_get_subscribers ::
  "SessionManager option \<Rightarrow> string option \<Rightarrow> bool \<Rightarrow> int \<Rightarrow> int \<times> addr list" where
  "session_manager_get_subscribers m' sy' clients max_clients = (case (m', sy') of
     (Some m, Some sy) \<Rightarrow>
       if \<not> clients \<or> max_clients \<le> 0 then (- 1, [])
       else let cs = collect_subscribers (sessions m) sy (nat max_clients) in (int (length cs), cs)
   | _ \<Rightarrow> (- 1, []))"

definition timed_out :: "int \<Rightarrow> int \<Rightarrow> ClientSession \<Rightarrow> bool" where
  "timed_out now timeout s \<longleftrightarrow> timeout < int64 (int64 (now - last_ping_time s) * 1000)"

fun cleanup_list :: "int \<Rightarrow> int \<Rightarrow> ClientSession list \<Rightarrow> int \<Rightarrow> ClientSession list \<times> int" where
  "cleanup_list now timeout [] n = ([], n)"
| "cleanup_list now timeout (s # ss) n =
     (if timed_out now timeout s then cleanup_list now timeout ss (n - 1)
      else (case cleanup_list now timeout ss n of (ss', n') \<Rightarrow> (s # ss', n')))"

definition session_manager_cleanup_sessions :: "int \<Rightarrow> SessionManager option \<Rightarrow> SessionManager option" where
  "session_manager_cleanup_sessions now m' = (case m' of None \<Rightarrow> None
     | Some m \<Rightarrow> (case cleanup_list now (session_timeout_ms m) (sessions m) (session_count m) of
         (ss, n) \<Rightarrow> Some (m\<lparr>sessions := ss, session_count := n\<rparr>)))"

text \<open>\<open>time(NULL)\<close> is read for each session; \<open>now i\<close> is what the \<open>i\<close>-th read gives.\<close>

definition session_manager_ping_clients :: "(nat \<Rightarrow> int) \<Rightarrow> SessionManager option \<Rightarrow> SessionManager option" where
  "session_manager_ping_clients now m' = (case m' of None \<Rightarrow> None
     | Some m \<Rightarrow> Some (m\<lparr>sessions := map (\<lambda>(i, s). s\<lparr>last_ping_time := now i\<rparr>) (enumerate 0 (sessions m))\<rparr>))"

section \<open>Invariant\<close>

definition session_ok :: "ClientSession \<Rightarrow> bool" where
  "session_ok s \<longleftrightarrow> length (subscribed_symbols s) \<le> MAX_SUBSCRIPTIONS \<and> distinct (subscribed_symbols s)"

definition manager_ok :: "SessionManager \<Rightarrow> bool" where
  "manager_ok m \<longleftrightarrow> session_count m = int (length (sessions m)) \<and> session_count m \<le> max 0 (max_sessions m) \<and>
     distinct (map s_client (sessions m)) \<and> list_all session_ok (sessions m)"

lemma find_session_iff:
  "find_session ss c = None \<longleftrightarrow> c \<notin> s_client ` set ss"
  "find_session ss c = Some s \<Longrightarrow> s \<in> set ss \<and> s_client s = c"
  by (induction ss) (auto split: if_splits)

lemma unlink_session_spec:
  assumes "distinct (map s_client ss)"
  shows "unlink_session ss c =
    (if c \<in> s_client ` set ss then Some (filter (\<lambda>s. s_client s \<noteq> c) ss) else None)"
  using assms
proof (induction ss)
  case (Cons s ss)
  have "filter (\<lambda>x. s_client x \<noteq> s_client s) ss = ss"
    using Cons.prems by (auto simp: filter_id_conv) (metis imageI)
  with Cons show ?case by auto
qed simp

lemma length_unlink: "unlink_session ss c = Some ss' \<Longrightarrow> Suc (length ss') = length ss"
  by (induction ss arbitrary: ss') (auto split: if_splits)

lemma map_client_write: "s_client x = c \<Longrightarrow> map s_client (write_session ss c x) = map s_client ss"
  by (induction ss) auto

lemma length_write [simp]: "length (write_session ss c x) = length ss"
  by (induction ss) auto

lemma set_write: "set (write_session ss c x) \<subseteq> insert x (set ss)"
  by (induction ss) auto

lemma find_write: "s_client x = c \<Longrightarrow> find_session (write_session ss c x) c' =
    (if c' = c \<and> find_session ss c \<noteq> None then Some x else find_session ss c')"
  by (induction ss) auto

lemma manager_ok_write:
  assumes "manager_ok m" "s_client x = c" "session_ok x"
  shows "manager_ok (m\<lparr>sessions := write_session (sessions m) c x\<rparr>)"
  using assms set_write [of "sessions m" c x] by (auto simp: manager_ok_def map_client_write list_all_iff)

lemma cleanup_list_spec:
  "cleanup_list now timeout ss n =
     (filter (\<lambda>s. \<not> timed_out now timeout s) ss, n - int (length (filter (timed_out now timeout) ss)))"
  by (induction ss arbitrary: n) auto

lemma distinct_take_drop: "distinct xs \<Longrightarrow> distinct (take i xs @ drop (Suc i) xs)"
  using set_take_disj_set_drop_if_distinct [of xs i "Suc i"] by simp

lemma session_ok_remove:
  "session_ok s \<Longrightarrow> session_ok (s\<lparr>subscribed_symbols := take i (subscribed_symbols s) @ drop (Suc i) (subscribed_symbols s)\<rparr>)"
  using distinct_take_drop [of "subscribed_symbols s" i] by (auto simp: session_ok_def)

section \<open>The manager as a state machine\<close>

inductive session_step :: "SessionManager \<Rightarrow> SessionManager \<Rightarrow> bool" where
  add: "session_manager_add_client b1 b2 now (Some m) c = (r, Some m') \<Longrightarrow> session_step m m'"
| remove: "session_manager_remove_client (Some m) c = (r, Some m') \<Longrightarrow> session_step m m'"
| subscribe: "session_manager_subscribe_symbol b (Some m) c sy = (r, Some m') \<Longrightarrow> session_step m m'"
| unsubscribe: "session_manager_unsubscribe_symbol (Some m) c sy = (r, Some m') \<Longrightarrow> session_step m m'"
| cleanup: "session_manager_cleanup_sessions now (Some m) = Some m' \<Longrightarrow> session_step m m'"
| ping: "session_manager_ping_clients clock (Some m) = Some m' \<Longrightarrow> session_step m m'"

definition session_init :: "SessionManager \<Rightarrow> bool" where
  "session_init m \<longleftrightarrow> (\<exists>config. session_manager_create True config = Some m)"

lemma add_client_ok: "session_manager_add_client b1 b2 now (Some m) c = (r, Some m') \<Longrightarrow> manager_ok m \<Longrightarrow> manager_ok m'"
  by (auto simp: session_manager_add_client_def manager_ok_def session_ok_def find_session_iff split: option.splits if_splits)

lemma remove_client_ok:
  assumes "session_manager_remove_client (Some m) c = (r, Some m')" "manager_ok m"
  shows "manager_ok m'"
proof (cases "\<exists>c0 ss. c = Some c0 \<and> unlink_session (sessions m) c0 = Some ss")
  case True
  then obtain c0 ss where c: "c = Some c0" and u: "unlink_session (sessions m) c0 = Some ss" by blast
  have ss: "ss = filter (\<lambda>s. s_client s \<noteq> c0) (sessions m)"
    using u unlink_session_spec [of "sessions m" c0] assms(2) by (auto simp: manager_ok_def split: if_splits)
  have "m' = m\<lparr>sessions := ss, session_count := session_count m - 1\<rparr>"
    using assms(1) c u by (simp add: session_manager_remove_client_def)
  moreover have "int (length ss) = int (length (sessions m)) - 1" using length_unlink [OF u] by simp
  ultimately show ?thesis
    using assms(2) by (auto simp: manager_ok_def ss distinct_map_filter list_all_iff)
qed (use assms in \<open>auto simp: session_manager_remove_client_def split: option.splits\<close>)

lemma subscribe_ok: "session_manager_subscribe_symbol b (Some m) c sy = (r, Some m') \<Longrightarrow> manager_ok m \<Longrightarrow> manager_ok m'"
  by (auto simp: session_manager_subscribe_symbol_def split: option.splits if_splits intro!: manager_ok_write
      dest!: find_session_iff(2)) (auto simp: manager_ok_def list_all_iff session_ok_def)

lemma unsubscribe_ok: "session_manager_unsubscribe_symbol (Some m) c sy = (r, Some m') \<Longrightarrow> manager_ok m \<Longrightarrow> manager_ok m'"
  by (auto simp: session_manager_unsubscribe_symbol_def split: option.splits if_splits
      intro!: manager_ok_write session_ok_remove dest!: find_session_iff(2)) (auto simp: manager_ok_def list_all_iff)

lemma cleanup_ok: "session_manager_cleanup_sessions now (Some m) = Some m' \<Longrightarrow> manager_ok m \<Longrightarrow> manager_ok m'"
proof -
  assume a: "session_manager_cleanup_sessions now (Some m) = Some m'" "manager_ok m"
  let ?t = "timed_out now (session_timeout_ms m)"
  have "length (filter ?t (sessions m)) + length (filter (\<lambda>s. \<not> ?t s) (sessions m)) = length (sessions m)"
    by (rule sum_length_filter_compl)
  with a show ?thesis
    by (auto simp: session_manager_cleanup_sessions_def cleanup_list_spec manager_ok_def distinct_map_filter list_all_iff)
qed

lemma ping_keeps:
  "session_manager_ping_clients clock (Some m) = Some m' \<Longrightarrow>
   map s_client (sessions m') = map s_client (sessions m) \<and>
   map subscribed_symbols (sessions m') = map subscribed_symbols (sessions m) \<and>
   session_count m' = session_count m \<and> max_sessions m' = max_sessions m"
  by (auto simp: session_manager_ping_clients_def enumerate_eq_zip map_zip_map2 intro!: nth_equalityI)

lemma ping_ok:
  assumes "session_manager_ping_clients clock (Some m) = Some m'" "manager_ok m"
  shows "manager_ok m'"
proof -
  note k = ping_keeps [OF assms(1)]
  have "list_all session_ok ss \<longleftrightarrow> list_all (\<lambda>xs. length xs \<le> MAX_SUBSCRIPTIONS \<and> distinct xs) (map subscribed_symbols ss)" for ss
    by (auto simp: list_all_iff session_ok_def)
  moreover have "length (sessions m') = length (sessions m)" using k by (metis length_map)
  ultimately show ?thesis using assms(2) k by (simp add: manager_ok_def)
qed

interpretation session_machine: invariant_machine session_init session_step manager_ok
proof unfold_locales
  show "manager_ok m" if "session_init m" for m
    using that by (auto simp: session_init_def session_manager_create_def manager_ok_def)
  show "manager_ok m'" if "manager_ok m" "session_step m m'" for m m'
    using that(2,1) by (induction rule: session_step.induct)
      (auto intro: add_client_ok remove_client_ok subscribe_ok unsubscribe_ok cleanup_ok ping_ok)
qed

section \<open>What the manager means\<close>

text \<open>The abstract state: for each client with a session the set of the symbols it subscribes to.\<close>

definition subscriptions :: "SessionManager \<Rightarrow> addr \<Rightarrow> string set option" where
  "subscriptions m c = map_option (\<lambda>s. set (subscribed_symbols s)) (find_session (sessions m) c)"

lemma find_index_eq: "find_index (\<lambda>x. x = y) xs \<noteq> None \<longleftrightarrow> y \<in> set xs"
  by auto

lemma add_client_abs:
  "session_manager_add_client True True now (Some m) (Some c) =
     (if session_count m < max_sessions m \<and> subscriptions m c = None
      then (0, Some (m\<lparr>sessions := \<lparr>s_client = c, subscribed_symbols = [], last_ping_time = now\<rparr> # sessions m,
                       session_count := session_count m + 1\<rparr>))
      else (- 1, Some m))"
  by (simp add: session_manager_add_client_def subscriptions_def)

lemma find_session_filter: "find_session (filter (\<lambda>s. s_client s \<noteq> c) ss) d = (if d = c then None else find_session ss d)"
  by (induction ss) auto

lemma remove_client_abs:
  assumes "manager_ok m"
  obtains r m' where "session_manager_remove_client (Some m) (Some c) = (r, Some m')"
    "if subscriptions m c = None then r = - 1 \<and> m' = m else r = 0 \<and> subscriptions m' = (subscriptions m)(c := None)"
proof (cases "unlink_session (sessions m) c")
  case None
  then have "subscriptions m c = None"
    using unlink_session_spec [of "sessions m" c] assms by (auto simp: subscriptions_def find_session_iff manager_ok_def split: if_splits)
  with that [of "- 1" m] None show ?thesis by (simp add: session_manager_remove_client_def)
next
  case (Some ss)
  then have ss: "ss = filter (\<lambda>s. s_client s \<noteq> c) (sessions m)" "c \<in> s_client ` set (sessions m)"
    using unlink_session_spec [of "sessions m" c] assms by (auto simp: manager_ok_def split: if_splits)
  then have "subscriptions m c \<noteq> None" using find_session_iff(1) [of "sessions m" c] by (auto simp: subscriptions_def)
  moreover have "subscriptions (m\<lparr>sessions := ss, session_count := session_count m - 1\<rparr>) = (subscriptions m)(c := None)"
    by (rule ext) (simp add: subscriptions_def ss(1) find_session_filter)
  ultimately show ?thesis
    using that [of 0 "m\<lparr>sessions := ss, session_count := session_count m - 1\<rparr>"] Some by (simp add: session_manager_remove_client_def)
qed

lemma subscriptions_card: "manager_ok m \<Longrightarrow> subscriptions m c = Some S \<Longrightarrow> finite S \<and> card S \<le> MAX_SUBSCRIPTIONS"
  using find_session_iff(2) [of "sessions m" c] by (fastforce simp: subscriptions_def manager_ok_def list_all_iff session_ok_def distinct_card)

lemma subscriptions_write:
  "s_client x = c \<Longrightarrow> find_session (sessions m) c \<noteq> None \<Longrightarrow>
   subscriptions (m\<lparr>sessions := write_session (sessions m) c x\<rparr>) = (subscriptions m)(c \<mapsto> set (subscribed_symbols x))"
  by (rule ext) (simp add: subscriptions_def find_write)

lemma subscribe_abs:
  assumes "manager_ok m" "subscriptions m c = Some S" "card S < MAX_SUBSCRIPTIONS"
  obtains m' where "session_manager_subscribe_symbol True (Some m) (Some c) (Some sy) = (0, Some m')"
    "subscriptions m' = (subscriptions m)(c \<mapsto> insert sy S)"
proof -
  obtain s where s: "find_session (sessions m) c = Some s" "S = set (subscribed_symbols s)"
    using assms(2) by (auto simp: subscriptions_def)
  have "session_ok s" using find_session_iff(2) [OF s(1)] assms(1) by (simp add: manager_ok_def list_all_iff)
  then have len: "length (subscribed_symbols s) < MAX_SUBSCRIPTIONS"
    using assms(3) by (simp add: session_ok_def s(2) distinct_card)
  show ?thesis
  proof (cases "sy \<in> S")
    case True
    then have "session_manager_subscribe_symbol True (Some m) (Some c) (Some sy) = (0, Some m)"
      using s len by (auto simp: session_manager_subscribe_symbol_def)
    with that True assms(2) show ?thesis by (metis fun_upd_triv insert_absorb)
  next
    case False
    let ?x = "s\<lparr>subscribed_symbols := subscribed_symbols s @ [sy]\<rparr>"
    have "session_manager_subscribe_symbol True (Some m) (Some c) (Some sy) =
        (0, Some (m\<lparr>sessions := write_session (sessions m) c ?x\<rparr>))"
      using s len False by (auto simp: session_manager_subscribe_symbol_def)
    with that [OF this] subscriptions_write [of ?x c m] find_session_iff(2) [OF s(1)] s show ?thesis by simp
  qed
qed

lemma set_drop_index:
  assumes "distinct xs" "find_index (\<lambda>x. x = y) xs = Some i"
  shows "set (take i xs @ drop (Suc i) xs) = set xs - {y}"
proof -
  have "i < length xs" "xs ! i = y" using find_index_SomeD [OF assms(2)] by auto
  then have xs: "xs = take i xs @ y # drop (Suc i) xs" using id_take_nth_drop by metis
  with assms(1) have "y \<notin> set (take i xs @ drop (Suc i) xs)"
    by (metis distinct.simps(2) distinct_append not_distinct_conv_prefix set_append UnE disjoint_iff list.set_intros(1))
  moreover have "set xs = insert y (set (take i xs @ drop (Suc i) xs))" by (subst xs) auto
  ultimately show ?thesis by auto
qed

lemma unsubscribe_abs:
  assumes "manager_ok m" "subscriptions m c = Some S" "sy \<in> S"
  obtains m' where "session_manager_unsubscribe_symbol (Some m) (Some c) (Some sy) = (0, Some m')"
    "subscriptions m' = (subscriptions m)(c \<mapsto> S - {sy})"
proof -
  obtain s where s: "find_session (sessions m) c = Some s" "S = set (subscribed_symbols s)"
    using assms(2) by (auto simp: subscriptions_def)
  obtain i where i: "find_index (\<lambda>x. x = sy) (subscribed_symbols s) = Some i"
    using assms(3) s(2) find_index_eq [of sy "subscribed_symbols s"] by (metis not_None_eq)
  have d: "distinct (subscribed_symbols s)"
    using find_session_iff(2) [OF s(1)] assms(1) by (simp add: manager_ok_def list_all_iff session_ok_def)
  let ?x = "s\<lparr>subscribed_symbols := take i (subscribed_symbols s) @ drop (Suc i) (subscribed_symbols s)\<rparr>"
  have "session_manager_unsubscribe_symbol (Some m) (Some c) (Some sy) = (0, Some (m\<lparr>sessions := write_session (sessions m) c ?x\<rparr>))"
    using s i by (simp add: session_manager_unsubscribe_symbol_def)
  with that [OF this] subscriptions_write [of ?x c m] find_session_iff(2) [OF s(1)] s set_drop_index [OF d i]
  show ?thesis by simp
qed

lemma subscribe_refused:
  assumes "manager_ok m" "\<And>S. subscriptions m c = Some S \<Longrightarrow> \<not> card S < MAX_SUBSCRIPTIONS"
  shows "session_manager_subscribe_symbol b (Some m) (Some c) (Some sy) = (- 1, Some m)"
proof (cases "find_session (sessions m) c")
  case (Some s)
  then have "\<not> length (subscribed_symbols s) < MAX_SUBSCRIPTIONS"
    using assms card_length [of "subscribed_symbols s"] by (force simp: subscriptions_def)
  with Some show ?thesis by (simp add: session_manager_subscribe_symbol_def)
qed (simp add: session_manager_subscribe_symbol_def)

lemma unsubscribe_refused:
  assumes "\<And>S. subscriptions m c = Some S \<Longrightarrow> sy \<notin> S"
  shows "session_manager_unsubscribe_symbol (Some m) (Some c) (Some sy) = (- 1, Some m)"
  using assms by (auto simp: session_manager_unsubscribe_symbol_def subscriptions_def split: option.split dest!: find_index_SomeD)

lemma is_subscribed_abs:
  "session_manager_is_subscribed (Some m) (Some c) (Some sy) \<longleftrightarrow> (\<exists>S. subscriptions m c = Some S \<and> sy \<in> S)"
  by (auto simp: session_manager_is_subscribed_def subscriptions_def find_index_eq split: option.splits)

lemma collect_subscribers_spec:
  "collect_subscribers ss sy k = take k (map s_client (filter (\<lambda>s. sy \<in> set (subscribed_symbols s)) ss))"
proof (induction ss arbitrary: k)
  case (Cons s ss)
  show ?case
  proof (cases k)
    case (Suc n)
    show ?thesis
      unfolding collect_subscribers.simps find_index_eq Cons.IH Suc by simp
  qed simp
qed simp

text \<open>Sessions that were pinged within the timeout survive a cleanup.\<close>

lemma cleanup_recent:
  assumes "\<forall>s \<in> set (sessions m). 0 \<le> now - last_ping_time s \<and> (now - last_ping_time s) * 1000 \<le> session_timeout_ms m"
    and "fits 32 (session_timeout_ms m)"
  shows "session_manager_cleanup_sessions now (Some m) = Some m"
proof -
  have "\<not> timed_out now (session_timeout_ms m) s" if "s \<in> set (sessions m)" for s
  proof -
    let ?d = "now - last_ping_time s"
    have d: "0 \<le> ?d" "?d * 1000 \<le> session_timeout_ms m" using assms(1) that by blast+
    then have "int64 ?d = ?d" "int64 (?d * 1000) = ?d * 1000"
      using assms(2) by (auto intro!: wrap_id simp: fits_def)
    with d(2) show ?thesis by (simp add: timed_out_def)
  qed
  then have "filter (\<lambda>s. \<not> timed_out now (session_timeout_ms m) s) (sessions m) = sessions m"
    "filter (timed_out now (session_timeout_ms m)) (sessions m) = []"
    by (auto simp: filter_id_conv filter_empty_conv)
  then show ?thesis by (simp add: session_manager_cleanup_sessions_def cleanup_list_spec)
qed

end
