(* ===== verification/Server_App.thy ===== *)
theory Server_App
  imports Market_Data Session_Manager
begin

text \<open>
  \<open>src/server/server_app.c\<close>: how the main function sets up the server's components, what a received message
  leads to, and the main loop. As in the source, no trade broadcaster is part of the configuration and
  the session manager is not connected to the network callbacks.
\<close>

section \<open>Setup\<close>

definition server_ws_config :: WSServerConfig where
  "server_ws_config = \<lparr>host = ''0.0.0.0'', port = 8080, max_clients = 100, ping_interval_ms = 30000, status_interval_ms = 60000\<rparr>"

definition handler_config :: HandlerConfig where
  "handler_config = \<lparr>thread_pool_size = 4, max_message_size = 4096, message_queue_size = 1000, hc_trade_broadcaster = None\<rparr>"

definition session_config :: SessionConfig where
  "session_config = \<lparr>sc_max_sessions = 100, sc_session_timeout_ms = 30000, cleanup_interval_ms = 60000\<rparr>"

definition market_config :: MarketDataConfig where
  "market_config = \<lparr>mc_snapshot_interval_ms = 1000, mc_max_depth = 10, mc_max_symbols = 100, mc_trade_broadcaster = None\<rparr>"

record ServerApp =
  sa_running :: bool
  sa_server :: "WSServer option"
  sa_handlers :: "ServerHandlers option"
  sa_sessions :: "SessionManager option"
  sa_market :: "MarketData option"

text \<open>What the setup meets; \<open>fn_wrapper\<close> and \<open>handlers_addr\<close> are the addresses of the callback and of the handlers.\<close>

record server_env =
  se_server_mem :: bool
  se_lws :: "addr option"
  se_handler_mem :: "bool \<times> bool \<times> bool \<times> bool"
  se_session_mem :: bool
  se_market_mem :: bool
  se_service_thread :: bool
  se_workers :: "nat \<Rightarrow> bool"
  se_timer_thread :: bool
  fn_wrapper :: addr
  handlers_addr :: addr

text \<open>\<open>None\<close> is \<open>EXIT_FAILURE\<close>. The results of starting the workers and the timer are not tested.\<close>

definition server_main :: "server_env \<Rightarrow> ServerApp option" where
  "server_main env = (case ws_server_create (se_server_mem env) (se_lws env) server_ws_config of None \<Rightarrow> None
   | Some srv \<Rightarrow> (case se_handler_mem env of (m0, m1, m2, m3) \<Rightarrow>
      (case server_handlers_create m0 m1 m2 m3 handler_config of None \<Rightarrow> None
       | Some h \<Rightarrow>
           let srv1 = ws_server_set_message_callback (Some srv) (Some (fn_wrapper env)) (Some (handlers_addr env)) in
           (case session_manager_create (se_session_mem env) session_config of None \<Rightarrow> None
            | Some sm \<Rightarrow> (case market_data_create (se_market_mem env) market_config of None \<Rightarrow> None
            | Some md \<Rightarrow> (case ws_server_start (se_service_thread env) srv1 of (r, srv2) \<Rightarrow>
                if r \<noteq> 0 then None
                else Some \<lparr>sa_running = True, sa_server = srv2,
                  sa_handlers = fst (snd (server_handlers_start_workers (se_workers env) (Some h))),
                  sa_sessions = Some sm,
                  sa_market = snd (market_data_start_snapshot_timer (se_timer_thread env) (Some md))\<rparr>))))))"

definition server_handle_signal :: "ServerApp \<Rightarrow> ServerApp" where
  "server_handle_signal app = app\<lparr>sa_running := False\<rparr>"

text \<open>The callback of the WebSocket server puts the message into the queue.\<close>

definition message_handler_wrapper ::
  "addr option \<Rightarrow> msg_heap \<Rightarrow> ServerApp \<Rightarrow> addr option \<Rightarrow> string option \<Rightarrow> (msg_heap \<times> ServerApp) option" where
  "message_handler_wrapper dup heap app client message = (case server_handlers_process_message dup heap (sa_handlers app) client message of
     None \<Rightarrow> None | Some (r, heap1, h1) \<Rightarrow> Some (heap1, app\<lparr>sa_handlers := h1\<rparr>))"

text \<open>One round of the main loop: clean up, then ping everyone, then sleep a second.\<close>

definition main_round :: "int \<Rightarrow> (nat \<Rightarrow> int) \<Rightarrow> SessionManager option \<Rightarrow> SessionManager option" where
  "main_round now ping m = session_manager_ping_clients ping (session_manager_cleanup_sessions now m)"

fun main_loop :: "(int \<times> (nat \<Rightarrow> int)) list \<Rightarrow> SessionManager option \<Rightarrow> SessionManager option" where
  "main_loop [] m = m"
| "main_loop ((now, ping) # rs) m = main_loop rs (main_round now ping m)"

text \<open>The shutdown: the heap after the copies of the messages are freed, \<open>None\<close> for a double free.\<close>

definition server_shutdown :: "msg_heap \<Rightarrow> ServerApp \<Rightarrow> msg_heap option" where
  "server_shutdown heap app =
     (let m = market_data_stop_snapshot_timer (sa_market app);
          (r, h1) = server_handlers_stop_workers (sa_handlers app);
          srv = ws_server_stop (sa_server app)
      in server_handlers_destroy heap h1)"

section \<open>The main loop keeps every session\<close>

text \<open>
  A pace of rounds: every session is pinged at most \<open>timeout\<close> milliseconds before the next cleanup, and
  the clock does not go back.
\<close>

fun pace_ok :: "int \<Rightarrow> int list \<Rightarrow> (int \<times> (nat \<Rightarrow> int)) list \<Rightarrow> bool" where
  "pace_ok timeout pings [] = True"
| "pace_ok timeout pings ((now, ping) # rs) =
     (list_all (\<lambda>t. 0 \<le> now - t \<and> (now - t) * 1000 \<le> timeout) pings \<and> pace_ok timeout (map ping [0..<length pings]) rs)"

definition pinged :: "SessionManager \<Rightarrow> int list" where
  "pinged m = map last_ping_time (sessions m)"

lemma ping_effect:
  obtains m' where "session_manager_ping_clients ping (Some m) = Some m'" "map s_client (sessions m') = map s_client (sessions m)"
    "map subscribed_symbols (sessions m') = map subscribed_symbols (sessions m)"
    "pinged m' = map ping [0..<length (pinged m)]" "session_timeout_ms m' = session_timeout_ms m"
    "session_count m' = session_count m" "max_sessions m' = max_sessions m"
proof -
  have "map s_client (map (\<lambda>(i, s). s\<lparr>last_ping_time := ping i\<rparr>) (enumerate k ss)) = map s_client ss"
    "map subscribed_symbols (map (\<lambda>(i, s). s\<lparr>last_ping_time := ping i\<rparr>) (enumerate k ss)) = map subscribed_symbols ss"
    "map last_ping_time (map (\<lambda>(i, s). s\<lparr>last_ping_time := ping i\<rparr>) (enumerate k ss)) = map ping [k..<k + length ss]" for k ss
    by (induction ss arbitrary: k) (auto simp: upt_conv_Cons simp del: upt_Suc)
  from this [of 0 "sessions m"] that show ?thesis
    by (simp add: session_manager_ping_clients_def pinged_def)
qed

lemma main_loop_keeps:
  assumes "pace_ok (session_timeout_ms m) (pinged m) rs" "fits 32 (session_timeout_ms m)"
  shows "\<exists>m'. main_loop rs (Some m) = Some m' \<and> map s_client (sessions m') = map s_client (sessions m) \<and>
    map subscribed_symbols (sessions m') = map subscribed_symbols (sessions m) \<and> session_count m' = session_count m"
  using assms
proof (induction rs arbitrary: m)
  case (Cons r rs)
  obtain now ping where r: "r = (now, ping)" by fastforce
  have c: "session_manager_cleanup_sessions now (Some m) = Some m"
    by (rule cleanup_recent [OF _ Cons.prems(2)]) (use Cons.prems(1) in \<open>simp add: r pinged_def list_all_iff\<close>)
  obtain m1 where m1: "session_manager_ping_clients ping (Some m) = Some m1" "map s_client (sessions m1) = map s_client (sessions m)"
    "map subscribed_symbols (sessions m1) = map subscribed_symbols (sessions m)"
    "pinged m1 = map ping [0..<length (pinged m)]" "session_timeout_ms m1 = session_timeout_ms m"
    "session_count m1 = session_count m"
    by (rule ping_effect)
  have "pace_ok (session_timeout_ms m1) (pinged m1) rs" "fits 32 (session_timeout_ms m1)"
    using Cons.prems m1(4,5) by (simp_all add: r)
  from Cons.IH [OF this] m1 c show ?case by (simp add: r main_round_def)
qed simp

section \<open>A server without a broadcaster\<close>

text \<open>With no books and no trade broadcaster every request is answered by an error and changes nothing.\<close>

lemma no_book: "book_count h = 0 \<Longrightarrow> find_book h sy = Some None"
  by (simp add: find_book_def)

lemma no_book_created:
  "book_count h = 0 \<Longrightarrow> sh_trade_broadcaster h = None \<Longrightarrow> find_or_create mem h sy = Some (h, None)"
  by (cases mem) (auto simp: find_or_create_def no_book order_book_create_def split: option.splits)

lemma place_order_refused:
  assumes "book_count h = 0" "sh_trade_broadcaster h = None" "handle_place_order env J h st client node = Some out"
  shows "\<exists>msg. out = error_outcome env client msg h st"
  using assms(3) no_book_created [OF assms(1,2)]
  by (auto simp: handle_place_order_def split: bind_splits if_splits prod.splits)

lemma cancel_order_refused:
  assumes "book_count h = 0" "handle_cancel_order env J h st client node = Some out"
  shows "\<exists>msg. out = error_outcome env client msg h st"
  using assms(2) no_book [OF assms(1)]
  by (auto simp: handle_cancel_order_def server_handlers_get_order_book_def split: option.splits)

lemma book_request_refused:
  assumes "book_count h = 0" "handle_book_request env J h st client node = Some out"
  shows "\<exists>msg. out = error_outcome env client msg h st"
  using assms(2) no_book [OF assms(1)]
  by (auto simp: handle_book_request_def server_handlers_get_order_book_def split: option.splits)

lemma dispatch_refused:
  assumes "book_count h = 0" "sh_trade_broadcaster h = None" "dispatch_message env J h st client message = Some out"
  shows "\<exists>msg. out = error_outcome env client msg h st"
  using assms(3) place_order_refused [OF assms(1,2)] cancel_order_refused [OF assms(1)] book_request_refused [OF assms(1)]
  by (auto simp: dispatch_message_def message_handlers_def split: option.splits if_splits)

definition no_books :: "ServerHandlers \<Rightarrow> bool" where
  "no_books h \<longleftrightarrow> book_count h = 0 \<and> sh_trade_broadcaster h = None"

lemma dequeue_no_books: "dequeue_message h = Some (d, h1) \<Longrightarrow> no_books h1 = no_books h"
  by (auto simp: dequeue_message_def no_books_def split: if_splits bind_splits)

lemma error_outcome_fields [simp]:
  "o_handlers (error_outcome env client msg h st) = h" "o_store (error_outcome env client msg h st) = st"
  "o_trades (error_outcome env client msg h st) = []"
  "o_frames (error_outcome env client msg h st) = snd (send_error_response env 0 client msg)"
  by (simp_all add: error_outcome_def split: prod.splits)

lemma worker_round_refused:
  assumes "no_books h" "worker_round env J heap h st = Some (heap1, out)"
  shows "no_books (o_handlers out) \<and> o_store out = st \<and> o_trades out = [] \<and>
    (o_frames out = [] \<or> (\<exists>client msg. o_frames out = snd (send_error_response env 0 client msg)))"
proof -
  obtain d h1 where d: "dequeue_message h = Some (d, h1)"
    using assms(2) by (auto simp: worker_round_def split: bind_splits)
  have n: "no_books h1" using dequeue_no_books [OF d] assms(1) by simp
  show ?thesis
  proof (cases "\<exists>a client. d = Got (Some a) client")
    case True
    then obtain a client where g: "d = Got (Some a) client" by blast
    with assms(2) d obtain message where "dispatch_message env J h1 st client message = Some out"
      by (auto simp: worker_round_def Let_def split: bind_splits)
    then obtain msg where "out = error_outcome env client msg h1 st"
      using dispatch_refused n unfolding no_books_def by blast
    with n show ?thesis by auto
  next
    case False
    with assms(2) d n show ?thesis by (auto simp: worker_round_def Let_def split: dequeued.splits option.splits)
  qed
qed

section \<open>Runs of the server\<close>

type_synonym server_state = "msg_heap \<times> ServerApp \<times> store"

text \<open>
  The network thread puts a message into the queue (the copy is at a free address), a worker does a round,
  the main thread does one, or a signal arrives. Every lock is held during the step it protects.
\<close>

inductive server_step :: "'j cJSON \<Rightarrow> server_state \<Rightarrow> server_state \<Rightarrow> bool" for J where
  receive: "(\<forall>a. dup = Some a \<longrightarrow> heap a = None) \<Longrightarrow>
    message_handler_wrapper dup heap app client (Some message) = Some (heap1, app1) \<Longrightarrow>
    server_step J (heap, app, st) (heap1, app1, st)"
| work: "sa_handlers app = Some h \<Longrightarrow> worker_round env J heap h st = Some (heap1, out) \<Longrightarrow>
    server_step J (heap, app, st) (heap1, app\<lparr>sa_handlers := Some (o_handlers out)\<rparr>, o_store out)"
| tick: "server_step J (heap, app, st) (heap, app\<lparr>sa_sessions := main_round now ping (sa_sessions app)\<rparr>, st)"
| signal: "server_step J (heap, app, st) (heap, server_handle_signal app, st)"

definition server_init :: "server_state \<Rightarrow> bool" where
  "server_init s \<longleftrightarrow> (\<exists>env app. server_main env = Some app \<and> s = (\<lambda>_. None, app, \<lambda>_. None))"

definition server_inert :: "server_state \<Rightarrow> bool" where
  "server_inert s \<longleftrightarrow> (case s of (heap, app, st) \<Rightarrow> st = (\<lambda>_. None) \<and>
     (case sa_handlers app of None \<Rightarrow> False | Some h \<Rightarrow> no_books h) \<and>
     (case sa_sessions app of None \<Rightarrow> False | Some m \<Rightarrow> sessions m = []))"

lemma main_round_no_sessions:
  "sessions m = [] \<Longrightarrow> \<exists>m1. main_round now ping (Some m) = Some m1 \<and> sessions m1 = []"
  by (auto simp: main_round_def session_manager_cleanup_sessions_def session_manager_ping_clients_def)

lemma wrapper_no_books:
  assumes "message_handler_wrapper dup heap app client message = Some (heap1, app1)" "sa_handlers app = Some h" "no_books h"
  obtains h1 where "sa_handlers app1 = Some h1" "no_books h1" "sa_sessions app1 = sa_sessions app"
  using assms that
  by (fastforce simp: message_handler_wrapper_def server_handlers_process_message_def no_books_def
      split: option.splits if_splits bind_splits prod.splits)

lemma server_main_inert: "server_main env = Some app \<Longrightarrow> server_inert (\<lambda>_. None, app, \<lambda>_. None)"
  by (auto simp: server_main_def server_inert_def no_books_def server_handlers_create_def session_manager_create_def
      server_handlers_start_workers_def handler_config_def Let_def split: option.splits if_splits prod.splits bool.splits)

inductive_cases server_stepE: "server_step J s s'"

lemma server_step_inert:
  assumes "server_inert s" "server_step J s s'"
  shows "server_inert s'"
  using assms(2)
proof (cases rule: server_step.cases)
  case (receive dup heap app client message heap1 app1 st)
  then show ?thesis
    using assms(1) wrapper_no_books [OF receive(4)] by (fastforce simp: server_inert_def split: option.splits)
next
  case (work app h env heap st heap1 out)
  then show ?thesis
    using assms(1) worker_round_refused [OF _ work(4)] by (auto simp: server_inert_def split: option.splits)
next
  case (tick heap app st now ping)
  obtain m where m: "sa_sessions app = Some m" "sessions m = []"
    using assms(1) tick by (auto simp: server_inert_def split: option.splits)
  with main_round_no_sessions [OF m(2), of now ping] tick assms(1) show ?thesis
    by (auto simp: server_inert_def)
next
  case (signal heap app st)
  then show ?thesis using assms(1) by (simp add: server_inert_def server_handle_signal_def)
qed

interpretation server_machine: invariant_machine server_init "server_step J" server_inert
proof unfold_locales
  show "server_inert s" if "server_init s" for s
    using that server_main_inert by (auto simp: server_init_def)
qed (rule server_step_inert)

end
