(* ===== verification/Command_Line.thy ===== *)
theory Command_Line
  imports Client_Commands
begin

text \<open>
  \<open>src/client/command_line.c\<close>: the thread that reads command lines and calls back. The readline library is
  outside the model: what its calls return is a list of lines, \<open>None\<close> for the NULL of an end of
  file. Function pointers and user pointers are addresses. What the thread does is a list of events.
\<close>

section \<open>State\<close>

record CommandLine =
  cl_running :: bool
  cl_callback :: "addr option"
  cl_user_data :: "addr option"

datatype cl_event = AddHistory string | Printed string | CommandCallback addr Command "addr option"

definition command_line_create :: "bool \<Rightarrow> CommandLine option" where
  "command_line_create calloc_ok =
     (if \<not> calloc_ok then None else Some \<lparr>cl_running = False, cl_callback = None, cl_user_data = None\<rparr>)"

definition command_line_set_callback :: "CommandLine option \<Rightarrow> addr option \<Rightarrow> addr option \<Rightarrow> CommandLine option" where
  "command_line_set_callback cl' cb user = map_option (\<lambda>cl. cl\<lparr>cl_callback := cb, cl_user_data := user\<rparr>) cl'"

definition command_line_start :: "bool \<Rightarrow> CommandLine option \<Rightarrow> rc \<times> CommandLine option" where
  "command_line_start thread_ok cl' = (case cl' of None \<Rightarrow> (- 1, None)
     | Some cl \<Rightarrow> if cl_running cl then (- 1, cl')
         else if \<not> thread_ok then (- 1, Some (cl\<lparr>cl_running := False\<rparr>))
         else (0, Some (cl\<lparr>cl_running := True\<rparr>)))"

text \<open>Whether the input thread is joined, and the state.\<close>

definition command_line_stop :: "CommandLine option \<Rightarrow> bool \<times> CommandLine option" where
  "command_line_stop cl' = (case cl' of None \<Rightarrow> (False, None)
     | Some cl \<Rightarrow> if \<not> cl_running cl then (False, cl') else (True, Some (cl\<lparr>cl_running := False\<rparr>)))"

text \<open>Destroying stops a running thread and frees the struct; the result is whether the thread was joined.\<close>

definition command_line_destroy :: "CommandLine option \<Rightarrow> bool" where
  "command_line_destroy cl' = (case cl' of None \<Rightarrow> False
     | Some cl \<Rightarrow> if cl_running cl then fst (command_line_stop cl') else False)"

section \<open>The input thread\<close>

definition call_back :: "CommandLine \<Rightarrow> Command \<Rightarrow> cl_event list" where
  "call_back cl cmd = (case cl_callback cl of None \<Rightarrow> [] | Some cb \<Rightarrow> [CommandCallback cb cmd (cl_user_data cl)])"

text \<open>One round of the loop.\<close>

definition input_round :: "int \<Rightarrow> string option \<Rightarrow> CommandLine \<Rightarrow> cl_event list \<times> CommandLine" where
  "input_round now line' cl = (case line' of None \<Rightarrow> ([], cl)
     | Some line \<Rightarrow> if line = [] then ([], cl)
         else let cmd = parse_command now (Some line) in
           if cmd_type cmd = CMD_QUIT then
             (let cl1 = cl\<lparr>cl_running := False\<rparr> in (AddHistory line # call_back cl1 cmd, cl1))
           else if cmd_type cmd = CMD_HELP then ([AddHistory line, Printed print_command_help], cl)
           else if cmd_type cmd \<noteq> CMD_INVALID then (AddHistory line # call_back cl cmd, cl)
           else ([AddHistory line], cl))"

text \<open>The loop over the lines read so far; \<open>now i\<close> is the time at the \<open>i\<close>-th of them.\<close>

fun input_thread :: "(nat \<Rightarrow> int) \<Rightarrow> nat \<Rightarrow> string option list \<Rightarrow> CommandLine \<Rightarrow> cl_event list \<times> CommandLine" where
  "input_thread now i [] cl = ([], cl)"
| "input_thread now i (l # ls) cl =
     (if \<not> cl_running cl then ([], cl)
      else case input_round (now i) l cl of (es, cl1) \<Rightarrow>
        (case input_thread now (Suc i) ls cl1 of (fs, cl2) \<Rightarrow> (es @ fs, cl2)))"

section \<open>What is called back\<close>

text \<open>The commands of the lines, in order, up to and with the first QUIT.\<close>

fun commands_until_quit :: "(nat \<Rightarrow> int) \<Rightarrow> nat \<Rightarrow> string option list \<Rightarrow> Command list" where
  "commands_until_quit now i [] = []"
| "commands_until_quit now i (l # ls) =
     (let cmd = parse_command (now i) l; rest = commands_until_quit now (Suc i) ls in
      if cmd_type cmd = CMD_QUIT then [cmd]
      else if cmd_type cmd \<in> {CMD_HELP, CMD_INVALID} then rest
      else cmd # rest)"

definition callbacks :: "cl_event list \<Rightarrow> Command list" where
  "callbacks es = concat (map (\<lambda>e. case e of CommandCallback _ cmd _ \<Rightarrow> [cmd] | _ \<Rightarrow> []) es)"

lemma callbacks_simps [simp]:
  "callbacks [] = []" "callbacks (AddHistory l # es) = callbacks es" "callbacks (Printed t # es) = callbacks es"
  "callbacks (CommandCallback a c u # es) = c # callbacks es" "callbacks (es @ fs) = callbacks es @ callbacks fs"
  by (simp_all add: callbacks_def)

lemma input_thread_stopped: "\<not> cl_running cl \<Longrightarrow> input_thread now i ls cl = ([], cl)"
  by (cases ls) simp_all

lemma parse_command_empty: "cmd_type (parse_command now None) = CMD_INVALID" "cmd_type (parse_command now (Some [])) = CMD_INVALID"
  by (simp_all add: parse_command_def no_command_def strtok_def copy_field_def)

lemma input_thread_callbacks:
  assumes "cl_callback cl = Some cb" "cl_running cl"
  shows "callbacks (fst (input_thread now i ls cl)) = commands_until_quit now i ls \<and>
    (cl_running (snd (input_thread now i ls cl)) \<longleftrightarrow> \<not> (\<exists>cmd \<in> set (commands_until_quit now i ls). cmd_type cmd = CMD_QUIT))"
proof (induction ls arbitrary: i)
  case Nil
  then show ?case using assms by simp
next
  case (Cons l ls)
  show ?case
  proof (cases "cmd_type (parse_command (now i) l) = CMD_QUIT")
    case True
    with parse_command_empty obtain line where "l = Some line" "line \<noteq> []" by (cases l) (auto, metis CommandType.distinct)
    with True assms show ?thesis by (simp add: input_round_def call_back_def input_thread_stopped Let_def)
  next
    case False
    have r: "snd (input_round (now i) l cl) = cl" "callbacks (fst (input_round (now i) l cl)) =
        (if cmd_type (parse_command (now i) l) \<in> {CMD_HELP, CMD_INVALID} then [] else [parse_command (now i) l])"
      using False assms parse_command_empty [of "now i"]
      by (auto simp: input_round_def call_back_def Let_def split: option.splits)
    show ?thesis using Cons.IH [of "Suc i"] False r assms(2)
      by (auto simp: Let_def split: prod.splits)
  qed
qed

text \<open>At the end of the input the thread keeps running without doing anything.\<close>

lemma input_thread_eof: "input_thread now i (replicate n None) cl = ([], cl)"
  by (induction n arbitrary: i) (simp_all add: input_round_def)

end
