(* ===== verification/Ws_Client.thy ===== *)
theory Ws_Client
  imports Command_Line
begin

text \<open>
  \<open>src/client/ws_client.c\<close>: the life cycle of the client's connection, the callback that libwebsockets
  invokes, sending, and the service thread with its reconnection attempts. libwebsockets is outside
  the model: what its calls return and which callbacks a service call makes are arguments. What the
  code asks of the outside is a list of events; \<open>ExitProcess\<close> is \<open>exit(0)\<close>, after which nothing happens.
\<close>

section \<open>State\<close>

record WSClientConfig =
  server_host :: string
  server_port :: int
  reconnect_interval_ms :: int
  wc_ping_interval_ms :: int

record WSConnection =
  wc_context :: addr
  connection :: "addr option"
  wc_running :: bool
  connected :: bool
  wc_host :: "string option"
  wc_port :: int
  wc_reconnect_interval_ms :: int
  wc_ping_ms :: int
  wc_connect_cb :: "addr option"
  wc_disconnect_cb :: "addr option"
  wc_message_cb :: "addr option"
  wc_user_data :: "addr option"
  command_callback :: "addr option"
  command_handler_data :: "addr option"

datatype wc_event =
    ConnectCb addr "addr option"
  | DisconnectCb addr "addr option"
  | MessageCb addr "char list" nat "addr option"
  | CommandCb addr Command "addr option"
  | Sleep int
  | ConnectTo "string option" int
  | CancelService
  | JoinThread
  | ExitProcess

datatype client_reason = CLIENT_ESTABLISHED | CLIENT_CLOSED | CLIENT_RECEIVE | CLIENT_CONNECTION_ERROR | CLIENT_OTHER

section \<open>Life cycle\<close>

definition ws_client_create :: "bool \<Rightarrow> bool \<Rightarrow> addr option \<Rightarrow> WSClientConfig \<Rightarrow> WSConnection option" where
  "ws_client_create calloc_ok strdup_ok lws_context c =
     (if \<not> calloc_ok then None
      else case lws_context of None \<Rightarrow> None
      | Some ctx \<Rightarrow> Some \<lparr>wc_context = ctx, connection = None, wc_running = False, connected = False,
          wc_host = (if strdup_ok then Some (server_host c) else None), wc_port = server_port c,
          wc_reconnect_interval_ms = reconnect_interval_ms c, wc_ping_ms = wc_ping_interval_ms c,
          wc_connect_cb = None, wc_disconnect_cb = None, wc_message_cb = None, wc_user_data = None,
          command_callback = None, command_handler_data = None\<rparr>)"

definition ws_client_force_shutdown :: "wc_event list" where
  "ws_client_force_shutdown = [ExitProcess]"

text \<open>The connection that \<open>lws_client_connect_via_info\<close> returns is \<open>conn\<close>.\<close>

definition ws_client_connect :: "bool \<Rightarrow> addr option \<Rightarrow> WSConnection option \<Rightarrow> rc \<times> WSConnection option \<times> wc_event list" where
  "ws_client_connect thread_ok conn c' = (case c' of None \<Rightarrow> (- 1, None, [])
     | Some c \<Rightarrow> if \<not> thread_ok then (- 1, Some (c\<lparr>wc_running := False\<rparr>), [])
         else if conn = None then
           (- 1, Some (c\<lparr>connection := None, wc_running := False\<rparr>), [ConnectTo (wc_host c) (wc_port c), JoinThread])
         else (0, Some (c\<lparr>wc_running := True, connection := conn\<rparr>), [ConnectTo (wc_host c) (wc_port c)]))"

definition ws_client_disconnect :: "WSConnection option \<Rightarrow> WSConnection option \<times> wc_event list" where
  "ws_client_disconnect c' = (case c' of None \<Rightarrow> (None, [])
     | Some c \<Rightarrow> if \<not> wc_running c then (c', [])
         else (Some (c\<lparr>wc_running := False\<rparr>), [CancelService, JoinThread] @ ws_client_force_shutdown))"

text \<open>Whether the memory is given back, and what happens before that.\<close>

definition ws_client_destroy :: "WSConnection option \<Rightarrow> bool \<times> wc_event list" where
  "ws_client_destroy c' = (case c' of None \<Rightarrow> (False, [])
     | Some c \<Rightarrow> let es = (if wc_running c then snd (ws_client_disconnect c') else []) in
         (ExitProcess \<notin> set es, es))"

definition ws_client_send :: "bool \<Rightarrow> int \<Rightarrow> WSConnection option \<Rightarrow> string option \<Rightarrow> nat \<Rightarrow> rc \<times> (addr option \<times> string) list" where
  "ws_client_send malloc_ok written c' message' len = (case (c', message') of
     (Some c, Some message) \<Rightarrow>
       if \<not> connected c then (- 1, [])
       else if \<not> malloc_ok then (- 1, [])
       else (if written < 0 then - 1 else 0, [(connection c, take len message)])
   | _ \<Rightarrow> (- 1, []))"

definition ws_client_is_connected :: "WSConnection option \<Rightarrow> bool" where
  "ws_client_is_connected c' = (case c' of None \<Rightarrow> False | Some c \<Rightarrow> connected c)"

definition ws_client_set_command_callback :: "WSConnection option \<Rightarrow> addr option \<Rightarrow> addr option \<Rightarrow> WSConnection option" where
  "ws_client_set_command_callback c' cb user = map_option (\<lambda>c. c\<lparr>command_callback := cb, command_handler_data := user\<rparr>) c'"

definition ws_client_set_connect_callback :: "WSConnection option \<Rightarrow> addr option \<Rightarrow> addr option \<Rightarrow> WSConnection option" where
  "ws_client_set_connect_callback c' cb user = map_option (\<lambda>c. c\<lparr>wc_connect_cb := cb, wc_user_data := user\<rparr>) c'"

definition ws_client_set_disconnect_callback :: "WSConnection option \<Rightarrow> addr option \<Rightarrow> addr option \<Rightarrow> WSConnection option" where
  "ws_client_set_disconnect_callback c' cb user = map_option (\<lambda>c. c\<lparr>wc_disconnect_cb := cb, wc_user_data := user\<rparr>) c'"

definition ws_client_set_message_callback :: "WSConnection option \<Rightarrow> addr option \<Rightarrow> addr option \<Rightarrow> WSConnection option" where
  "ws_client_set_message_callback c' cb user = map_option (\<lambda>c. c\<lparr>wc_message_cb := cb, wc_user_data := user\<rparr>) c'"

section \<open>The callback\<close>

text \<open>
  \<open>inp\<close> is the memory at \<open>in\<close>: \<open>len\<close> bytes of the message and what lies behind them. The terminated copy
  that is made of the message is freed unused.
\<close>

definition client_callback_trading :: "client_reason \<Rightarrow> char list \<Rightarrow> nat \<Rightarrow> WSConnection \<Rightarrow> WSConnection \<times> wc_event list" where
  "client_callback_trading reason inp len c = (case reason of
     CLIENT_ESTABLISHED \<Rightarrow> (c\<lparr>connected := True\<rparr>,
       (case wc_connect_cb c of None \<Rightarrow> [] | Some cb \<Rightarrow> [ConnectCb cb (wc_user_data c)]))
   | CLIENT_CLOSED \<Rightarrow> (c\<lparr>connected := False\<rparr>,
       (case wc_disconnect_cb c of None \<Rightarrow> [] | Some cb \<Rightarrow> [DisconnectCb cb (wc_user_data c)]))
   | CLIENT_RECEIVE \<Rightarrow> (c, (case wc_message_cb c of None \<Rightarrow> [] | Some cb \<Rightarrow> [MessageCb cb inp len (wc_user_data c)]))
   | CLIENT_CONNECTION_ERROR \<Rightarrow> (c\<lparr>connected := False\<rparr>, [])
   | CLIENT_OTHER \<Rightarrow> (c, []))"

section \<open>The service thread\<close>

text \<open>
  What one call of \<open>lws_service\<close> does, and the result of a connection attempt if there is one. Another thread may call
  \<open>ws_client_disconnect\<close>, which clears \<open>running\<close>: before \<open>lws_service\<close> returns, or later in the round, while the thread sleeps
  before the attempt for instance.
\<close>

record service_input =
  si_calls :: "(client_reason \<times> char list \<times> nat) list"
  si_stopped :: bool
  si_conn :: "addr option"
  si_stopped_later :: bool

fun service_calls :: "(client_reason \<times> char list \<times> nat) list \<Rightarrow> WSConnection \<Rightarrow> WSConnection \<times> wc_event list" where
  "service_calls [] c = (c, [])"
| "service_calls ((r, inp, len) # rs) c = (case client_callback_trading r inp len c of (c1, es) \<Rightarrow>
     (case service_calls rs c1 of (c2, fs) \<Rightarrow> (c2, es @ fs)))"

definition max_retries :: int where
  "max_retries = 3"

definition backoff_ms :: "int list" where
  "backoff_ms = [1000, 2000, 4000]"

definition quit_command :: Command where
  "quit_command = \<lparr>cmd_type = CMD_QUIT, cmd_symbol = [], cmd_price = Fin 0, cmd_quantity = 0, cmd_order_id = []\<rparr>"

text \<open>One round of the loop: the connection, \<open>retry_count\<close>, the events, and whether the process has ended.\<close>

definition service_round :: "service_input \<Rightarrow> WSConnection \<Rightarrow> int \<Rightarrow> WSConnection \<times> int \<times> wc_event list \<times> bool" where
  "service_round si c retry_count = (case service_calls (si_calls si) c of (c0, es) \<Rightarrow>
     let c1 = c0\<lparr>wc_running := wc_running c0 \<and> \<not> si_stopped si\<rparr> in
     if \<not> connected c1 \<and> wc_running c1 then
       (if retry_count < max_retries then
          (c1\<lparr>connection := si_conn si, wc_running := \<not> si_stopped_later si\<rparr>, retry_count + 1,
           es @ [Sleep (backoff_ms ! nat retry_count * 1000), ConnectTo (wc_host c1) (wc_port c1)], False)
        else
          (c1\<lparr>wc_running := False\<rparr>, retry_count,
           es @ (case wc_disconnect_cb c1 of None \<Rightarrow> [] | Some cb \<Rightarrow> [DisconnectCb cb (wc_user_data c1)]) @
           (case command_callback c1 of None \<Rightarrow> [] | Some cb \<Rightarrow> [CommandCb cb quit_command (command_handler_data c1)]) @
           ws_client_force_shutdown, True))
     else (c1\<lparr>wc_running := wc_running c1 \<and> \<not> si_stopped_later si\<rparr>, retry_count, es, False))"

fun service_thread :: "service_input list \<Rightarrow> WSConnection \<Rightarrow> int \<Rightarrow> WSConnection \<times> int \<times> wc_event list \<times> bool" where
  "service_thread [] c n = (c, n, [], False)"
| "service_thread (si # sis) c n =
     (if \<not> wc_running c then (c, n, [], False)
      else (case service_round si c n of (c1, n1, es, ended) \<Rightarrow>
        if ended then (c1, n1, es, True)
        else (case service_thread sis c1 n1 of (c2, n2, fs, e2) \<Rightarrow> (c2, n2, es @ fs, e2))))"

section \<open>When the process ends\<close>

text \<open>
  Whether the connection is up after a service call, and in how many of the rounds it is down while the client still
  runs; after a disconnect by another thread there are no more rounds.
\<close>

definition up_after :: "bool \<Rightarrow> service_input \<Rightarrow> bool" where
  "up_after b si = fold (\<lambda>(r, _) up. case r of CLIENT_ESTABLISHED \<Rightarrow> True | CLIENT_CLOSED \<Rightarrow> False
     | CLIENT_CONNECTION_ERROR \<Rightarrow> False | _ \<Rightarrow> up) (si_calls si) b"

fun down_rounds :: "bool \<Rightarrow> service_input list \<Rightarrow> nat" where
  "down_rounds b [] = 0"
| "down_rounds b (si # sis) = (let b1 = up_after b si in (if b1 \<or> si_stopped si then 0 else 1) +
     (if si_stopped si \<or> si_stopped_later si then 0 else down_rounds b1 sis))"

definition attempts :: "wc_event list \<Rightarrow> nat" where
  "attempts es = length (filter (\<lambda>e. case e of ConnectTo _ _ \<Rightarrow> True | _ \<Rightarrow> False) es)"

lemma attempts_simps [simp]: "attempts [] = 0" "attempts (es @ fs) = attempts es + attempts fs"
  "attempts (ConnectTo h p # es) = Suc (attempts es)" "attempts (Sleep n # es) = attempts es"
  by (simp_all add: attempts_def)

lemma service_calls_effect:
  "connected (fst (service_calls rs c)) = fold (\<lambda>(r, _) up. case r of CLIENT_ESTABLISHED \<Rightarrow> True | CLIENT_CLOSED \<Rightarrow> False
     | CLIENT_CONNECTION_ERROR \<Rightarrow> False | _ \<Rightarrow> up) rs (connected c)"
  "wc_running (fst (service_calls rs c)) = wc_running c"
  "attempts (snd (service_calls rs c)) = 0"
  by (induction rs c rule: service_calls.induct)
    (auto simp: client_callback_trading_def attempts_def split: client_reason.splits option.splits prod.splits)

lemma service_round_effect:
  assumes "wc_running c" "0 \<le> n"
  shows "case service_round si c n of (c1, n1, es, ended) \<Rightarrow>
    connected c1 = up_after (connected c) si \<and> wc_running c1 = (\<not> ended \<and> \<not> si_stopped si \<and> \<not> si_stopped_later si) \<and>
    ended = (\<not> up_after (connected c) si \<and> \<not> si_stopped si \<and> max_retries \<le> n) \<and>
    n1 = n + (if \<not> up_after (connected c) si \<and> \<not> si_stopped si \<and> n < max_retries then 1 else 0) \<and> int (attempts es) = n1 - n"
  using assms service_calls_effect [of "si_calls si" c]
  by (auto simp: service_round_def Let_def up_after_def [symmetric] ws_client_force_shutdown_def attempts_def
      split: prod.splits option.splits)

lemma service_thread_effect:
  assumes "wc_running c" "0 \<le> n" "n \<le> max_retries"
  shows "case service_thread sis c n of (c1, n1, es, ended) \<Rightarrow>
    ended = (max_retries < n + int (down_rounds (connected c) sis)) \<and>
    n1 = min max_retries (n + int (down_rounds (connected c) sis)) \<and> int (attempts es) = n1 - n"
  using assms
proof (induction sis arbitrary: c n)
  case (Cons si sis)
  obtain c1 n1 es ended where r: "service_round si c n = (c1, n1, es, ended)" using prod_cases4 by blast
  note R = service_round_effect [OF Cons.prems(1,2), of si, unfolded r prod.case]
  show ?case
  proof (cases "wc_running c1")
    case False
    then have "service_thread sis c1 n1 = (c1, n1, [], False)" by (cases sis) simp_all
    with R False Cons.prems r show ?thesis by (cases ended) (auto simp: Let_def max_retries_def)
  next
    case True
    then have "\<not> ended" using R by blast
    obtain c2 n2 fs e2 where t: "service_thread sis c1 n1 = (c2, n2, fs, e2)" using prod_cases4 by blast
    have "n1 \<le> max_retries" "0 \<le> n1" using R Cons.prems by auto
    from Cons.IH [OF True this(2,1), unfolded t prod.case] R True \<open>\<not> ended\<close> Cons.prems(1) r t show ?thesis
      by (auto simp: Let_def max_retries_def)
  qed
qed (auto simp: max_retries_def)

end
