(* ===== verification/Trade_History.thy ===== *)
theory Trade_History
  imports Json_Protocol Machine
begin

text \<open>
  \<open>src/client/trade_history.c\<close>: the client's list of trades, most recent first. The linked list is a
  list of its records' trades. \<open>None\<close> is a fault: a NULL dereference, a write beyond the caller's
  array or the comparison of a symbol without a terminator. The mutex makes each call one step.
\<close>

section \<open>State\<close>

record TradeHistoryConfig =
  hc_max_trades :: int
  hc_record_all_trades :: bool

record TradeHistory =
  trades :: "TradeMessage list"
  trade_count :: int
  max_trades :: int
  record_all_trades :: bool

definition trade_history_create :: "bool \<Rightarrow> TradeHistoryConfig \<Rightarrow> TradeHistory option" where
  "trade_history_create calloc_ok c = (if \<not> calloc_ok then None
     else Some \<lparr>trades = [], trade_count = 0, max_trades = hc_max_trades c, record_all_trades = hc_record_all_trades c\<rparr>)"

section \<open>Operations\<close>

text \<open>A full history first drops the record at the head of the list, which it names the oldest.\<close>

definition trade_history_add_trade ::
  "bool \<Rightarrow> TradeHistory option \<Rightarrow> TradeMessage option \<Rightarrow> (rc \<times> TradeHistory option) option" where
  "trade_history_add_trade calloc_ok h' trade' = (case (h', trade') of
     (Some h, Some trade) \<Rightarrow> do {
       h1 \<leftarrow> (if max_trades h \<le> trade_count h
               then (case trades h of [] \<Rightarrow> None
                     | oldest # next \<Rightarrow> Some (h\<lparr>trades := next, trade_count := trade_count h - 1\<rparr>))
               else Some h);
       if \<not> calloc_ok then Some (- 1, Some h1)
       else Some (0, Some (h1\<lparr>trades := trade # trades h1, trade_count := trade_count h1 + 1\<rparr>)) }
   | _ \<Rightarrow> Some (- 1, h'))"

text \<open>The copying loop: the array, the next index, the records left.\<close>

fun copy_trades :: "TradeMessage list \<Rightarrow> TradeMessage list \<Rightarrow> int \<Rightarrow> int \<Rightarrow> (TradeMessage list \<times> int) option" where
  "copy_trades [] out n limit = Some (out, n)"
| "copy_trades (t # ts) out n limit =
     (if n < limit then do { out1 \<leftarrow> array_set out n t; copy_trades ts out1 (n + 1) limit } else Some (out, n))"

text \<open>The return code, the caller's array and \<open>*num_trades\<close> (a NULL pointer when \<open>num\<close> is false).\<close>

definition trade_history_get_trades ::
  "TradeHistory option \<Rightarrow> TradeMessage list option \<Rightarrow> int \<Rightarrow> bool \<Rightarrow> (rc \<times> (TradeMessage list \<times> int) option) option" where
  "trade_history_get_trades h' out' limit num = (case (h', out') of
     (Some h, Some out) \<Rightarrow> if \<not> num then Some (- 1, None)
       else map_option (\<lambda>r. (0, Some r)) (copy_trades (trades h) out 0 limit)
   | _ \<Rightarrow> Some (- 1, None))"

text \<open>\<open>strcmp\<close> of each record's symbol with the one asked for; the loops of the three statistics.\<close>

fun price_loop :: "TradeMessage list \<Rightarrow> string \<Rightarrow> double \<Rightarrow> int \<Rightarrow> (double \<times> int) option" where
  "price_loop [] sy acc count = Some (acc, count)"
| "price_loop (t # ts) sy acc count = do {
     s \<leftarrow> c_string (tm_symbol t);
     if s = sy then price_loop ts sy (d_add acc (tm_price t)) (int32 (count + 1)) else price_loop ts sy acc count }"

definition trade_history_get_avg_price :: "TradeHistory option \<Rightarrow> string option \<Rightarrow> double option" where
  "trade_history_get_avg_price h' sy' = (case (h', sy') of
     (Some h, Some sy) \<Rightarrow> do {
       (total_price, count) \<leftarrow> price_loop (trades h) sy (Fin 0) 0;
       Some (if 0 < count then d_div total_price (d_of_int count) else Fin 0) }
   | _ \<Rightarrow> Some (Fin 0))"

fun volume_loop :: "TradeMessage list \<Rightarrow> string \<Rightarrow> int \<Rightarrow> int option" where
  "volume_loop [] sy acc = Some acc"
| "volume_loop (t # ts) sy acc = do {
     s \<leftarrow> c_string (tm_symbol t);
     volume_loop ts sy (if s = sy then int32 (acc + tm_quantity t) else acc) }"

definition trade_history_get_volume :: "TradeHistory option \<Rightarrow> string option \<Rightarrow> int option" where
  "trade_history_get_volume h' sy' = (case (h', sy') of
     (Some h, Some sy) \<Rightarrow> volume_loop (trades h) sy 0 | _ \<Rightarrow> Some 0)"

fun vwap_loop :: "TradeMessage list \<Rightarrow> string \<Rightarrow> double \<Rightarrow> int \<Rightarrow> (double \<times> int) option" where
  "vwap_loop [] sy vp acc = Some (vp, acc)"
| "vwap_loop (t # ts) sy vp acc = do {
     s \<leftarrow> c_string (tm_symbol t);
     if s = sy then vwap_loop ts sy (d_add vp (d_mul (tm_price t) (d_of_int (tm_quantity t)))) (int32 (acc + tm_quantity t))
     else vwap_loop ts sy vp acc }"

definition trade_history_get_vwap :: "TradeHistory option \<Rightarrow> string option \<Rightarrow> double option" where
  "trade_history_get_vwap h' sy' = (case (h', sy') of
     (Some h, Some sy) \<Rightarrow> do {
       (volume_price, total_volume) \<leftarrow> vwap_loop (trades h) sy (Fin 0) 0;
       Some (if 0 < total_volume then d_div volume_price (d_of_int total_volume) else Fin 0) }
   | _ \<Rightarrow> Some (Fin 0))"

section \<open>Invariant\<close>

definition history_ok :: "TradeHistory \<Rightarrow> bool" where
  "history_ok h \<longleftrightarrow> 0 < max_trades h \<and> trade_count h = int (length (trades h)) \<and> trade_count h \<le> max_trades h"

lemma add_trade_ok:
  assumes "history_ok h"
  obtains h1 where "trade_history_add_trade m (Some h) (Some t) = Some (if m then 0 else - 1, Some h1)" "history_ok h1"
    "trades h1 = (if m then [t] else []) @ (if max_trades h \<le> trade_count h then tl (trades h) else trades h)"
    "max_trades h1 = max_trades h"
proof -
  let ?ts = "(if m then [t] else []) @ (if max_trades h \<le> trade_count h then tl (trades h) else trades h)"
  define h1 where "h1 = h\<lparr>trades := ?ts, trade_count := int (length ?ts)\<rparr>"
  have "max_trades h \<le> trade_count h \<Longrightarrow> trades h = hd (trades h) # tl (trades h)"
    using assms by (cases "trades h") (auto simp: history_ok_def)
  then have "trade_history_add_trade m (Some h) (Some t) = Some (if m then 0 else - 1, Some h1)"
    using assms by (cases h; cases "trades h") (auto simp: trade_history_add_trade_def history_ok_def h1_def)
  moreover have "history_ok h1" "trades h1 = ?ts" "max_trades h1 = max_trades h"
    using assms by (auto simp: history_ok_def h1_def)
  ultimately show ?thesis by (rule that)
qed

inductive history_step :: "TradeHistory \<Rightarrow> TradeHistory \<Rightarrow> bool" where
  add: "trade_history_add_trade m (Some h) t' = Some (r, Some h') \<Longrightarrow> history_step h h'"

definition history_init :: "TradeHistory \<Rightarrow> bool" where
  "history_init h \<longleftrightarrow> (\<exists>c. 0 < hc_max_trades c \<and> trade_history_create True c = Some h)"

inductive_simps history_step_iff: "history_step h h'"

interpretation history_machine: invariant_machine history_init history_step history_ok
proof unfold_locales
  show "history_ok h" if "history_init h" for h
    using that by (auto simp: history_init_def trade_history_create_def history_ok_def)
  show "history_ok h'" if ok: "history_ok h" and st: "history_step h h'" for h h'
  proof -
    from st obtain m t' r where a: "trade_history_add_trade m (Some h) t' = Some (r, Some h')"
      by (auto simp: history_step_iff)
    show ?thesis
    proof (cases t')
      case None
      with a ok show ?thesis by (simp add: trade_history_add_trade_def)
    next
      case (Some t)
      with add_trade_ok [OF ok, of m t] a show ?thesis by (metis option.inject prod.inject)
    qed
  qed
qed

section \<open>What the history holds\<close>

text \<open>Recording a sequence of trades.\<close>

fun record_trades :: "TradeHistory \<Rightarrow> TradeMessage list \<Rightarrow> TradeHistory option" where
  "record_trades h [] = Some h"
| "record_trades h (t # ts) = (case trade_history_add_trade True (Some h) (Some t) of
     Some (_, Some h1) \<Rightarrow> record_trades h1 ts | _ \<Rightarrow> None)"

lemma record_trades_append:
  "record_trades h (ts @ us) = Option.bind (record_trades h ts) (\<lambda>h1. record_trades h1 us)"
  by (induction ts arbitrary: h) (auto split: option.splits)

text \<open>
  Of more trades than fit, the history keeps the first \<open>max_trades - 1\<close> and the very last: the
  record dropped each time is the newest one.
\<close>

definition kept :: "nat \<Rightarrow> TradeMessage list \<Rightarrow> TradeMessage list" where
  "kept n ts = (if length ts \<le> n then rev ts else last ts # rev (take (n - 1) ts))"

lemma length_kept: "0 < n \<Longrightarrow> length (kept n ts) = min n (length ts)"
  by (auto simp: kept_def)

lemma kept_snoc:
  assumes "0 < n"
  shows "kept n (ts @ [t]) = t # (if n \<le> length ts then tl (kept n ts) else kept n ts)"
proof (cases "length ts = n")
  case True
  with assms obtain us u where "ts = us @ [u]" by (cases ts rule: rev_cases) auto
  with True assms show ?thesis by (simp add: kept_def)
next
  case False
  then show ?thesis by (auto simp: kept_def)
qed

lemma record_trades_kept:
  assumes "trade_history_create True c = Some h" "0 < hc_max_trades c"
  shows "\<exists>h'. record_trades h ts = Some h' \<and> history_ok h' \<and> max_trades h' = hc_max_trades c \<and>
    trades h' = kept (nat (hc_max_trades c)) ts"
proof (induction ts rule: rev_induct)
  case Nil
  then show ?case using assms by (auto simp: trade_history_create_def history_ok_def kept_def)
next
  case (snoc t ts)
  let ?n = "nat (hc_max_trades c)"
  obtain h1 where h1: "record_trades h ts = Some h1" "history_ok h1" "max_trades h1 = hc_max_trades c" "trades h1 = kept ?n ts"
    using snoc by blast
  obtain h2 where h2: "trade_history_add_trade True (Some h1) (Some t) = Some (0, Some h2)" "history_ok h2"
    "trades h2 = t # (if max_trades h1 \<le> trade_count h1 then tl (trades h1) else trades h1)" "max_trades h2 = max_trades h1"
    using add_trade_ok [OF h1(2), of True t] by auto
  have "max_trades h1 \<le> trade_count h1 \<longleftrightarrow> ?n \<le> length ts"
    using h1(2-4) assms(2) length_kept [of ?n ts] by (auto simp: history_ok_def)
  with h1 h2 kept_snoc [of ?n ts t] assms(2) show ?case by (simp add: record_trades_append)
qed

section \<open>Statistics\<close>

definition of_symbol :: "string \<Rightarrow> TradeMessage list \<Rightarrow> TradeMessage list" where
  "of_symbol sy ts = filter (\<lambda>t. c_string (tm_symbol t) = Some sy) ts"

lemma volume_loop_sum:
  "list_all (\<lambda>t. c_string (tm_symbol t) \<noteq> None) ts \<Longrightarrow>
   \<exists>v. volume_loop ts sy a = Some v \<and> int32 v = int32 (a + sum_list (map tm_quantity (of_symbol sy ts)))"
proof (induction ts arbitrary: a)
  case (Cons t ts)
  obtain s where s: "c_string (tm_symbol t) = Some s" using Cons.prems by auto
  have "list_all (\<lambda>t. c_string (tm_symbol t) \<noteq> None) ts" using Cons.prems by simp
  with Cons.IH [of a] Cons.IH [of "int32 (a + tm_quantity t)"] s show ?case
    by (cases "s = sy") (auto simp: of_symbol_def add.assoc)
qed (simp add: of_symbol_def)

lemma vwap_loop_volume:
  "map_option snd (vwap_loop ts sy vp a) = volume_loop ts sy a"
proof (induction ts arbitrary: vp a)
  case (Cons t ts)
  show ?case by (cases "c_string (tm_symbol t)") (simp_all add: Cons)
qed simp

end
