(* ===== verification/Order_Entry.thy ===== *)
theory Order_Entry
  imports C_Text Machine
begin

text \<open>
  \<open>src/client/order_entry.c\<close>: the client's own account of its open orders, with a limit on their number
  and on the sum of price times quantity. The linked list is a list, most recent first. The two
  character arrays of a record are zeroed and then filled up to one byte less than they hold, so
  they are strings here.
\<close>

section \<open>State\<close>

record OrderEntryConfig =
  oc_trader_id :: string
  oc_max_orders :: int
  oc_max_notional :: double

record OrderRecord =
  or_order_id :: string
  or_symbol :: string
  or_price :: double
  or_quantity :: int
  or_is_buy :: bool

record OrderEntry =
  active_orders :: "OrderRecord list"
  active_count :: int
  total_notional :: double
  oe_max_orders :: int
  max_notional :: double
  oe_trader_id :: "string option"

text \<open>The result of \<open>strdup\<close> is not tested.\<close>

definition order_entry_create :: "bool \<Rightarrow> bool \<Rightarrow> OrderEntryConfig \<Rightarrow> OrderEntry option" where
  "order_entry_create calloc_ok strdup_ok c = (if \<not> calloc_ok then None
     else Some \<lparr>active_orders = [], active_count = 0, total_notional = Fin 0, oe_max_orders = oc_max_orders c,
       max_notional = oc_max_notional c, oe_trader_id = (if strdup_ok then Some (oc_trader_id c) else None)\<rparr>)"

section \<open>Operations\<close>

definition order_entry_submit ::
  "bool \<Rightarrow> OrderEntry option \<Rightarrow> string option \<Rightarrow> double \<Rightarrow> int \<Rightarrow> bool \<Rightarrow> rc \<times> OrderEntry option" where
  "order_entry_submit calloc_ok e' sy' p q buy = (case (e', sy') of
     (Some e, Some sy) \<Rightarrow>
       let new_notional = d_mul p (d_of_int q) in
       if oe_max_orders e \<le> active_count e then (- 1, e')
       else if d_lt (max_notional e) (d_add (total_notional e) new_notional) then (- 1, e')
       else if \<not> calloc_ok then (- 1, e')
       else (0, Some (e\<lparr>
         active_orders := \<lparr>or_order_id = snprintf 32 (''ORD'' @ show_int (active_count e + 1)), or_symbol = copy_field 16 sy,
             or_price = p, or_quantity = q, or_is_buy = buy\<rparr> # active_orders e,
         active_count := active_count e + 1,
         total_notional := d_add (total_notional e) new_notional\<rparr>))
   | _ \<Rightarrow> (- 1, e'))"

text \<open>The walk along the list: the first record with the id, and the list without it.\<close>

fun unlink_record :: "OrderRecord list \<Rightarrow> string \<Rightarrow> (OrderRecord \<times> OrderRecord list) option" where
  "unlink_record [] oid = None"
| "unlink_record (r # rs) oid = (if or_order_id r = oid then Some (r, rs)
     else map_option (\<lambda>(x, xs). (x, r # xs)) (unlink_record rs oid))"

definition order_entry_cancel :: "OrderEntry option \<Rightarrow> string option \<Rightarrow> rc \<times> OrderEntry option" where
  "order_entry_cancel e' oid' = (case (e', oid') of
     (Some e, Some oid) \<Rightarrow> (case unlink_record (active_orders e) oid of
        None \<Rightarrow> (- 1, e')
      | Some (r, rs) \<Rightarrow> (0, Some (e\<lparr>active_orders := rs,
            total_notional := d_sub (total_notional e) (d_mul (or_price r) (d_of_int (or_quantity r))),
            active_count := active_count e - 1\<rparr>)))
   | _ \<Rightarrow> (- 1, e'))"

definition order_entry_get_active_orders :: "OrderEntry option \<Rightarrow> int" where
  "order_entry_get_active_orders e' = (case e' of None \<Rightarrow> 0 | Some e \<Rightarrow> active_count e)"

definition order_entry_get_total_notional :: "OrderEntry option \<Rightarrow> double" where
  "order_entry_get_total_notional e' = (case e' of None \<Rightarrow> Fin 0 | Some e \<Rightarrow> total_notional e)"

section \<open>Invariant\<close>

definition entry_count_ok :: "OrderEntry \<Rightarrow> bool" where
  "entry_count_ok e \<longleftrightarrow> active_count e = int (length (active_orders e)) \<and> active_count e \<le> max 0 (oe_max_orders e) \<and>
     list_all (\<lambda>r. length (or_order_id r) < 32 \<and> length (or_symbol r) < 16) (active_orders e)"

lemma unlink_record_SomeD:
  "unlink_record rs oid = Some (r, rs') \<Longrightarrow>
   \<exists>us vs. rs = us @ r # vs \<and> rs' = us @ vs \<and> or_order_id r = oid \<and> oid \<notin> or_order_id ` set us"
proof (induction rs arbitrary: r rs')
  case (Cons x rs)
  show ?case
  proof (cases "or_order_id x = oid")
    case True
    with Cons.prems show ?thesis by (intro exI [of _ "[]"] exI [of _ rs]) auto
  next
    case False
    then obtain xs where xs: "unlink_record rs oid = Some (r, xs)" "rs' = x # xs" using Cons.prems by auto
    from Cons.IH [OF xs(1)] obtain us vs where
      "rs = us @ r # vs" "xs = us @ vs" "or_order_id r = oid" "oid \<notin> or_order_id ` set us" by blast
    with xs(2) False show ?thesis by (intro exI [of _ "x # us"] exI [of _ vs]) auto
  qed
qed simp

lemma submit_ok:
  "entry_count_ok e \<Longrightarrow> order_entry_submit m (Some e) sy p q buy = (r, Some e') \<Longrightarrow> entry_count_ok e'"
  by (auto simp: order_entry_submit_def entry_count_ok_def Let_def length_snprintf length_copy_field split: option.splits if_splits)

lemma cancel_ok:
  assumes "entry_count_ok e" "order_entry_cancel (Some e) oid' = (r, Some e')"
  shows "entry_count_ok e'"
proof (cases oid')
  case None
  with assms show ?thesis by (simp add: order_entry_cancel_def)
next
  case (Some oid)
  show ?thesis
  proof (cases "unlink_record (active_orders e) oid")
    case None
    with Some assms show ?thesis by (simp add: order_entry_cancel_def)
  next
    case (Some xy)
    obtain x rs where xy: "xy = (x, rs)" by fastforce
    from unlink_record_SomeD [OF Some [unfolded xy]] obtain us vs where "active_orders e = us @ x # vs" "rs = us @ vs" by blast
    with assms Some \<open>oid' = Some oid\<close> xy show ?thesis
      by (auto simp: order_entry_cancel_def entry_count_ok_def)
  qed
qed

inductive entry_step :: "OrderEntry \<Rightarrow> OrderEntry \<Rightarrow> bool" where
  submit: "order_entry_submit m (Some e) sy p q buy = (r, Some e') \<Longrightarrow> entry_step e e'"
| cancel: "order_entry_cancel (Some e) oid = (r, Some e') \<Longrightarrow> entry_step e e'"

definition entry_init :: "OrderEntry \<Rightarrow> bool" where
  "entry_init e \<longleftrightarrow> (\<exists>m c. order_entry_create True m c = Some e)"

inductive_cases entry_stepE: "entry_step e e'"

interpretation entry_machine: invariant_machine entry_init entry_step entry_count_ok
proof unfold_locales
  show "entry_count_ok e" if "entry_init e" for e
    using that by (auto simp: entry_init_def order_entry_create_def entry_count_ok_def)
  show "entry_count_ok e'" if "entry_count_ok e" "entry_step e e'" for e e'
    using that(2) submit_ok [OF that(1)] cancel_ok [OF that(1)] by (elim entry_stepE) blast+
qed

section \<open>Identifiers\<close>

text \<open>The id of the \<open>n\<close>-th order; different numbers have different ids.\<close>

definition ord_id :: "int \<Rightarrow> string" where
  "ord_id n = snprintf 32 (''ORD'' @ show_int n)"

lemma ord_id_text: "0 \<le> n \<Longrightarrow> fits 32 n \<Longrightarrow> ord_id n = ''ORD'' @ show_nat n"
proof -
  assume n: "0 \<le> n" "fits 32 n"
  have "length (show_nat n) \<le> 10" by (rule length_show_nat) (use n in \<open>simp_all add: fits_def\<close>)
  with n(1) show ?thesis by (simp add: ord_id_def snprintf_def show_int_def)
qed

lemma ord_id_inj:
  assumes "0 \<le> n" "fits 32 n" "0 \<le> m" "fits 32 m" "ord_id n = ord_id m"
  shows "n = m"
proof -
  have "show_nat n = show_nat m" using assms(5) by (simp add: ord_id_text [OF assms(1,2)] ord_id_text [OF assms(3,4)])
  then show ?thesis using digits_val_show [OF assms(1)] digits_val_show [OF assms(3)] by metis
qed

text \<open>Orders submitted one after the other, each of them accepted.\<close>

fun submit_all :: "OrderEntry \<Rightarrow> (string \<times> double \<times> int \<times> bool) list \<Rightarrow> OrderEntry option" where
  "submit_all e [] = Some e"
| "submit_all e ((sy, p, q, buy) # os) = (case order_entry_submit True (Some e) (Some sy) p q buy of
     (r, Some e1) \<Rightarrow> if r = 0 then submit_all e1 os else None | _ \<Rightarrow> None)"

lemma submit_SomeD:
  assumes "order_entry_submit m (Some e) (Some sy) p q buy = (0, Some e1)"
  shows "active_orders e1 = \<lparr>or_order_id = ord_id (active_count e + 1), or_symbol = copy_field 16 sy, or_price = p,
      or_quantity = q, or_is_buy = buy\<rparr> # active_orders e"
    "active_count e1 = active_count e + 1" "active_count e < oe_max_orders e" "oe_max_orders e1 = oe_max_orders e"
    "max_notional e1 = max_notional e" "\<not> d_lt (max_notional e) (total_notional e1)"
  using assms by (auto simp: order_entry_submit_def ord_id_def Let_def split: if_splits)

lemma submit_all_ids:
  assumes "submit_all e os = Some e1"
  shows "map or_order_id (active_orders e1) =
      rev (map (\<lambda>i. ord_id (active_count e + int i + 1)) [0..<length os]) @ map or_order_id (active_orders e) \<and>
    active_count e1 = active_count e + int (length os) \<and> (os = [] \<or> active_count e1 \<le> oe_max_orders e) \<and>
    oe_max_orders e1 = oe_max_orders e"
  using assms
proof (induction e os rule: submit_all.induct)
  case (2 e sy p q buy os)
  obtain e2 where e2: "order_entry_submit True (Some e) (Some sy) p q buy = (0, Some e2)" "submit_all e2 os = Some e1"
    using "2.prems" by (auto split: prod.splits option.splits if_splits)
  note f = submit_SomeD [OF e2(1)] and IH = "2.IH" [OF e2(1) [symmetric] refl refl e2(2)]
  have "map (\<lambda>i. ord_id (active_count e + int i + 1)) [0..<Suc (length os)] =
      ord_id (active_count e + 1) # map (\<lambda>i. ord_id (active_count e2 + int i + 1)) [0..<length os]"
    unfolding upt_conv_Cons [OF zero_less_Suc] map_Suc_upt [symmetric] by (simp add: f(2) algebra_simps)
  with IH f show ?case by (auto simp del: upt_Suc)
qed simp

end
