(* ===== verification/Market_Monitor.thy ===== *)
theory Market_Monitor
  imports Json_Protocol Machine
begin

text \<open>
  \<open>src/client/market_monitor.c\<close>: the symbols the client watches, with the last book and trade of each. The
  array of symbols is zeroed when it is allocated. What is printed is a text; \<open>None\<close> is a fault: a read
  beyond an array of a snapshot or of a symbol without a terminator.
\<close>

section \<open>State\<close>

record MarketMonitorConfig =
  mm_max_symbols :: int
  mm_update_interval_ms :: int
  mm_display_full_depth :: bool

record MarketSymbol =
  ms_symbol :: "char list"
  latest_book :: BookSnapshot
  latest_trade :: TradeMessage
  has_update :: bool

record MarketMonitor =
  mon_symbols :: "MarketSymbol list"
  symbol_count :: int
  mon_max_symbols :: int
  update_interval_ms :: int
  display_full_depth :: bool

definition zero_book :: BookSnapshot where
  "zero_book = \<lparr>bs_symbol = replicate 16 NUL, num_bids = 0, num_asks = 0, max_orders = 0,
     bid_prices = None, bid_quantities = None, ask_prices = None, ask_quantities = None\<rparr>"

definition zero_trade :: TradeMessage where
  "zero_trade = \<lparr>tm_symbol = replicate 16 NUL, tm_buy_order_id = replicate 32 NUL, tm_sell_order_id = replicate 32 NUL,
     tm_price = Fin 0, tm_quantity = 0, tm_timestamp = 0\<rparr>"

definition zero_symbol :: MarketSymbol where
  "zero_symbol = \<lparr>ms_symbol = replicate 16 NUL, latest_book = zero_book, latest_trade = zero_trade, has_update = False\<rparr>"

definition market_monitor_create :: "bool \<Rightarrow> bool \<Rightarrow> MarketMonitorConfig \<Rightarrow> MarketMonitor option" where
  "market_monitor_create m0 m1 c =
     (if \<not> m0 then None
      else if \<not> m1 \<or> mm_max_symbols c < 0 then None
      else Some \<lparr>mon_symbols = replicate (nat (mm_max_symbols c)) zero_symbol, symbol_count = 0,
        mon_max_symbols = mm_max_symbols c, update_interval_ms = mm_update_interval_ms c,
        display_full_depth = mm_display_full_depth c\<rparr>)"

section \<open>Printing a snapshot\<close>

definition tab :: string where
  "tab = [CHR 0x09]"

definition eol :: string where
  "eol = [CHR 0x0A]"

definition level_text :: "double list \<Rightarrow> int list \<Rightarrow> int \<Rightarrow> string option" where
  "level_text ps qs i = do {
     p \<leftarrow> array_get ps i;
     q \<leftarrow> array_get qs i;
     Some (show_f2 p @ tab @ show_int q) }"

text \<open>Rows \<open>i\<close> to \<open>i + k - 1\<close>.\<close>

fun book_rows :: "BookSnapshot \<Rightarrow> int \<Rightarrow> nat \<Rightarrow> string option" where
  "book_rows s i 0 = Some []"
| "book_rows s i (Suc k) = do {
     bid \<leftarrow> level_text (array (bid_prices s)) (array (bid_quantities s)) i;
     ask \<leftarrow> (if i < num_asks s
              then map_option (\<lambda>t. tab @ tab @ t) (level_text (array (ask_prices s)) (array (ask_quantities s)) i)
              else Some []);
     rest \<leftarrow> book_rows s (i + 1) k;
     Some (bid @ ask @ eol @ rest) }"

definition shown_depth :: "BookSnapshot \<Rightarrow> bool \<Rightarrow> int" where
  "shown_depth s full_depth = (if full_depth then num_bids s else if 5 < num_bids s then 5 else num_bids s)"

definition print_book_snapshot :: "BookSnapshot \<Rightarrow> bool \<Rightarrow> string option" where
  "print_book_snapshot s full_depth = do {
     sy \<leftarrow> c_string (bs_symbol s);
     rows \<leftarrow> book_rows s 0 (nat (shown_depth s full_depth));
     Some (eol @ sy @ '' Order Book:'' @ eol @
       ''Bids:'' @ tab @ tab @ tab @ ''Asks:'' @ eol @
       ''Price'' @ tab @ ''Size'' @ tab @ tab @ ''Price'' @ tab @ ''Size'' @ eol @
       ''----------------------------------------'' @ eol @ rows @ eol) }"

section \<open>Operations\<close>

definition mon_find :: "MarketMonitor \<Rightarrow> string \<Rightarrow> nat option option" where
  "mon_find m sy = find_symbol (map ms_symbol (take (nat (symbol_count m)) (mon_symbols m))) sy"

definition market_monitor_subscribe ::
  "MarketMonitor option \<Rightarrow> string option \<Rightarrow> (rc \<times> MarketMonitor option) option" where
  "market_monitor_subscribe m' sy' = (case (m', sy') of
     (Some m, Some sy) \<Rightarrow>
       if mon_max_symbols m \<le> symbol_count m then Some (- 1, m')
       else do {
         found \<leftarrow> mon_find m sy;
         (case found of Some i \<Rightarrow> Some (0, m')
          | None \<Rightarrow> do {
              slot \<leftarrow> array_get (mon_symbols m) (symbol_count m);
              ss \<leftarrow> array_set (mon_symbols m) (symbol_count m) (slot\<lparr>ms_symbol := strncpy (ms_symbol slot) sy 15\<rparr>);
              Some (0, Some (m\<lparr>mon_symbols := ss, symbol_count := symbol_count m + 1\<rparr>)) }) }
   | _ \<Rightarrow> Some (- 1, m'))"

definition market_monitor_update_book ::
  "MarketMonitor option \<Rightarrow> BookSnapshot option \<Rightarrow> (rc \<times> MarketMonitor option) option" where
  "market_monitor_update_book m' snapshot' = (case (m', snapshot') of
     (Some m, Some s) \<Rightarrow>
       if symbol_count m \<le> 0 then Some (- 1, m')
       else do {
         sy \<leftarrow> c_string (bs_symbol s);
         found \<leftarrow> mon_find m sy;
         (case found of None \<Rightarrow> Some (- 1, m')
          | Some i \<Rightarrow> Some (0, Some (m\<lparr>mon_symbols := (mon_symbols m)[i := (mon_symbols m ! i)\<lparr>latest_book := s, has_update := True\<rparr>]\<rparr>))) }
   | _ \<Rightarrow> Some (- 1, m'))"

text \<open>The result also has what is printed.\<close>

definition market_monitor_update_trade ::
  "MarketMonitor option \<Rightarrow> TradeMessage option \<Rightarrow> (rc \<times> MarketMonitor option \<times> string) option" where
  "market_monitor_update_trade m' trade' = (case (m', trade') of
     (Some m, Some t) \<Rightarrow>
       if symbol_count m \<le> 0 then Some (- 1, m', [])
       else do {
         sy \<leftarrow> c_string (tm_symbol t);
         found \<leftarrow> mon_find m sy;
         (case found of None \<Rightarrow> Some (- 1, m', [])
          | Some i \<Rightarrow> Some (0, Some (m\<lparr>mon_symbols := (mon_symbols m)[i := (mon_symbols m ! i)\<lparr>latest_trade := t\<rparr>]\<rparr>),
              eol @ ''TRADE: '' @ sy @ '' '' @ show_f2 (tm_price t) @ '' x '' @ show_int (tm_quantity t) @ eol)) }
   | _ \<Rightarrow> Some (- 1, m', []))"

definition clear_screen :: string where
  "clear_screen = CHR 0x1B # ''[2J'' @ CHR 0x1B # ''[H''"

fun display_symbols :: "bool \<Rightarrow> MarketSymbol list \<Rightarrow> string option" where
  "display_symbols full_depth [] = Some []"
| "display_symbols full_depth (x # xs) = do {
     t \<leftarrow> (if has_update x then print_book_snapshot (latest_book x) full_depth else Some []);
     rest \<leftarrow> display_symbols full_depth xs;
     Some (t @ rest) }"

definition market_monitor_display :: "MarketMonitor option \<Rightarrow> string option" where
  "market_monitor_display m' = (case m' of None \<Rightarrow> Some []
     | Some m \<Rightarrow> map_option ((@) clear_screen)
         (display_symbols (display_full_depth m) (take (nat (symbol_count m)) (mon_symbols m))))"

definition market_monitor_clear :: "MarketMonitor option \<Rightarrow> MarketMonitor option \<times> string" where
  "market_monitor_clear m' = (case m' of None \<Rightarrow> (None, [])
     | Some m \<Rightarrow> (Some (m\<lparr>mon_symbols := map (\<lambda>x. x\<lparr>has_update := False\<rparr>) (take (nat (symbol_count m)) (mon_symbols m)) @
          drop (nat (symbol_count m)) (mon_symbols m)\<rparr>), clear_screen))"

section \<open>Invariant and meaning\<close>

definition monitor_ok :: "MarketMonitor \<Rightarrow> bool" where
  "monitor_ok m \<longleftrightarrow> int (length (mon_symbols m)) = mon_max_symbols m \<and> 0 \<le> symbol_count m \<and>
     symbol_count m \<le> mon_max_symbols m \<and>
     (\<forall>i < nat (symbol_count m). c_string (ms_symbol (mon_symbols m ! i)) \<noteq> None) \<and>
     (\<forall>i < length (mon_symbols m). nat (symbol_count m) \<le> i \<longrightarrow> ms_symbol (mon_symbols m ! i) = replicate 16 NUL)"

definition watched :: "MarketMonitor \<Rightarrow> string list" where
  "watched m = map (\<lambda>x. the (c_string (ms_symbol x))) (take (nat (symbol_count m)) (mon_symbols m))"

lemma mon_find_watched:
  assumes "monitor_ok m"
  shows "mon_find m sy = Some (find_index (\<lambda>s. s = sy) (watched m))"
proof -
  have t: "\<forall>b \<in> set (map ms_symbol (take (nat (symbol_count m)) (mon_symbols m))). c_string b \<noteq> None"
    using assms by (fastforce simp: monitor_ok_def in_set_conv_nth)
  have "find_index (\<lambda>b. c_string b = Some sy) (map ms_symbol xs) = find_index (\<lambda>s. s = sy) (map (\<lambda>x. the (c_string (ms_symbol x))) xs)"
    if "\<forall>b \<in> set (map ms_symbol xs). c_string b \<noteq> None" for xs
    using that by (induction xs) auto
  from this [OF t] find_symbol_total [OF t, of sy] show ?thesis by (simp add: mon_find_def watched_def)
qed

lemma watched_index:
  assumes "monitor_ok m" "find_index (\<lambda>s. s = sy) (watched m) = Some i"
  shows "i < nat (symbol_count m)" "i < length (mon_symbols m)" "c_string (ms_symbol (mon_symbols m ! i)) = Some sy"
proof -
  have i: "i < length (watched m)" "watched m ! i = sy" using find_index_SomeD [OF assms(2)] by auto
  then show "i < nat (symbol_count m)" "i < length (mon_symbols m)" by (simp_all add: watched_def)
  with i assms(1) show "c_string (ms_symbol (mon_symbols m ! i)) = Some sy"
    by (auto simp: watched_def monitor_ok_def)
qed

lemma monitor_ok_slot:
  assumes "monitor_ok m" "i < length (mon_symbols m)" "ms_symbol x = ms_symbol (mon_symbols m ! i)"
  shows "monitor_ok (m\<lparr>mon_symbols := (mon_symbols m)[i := x]\<rparr>)" "watched (m\<lparr>mon_symbols := (mon_symbols m)[i := x]\<rparr>) = watched m"
proof -
  show "monitor_ok (m\<lparr>mon_symbols := (mon_symbols m)[i := x]\<rparr>)"
    using assms by (auto simp: monitor_ok_def nth_list_update)
  show "watched (m\<lparr>mon_symbols := (mon_symbols m)[i := x]\<rparr>) = watched m"
    unfolding watched_def using assms(2,3) by (intro list_eq_iff_nth_eq [THEN iffD2]) (simp add: nth_list_update)
qed

lemma subscribe_spec:
  assumes "monitor_ok m" "NUL \<notin> set sy"
  obtains (full) "mon_max_symbols m \<le> symbol_count m" "market_monitor_subscribe (Some m) (Some sy) = Some (- 1, Some m)"
  | (known) "sy \<in> set (watched m)" "market_monitor_subscribe (Some m) (Some sy) = Some (0, Some m)"
  | (added) m1 where "sy \<notin> set (watched m)" "symbol_count m < mon_max_symbols m"
      "market_monitor_subscribe (Some m) (Some sy) = Some (0, Some m1)" "monitor_ok m1"
      "watched m1 = watched m @ [take 15 sy]"
proof -
  let ?n = "nat (symbol_count m)"
  consider (full) "mon_max_symbols m \<le> symbol_count m" | (known) "symbol_count m < mon_max_symbols m" "sy \<in> set (watched m)"
    | (new) "symbol_count m < mon_max_symbols m" "sy \<notin> set (watched m)" by linarith
  then show ?thesis
  proof cases
    case full
    then show ?thesis using that(1) by (simp add: market_monitor_subscribe_def)
  next
    case known
    then obtain i where "find_index (\<lambda>s. s = sy) (watched m) = Some i"
      by (metis (mono_tags, lifting) find_index_None not_Some_eq)
    with known mon_find_watched [OF assms(1), of sy] that(2) show ?thesis
      by (simp add: market_monitor_subscribe_def)
  next
    case new
    have "find_index (\<lambda>s. s = sy) (watched m) = None" using new(2) by auto
    then have none: "mon_find m sy = Some None" using mon_find_watched [OF assms(1), of sy] by metis
    have n: "0 \<le> symbol_count m" "?n < length (mon_symbols m)" "symbol_count m < int (length (mon_symbols m))"
      using assms(1) new(1) by (auto simp: monitor_ok_def)
    have z: "ms_symbol (mon_symbols m ! ?n) = replicate 16 NUL" using assms(1) n by (simp add: monitor_ok_def)
    have c: "c_string (strncpy (replicate 16 NUL) sy 15) = Some (take 15 sy)"
      using c_string_strncpy [OF assms(2), of 15 "replicate 16 NUL"] by simp
    define m1 where "m1 = m\<lparr>mon_symbols := (mon_symbols m)[?n := (mon_symbols m ! ?n)\<lparr>ms_symbol := strncpy (replicate 16 NUL) sy 15\<rparr>],
      symbol_count := symbol_count m + 1\<rparr>"
    have s: "nat (symbol_count m + 1) = Suc ?n" using n(1) by simp
    have "market_monitor_subscribe (Some m) (Some sy) = Some (0, Some m1)"
      using none new(1) n z by (simp add: market_monitor_subscribe_def m1_def)
    moreover have "monitor_ok m1"
      using assms(1) new(1) n c s by (auto simp: monitor_ok_def m1_def nth_list_update less_Suc_eq)
    moreover have "watched m1 = watched m @ [take 15 sy]"
      using n c s by (simp add: watched_def m1_def take_Suc_conv_app_nth)
    ultimately show ?thesis using that(3) new by blast
  qed
qed

text \<open>A book update of a watched symbol is stored with the first entry of that symbol; others are refused.\<close>

lemma update_book_watched:
  assumes "monitor_ok m" "c_string (bs_symbol s) = Some sy"
  shows "\<exists>m1. market_monitor_update_book (Some m) (Some s) = Some (if sy \<in> set (watched m) then 0 else - 1, Some m1) \<and>
    monitor_ok m1 \<and> watched m1 = watched m \<and>
    (sy \<in> set (watched m) \<longrightarrow> (\<exists>i < nat (symbol_count m). watched m ! i = sy \<and>
       latest_book (mon_symbols m1 ! i) = s \<and> has_update (mon_symbols m1 ! i))) \<and>
    (sy \<notin> set (watched m) \<longrightarrow> m1 = m)"
proof (cases "sy \<in> set (watched m)")
  case False
  have "find_index (\<lambda>s. s = sy) (watched m) = None" using False by auto
  then have "mon_find m sy = Some None" using mon_find_watched [OF assms(1), of sy] by metis
  with False assms show ?thesis by (simp add: market_monitor_update_book_def)
next
  case True
  then obtain i where i: "find_index (\<lambda>s. s = sy) (watched m) = Some i"
    by (metis (mono_tags, lifting) find_index_None not_Some_eq)
  note w = watched_index [OF assms(1) i]
  let ?x = "(mon_symbols m ! i)\<lparr>latest_book := s, has_update := True\<rparr>"
  have "mon_find m sy = Some (Some i)" using mon_find_watched [OF assms(1)] i by simp
  then have "market_monitor_update_book (Some m) (Some s) = Some (0, Some (m\<lparr>mon_symbols := (mon_symbols m)[i := ?x]\<rparr>))"
    using assms(2) w(1) by (simp add: market_monitor_update_book_def)
  moreover have "watched m ! i = sy" using find_index_SomeD [OF i] by simp
  ultimately show ?thesis
    using True w monitor_ok_slot [OF assms(1) w(2), of ?x] by (auto simp: nth_list_update)
qed

section \<open>Runs\<close>

inductive monitor_step :: "MarketMonitor \<Rightarrow> MarketMonitor \<Rightarrow> bool" where
  subscribe: "NUL \<notin> set sy \<Longrightarrow> market_monitor_subscribe (Some m) (Some sy) = Some (r, Some m') \<Longrightarrow> monitor_step m m'"
| book: "market_monitor_update_book (Some m) (Some s) = Some (r, Some m') \<Longrightarrow> monitor_step m m'"
| trade: "market_monitor_update_trade (Some m) (Some t) = Some (r, Some m', text) \<Longrightarrow> monitor_step m m'"
| clear: "market_monitor_clear (Some m) = (Some m', text) \<Longrightarrow> monitor_step m m'"

definition monitor_init :: "MarketMonitor \<Rightarrow> bool" where
  "monitor_init m \<longleftrightarrow> (\<exists>c. market_monitor_create True True c = Some m)"

lemma monitor_subscribe_ok:
  assumes "monitor_ok m" "NUL \<notin> set sy" "market_monitor_subscribe (Some m) (Some sy) = Some (r, Some m')"
  shows "monitor_ok m'"
  using subscribe_spec [OF assms(1,2)] assms(1,3) by (metis option.inject prod.inject)

lemma found_slot_ok:
  assumes "monitor_ok m" "mon_find m sy = Some (Some i)" "ms_symbol x = ms_symbol (mon_symbols m ! i)"
  shows "monitor_ok (m\<lparr>mon_symbols := (mon_symbols m)[i := x]\<rparr>)"
proof -
  have "find_index (\<lambda>s. s = sy) (watched m) = Some i" using assms(2) mon_find_watched [OF assms(1), of sy] by simp
  then show ?thesis using monitor_ok_slot(1) [OF assms(1) _ assms(3)] watched_index(2) [OF assms(1)] by blast
qed

lemma update_book_ok:
  "monitor_ok m \<Longrightarrow> market_monitor_update_book (Some m) (Some s) = Some (r, Some m') \<Longrightarrow> monitor_ok m'"
  using found_slot_ok
  by (auto simp: market_monitor_update_book_def split: if_splits option.splits bind_splits)

lemma update_trade_ok:
  "monitor_ok m \<Longrightarrow> market_monitor_update_trade (Some m) (Some t) = Some (r, Some m', text) \<Longrightarrow> monitor_ok m'"
  using found_slot_ok
  by (auto simp: market_monitor_update_trade_def split: if_splits option.splits bind_splits)

lemma clear_ok: "monitor_ok m \<Longrightarrow> market_monitor_clear (Some m) = (Some m', text) \<Longrightarrow> monitor_ok m'"
  by (auto simp: market_monitor_clear_def monitor_ok_def nth_append)

inductive_cases monitor_stepE: "monitor_step m m'"

interpretation monitor_machine: invariant_machine monitor_init monitor_step monitor_ok
proof unfold_locales
  show "monitor_ok m" if "monitor_init m" for m
    using that by (auto simp: monitor_init_def market_monitor_create_def monitor_ok_def zero_symbol_def split: if_splits)
  show "monitor_ok m'" if "monitor_ok m" "monitor_step m m'" for m m'
    using that(2) monitor_subscribe_ok [OF that(1)] update_book_ok [OF that(1)] update_trade_ok [OF that(1)] clear_ok [OF that(1)]
    by (elim monitor_stepE) blast+
qed

section \<open>What is shown\<close>

text \<open>The rows depend on the asks only up to the number of rows, which is that of the bids.\<close>

lemma book_rows_cong:
  assumes "bid_prices s = bid_prices s'" "bid_quantities s = bid_quantities s'"
    and "\<forall>j. j < i + int k \<longrightarrow> (j < num_asks s \<longleftrightarrow> j < num_asks s') \<and>
      level_text (array (ask_prices s)) (array (ask_quantities s)) j = level_text (array (ask_prices s')) (array (ask_quantities s')) j"
  shows "book_rows s i k = book_rows s' i k"
  using assms(3)
proof (induction k arbitrary: i)
  case (Suc k)
  have "book_rows s (i + 1) k = book_rows s' (i + 1) k" by (rule Suc.IH) (use Suc.prems in \<open>simp add: algebra_simps\<close>)
  moreover have "i < num_asks s \<longleftrightarrow> i < num_asks s'"
    "level_text (array (ask_prices s)) (array (ask_quantities s)) i = level_text (array (ask_prices s')) (array (ask_quantities s')) i"
    using Suc.prems by simp_all
  ultimately show ?case using assms(1,2) by simp
qed simp

lemma book_rows_total:
  assumes "levels_ok (num_bids s) (bid_levels s)" "levels_ok (num_asks s) (ask_levels s)"
    and "0 \<le> i" "i + int k \<le> num_bids s"
  shows "\<exists>t. book_rows s i k = Some t \<and> length (filter (\<lambda>c. c = CHR 0x0A) t) \<ge> k"
  using assms(3,4)
proof (induction k arbitrary: i)
  case (Suc k)
  have "num_bids s \<le> int (length (array (bid_prices s)))" "num_bids s \<le> int (length (array (bid_quantities s)))"
    "num_asks s \<le> int (length (array (ask_prices s)))" "num_asks s \<le> int (length (array (ask_quantities s)))"
    using assms(1,2) by (simp_all add: levels_ok_def bid_levels_def ask_levels_def min_def split: if_splits)
  moreover obtain t where "book_rows s (i + 1) k = Some t" "k \<le> length (filter (\<lambda>c. c = CHR 0x0A) t)"
    using Suc.IH [of "i + 1"] Suc.prems by auto
  ultimately show ?case using Suc.prems by (auto simp: level_text_def eol_def)
qed simp

end
