(* ===== verification/Client_App.thy ===== *)
theory Client_App
  imports Ws_Client Trade_History Order_Entry Market_Monitor
begin

text \<open>
  \<open>src/client/client_app.c\<close>: what the client does with a command, with a message of the server and with a
  signal, and how its main function sets up the components. The static variables of the file are one
  record. Printing is a text. A result of \<open>None\<close> is a fault: a NULL dereference (also a NULL passed for
  \<open>%s\<close>), a string without a terminator, a cast out of range.
\<close>

section \<open>State\<close>

record ClientApp =
  app_running :: bool
  cmd_line :: "CommandLine option"
  app_client :: "WSConnection option"
  order_entry :: "OrderEntry option"
  trade_history :: "TradeHistory option"
  market_monitor :: "MarketMonitor option"
  is_view_requested :: bool

section \<open>Signals and commands\<close>

text \<open>Stopping the command line and disconnecting, which ends the process if the client is running.\<close>

definition stop_components :: "ClientApp \<Rightarrow> ClientApp \<times> wc_event list" where
  "stop_components app =
     (let (joined, cl) = command_line_stop (cmd_line app); (c, es) = ws_client_disconnect (app_client app) in
      (app\<lparr>app_running := False, cmd_line := cl, app_client := c\<rparr>, (if joined then [JoinThread] else []) @ es))"

definition handle_signal :: "ClientApp \<Rightarrow> ClientApp \<times> wc_event list" where
  "handle_signal app = stop_components app"

text \<open>
  \<open>user\<close> says whether the user pointer is the client (it is NULL otherwise); the result has the frames
  handed to \<open>lws_write\<close>.
\<close>

definition handle_command ::
  "'j cJSON \<Rightarrow> int \<Rightarrow> bool \<Rightarrow> int \<Rightarrow> Command \<Rightarrow> bool \<Rightarrow> ClientApp \<Rightarrow> ClientApp \<times> wc_event list \<times> (addr option \<times> string) list" where
  "handle_command J pid malloc_ok written cmd user app =
     (if cmd_type cmd = CMD_QUIT then
        (let (app1, es) = stop_components app in (app1, es @ [ExitProcess], []))
      else
        let app1 = (if cmd_type cmd = CMD_VIEW then app\<lparr>is_view_requested := True\<rparr> else app);
            client = (if user then app_client app1 else None) in
        if \<not> ws_client_is_connected client then (app1, [], [])
        else (case format_command_as_json J cmd (snprintf 32 (''TRADER'' @ show_int pid)) of
           None \<Rightarrow> (app1, [], [])
         | Some t \<Rightarrow> (app1, [], snd (ws_client_send malloc_ok written client (Some t) (length t)))))"

section \<open>Messages\<close>

definition prompt :: string where
  "prompt = lf @ ''trading> ''"

text \<open>\<open>%8.2f\<close> and \<open>%8d\<close>.\<close>

definition pad8 :: "string \<Rightarrow> string" where
  "pad8 s = replicate (8 - length s) (CHR '' '') @ s"

text \<open>The string of an item that is dereferenced without a test.\<close>

definition deref_string :: "'j cJSON \<Rightarrow> 'j option \<Rightarrow> string option" where
  "deref_string J item = do { i \<leftarrow> item; valuestring J i }"

definition accepted_output :: "string \<Rightarrow> string \<Rightarrow> string \<Rightarrow> double \<Rightarrow> int \<Rightarrow> string" where
  "accepted_output oid sy ty p q = lf @ ''=== Order Successfully Placed ==='' @ lf @
     ''  Order ID: '' @ oid @ lf @ ''  Symbol:   '' @ sy @ lf @ ''  Side:     '' @ ty @ lf @
     ''  Price:    $'' @ show_f2 p @ lf @ ''  Quantity: '' @ show_int q @ lf @
     ''==============================='' @ lf @ prompt"

definition handle_accepted :: "'j cJSON \<Rightarrow> 'j \<Rightarrow> string option" where
  "handle_accepted J node = (case cJSON_GetObjectItem J (Some node) ''Trade Details'' of
     None \<Rightarrow> Some []
   | Some d \<Rightarrow>
       if \<not> cJSON_IsObject J (Some d) then Some []
       else (case (cJSON_GetObjectItem J (Some d) ''Order ID'', cJSON_GetObjectItem J (Some d) ''Symbol'',
                   cJSON_GetObjectItem J (Some d) ''Price'', cJSON_GetObjectItem J (Some d) ''Quantity'',
                   cJSON_GetObjectItem J (Some d) ''Type'') of
          (Some i, Some s, Some p, Some q, Some t) \<Rightarrow>
            if \<not> cJSON_IsString J (Some i) \<or> \<not> cJSON_IsString J (Some s) \<or> \<not> cJSON_IsNumber J (Some p) \<or>
               \<not> cJSON_IsNumber J (Some q) \<or> \<not> cJSON_IsString J (Some t) then Some []
            else do {
              oid \<leftarrow> valuestring J i; sy \<leftarrow> valuestring J s; ty \<leftarrow> valuestring J t;
              Some (accepted_output oid sy ty (valuedouble J p) (valueint J q)) }
        | _ \<Rightarrow> Some []))"

definition handle_rejected :: "'j cJSON \<Rightarrow> 'j \<Rightarrow> string option" where
  "handle_rejected J node = do {
     oid \<leftarrow> deref_string J (cJSON_GetObjectItem J (Some node) ''order_id'');
     reason \<leftarrow> deref_string J (cJSON_GetObjectItem J (Some node) ''reason'');
     Some (lf @ ''=== Order Rejected ==='' @ lf @ ''  Order ID: '' @ oid @ lf @ ''  Reason:   '' @ reason @ lf @
       ''==================='' @ lf @ prompt) }"

text \<open>\<open>stack\<close> is the content of the uninitialised struct.\<close>

definition handle_trade ::
  "'j cJSON \<Rightarrow> TradeMessage \<Rightarrow> bool \<Rightarrow> string \<Rightarrow> ClientApp \<Rightarrow> (ClientApp \<times> string) option" where
  "handle_trade J stack calloc_ok message app = do {
     (ok, t') \<leftarrow> parse_trade_message J (Some message) (Some stack);
     if \<not> ok then Some (app, [])
     else do {
       t \<leftarrow> t';
       (r1, h) \<leftarrow> trade_history_add_trade calloc_ok (trade_history app) (Some t);
       (r2, m, out) \<leftarrow> market_monitor_update_trade (market_monitor app) (Some t);
       sy \<leftarrow> c_string (tm_symbol t);
       bid \<leftarrow> c_string (tm_buy_order_id t);
       sid \<leftarrow> c_string (tm_sell_order_id t);
       Some (app\<lparr>trade_history := h, market_monitor := m\<rparr>, out @
         lf @ ''=== Trade Executed ==='' @ lf @ ''  Symbol:    '' @ sy @ lf @ ''  Price:     $'' @ show_f2 (tm_price t) @ lf @
         ''  Quantity:  '' @ show_int (tm_quantity t) @ lf @ ''  Buy ID:    '' @ bid @ lf @ ''  Sell ID:   '' @ sid @ lf @
         ''==================='' @ lf @ prompt) } }"

text \<open>The level at an index of one side: price and quantity.\<close>

definition view_level :: "'j cJSON \<Rightarrow> 'j option \<Rightarrow> int \<Rightarrow> (double \<times> int) option" where
  "view_level J arr i = do {
     p \<leftarrow> cJSON_GetObjectItem J (cJSON_GetArrayItem J arr i) ''price'';
     q \<leftarrow> cJSON_GetObjectItem J (cJSON_GetArrayItem J arr i) ''quantity'';
     Some (valuedouble J p, valueint J q) }"

definition bid_cell :: "(double \<times> int) option \<Rightarrow> string" where
  "bid_cell l = (case l of Some (p, q) \<Rightarrow> pad8 (show_f2 p) @ ''  '' @ pad8 (show_int q) @ ''  |''
     | None \<Rightarrow> ''                   |'')"

definition ask_cell :: "(double \<times> int) option \<Rightarrow> string" where
  "ask_cell l = (case l of Some (p, q) \<Rightarrow> ''  '' @ pad8 (show_f2 p) @ ''  '' @ pad8 (show_int q) | None \<Rightarrow> [])"

text \<open>Rows \<open>i\<close> to \<open>i + k - 1\<close>: the bids from the end of their array, the asks from its start.\<close>

fun view_rows :: "'j cJSON \<Rightarrow> 'j option \<Rightarrow> 'j option \<Rightarrow> int \<Rightarrow> int \<Rightarrow> int \<Rightarrow> nat \<Rightarrow> string option" where
  "view_rows J bids asks nb na i 0 = Some []"
| "view_rows J bids asks nb na i (Suc k) = do {
     b \<leftarrow> (if i < nb then map_option Some (view_level J bids (nb - 1 - i)) else Some None);
     a \<leftarrow> (if i < na then map_option Some (view_level J asks i) else Some None);
     rest \<leftarrow> view_rows J bids asks nb na (i + 1) k;
     Some (bid_cell b @ ask_cell a @ lf @ rest) }"

definition view_header :: "string \<Rightarrow> string" where
  "view_header sy = lf @ ''=== Order Book: '' @ sy @ '' ==='' @ lf @
     ''----------------------------------------'' @ lf @
     ''      BIDS          |        ASKS       '' @ lf @
     ''  Price    Volume   |   Price    Volume '' @ lf @
     ''----------------------------------------'' @ lf"

definition view_footer :: "bool \<Rightarrow> string" where
  "view_footer no_levels = ''----------------------------------------'' @ lf @
     (if no_levels then ''        (Empty Order Book)             '' @ lf else []) @ prompt"

definition handle_snapshot :: "'j cJSON \<Rightarrow> 'j \<Rightarrow> ClientApp \<Rightarrow> (ClientApp \<times> string) option" where
  "handle_snapshot J node app =
     (if \<not> is_view_requested app then Some (app, [])
      else do {
        si \<leftarrow> cJSON_GetObjectItem J (Some node) ''symbol'';
        let bids = cJSON_GetObjectItem J (Some node) ''bids'';
        let asks = cJSON_GetObjectItem J (Some node) ''asks'';
        if bids = None \<or> asks = None then Some (app, [])
        else do {
          sy \<leftarrow> valuestring J si;
          let nb = cJSON_GetArraySize J bids;
          let na = cJSON_GetArraySize J asks;
          rows \<leftarrow> view_rows J bids asks nb na 0 (nat (if na < nb then nb else na));
          Some (app\<lparr>is_view_requested := False\<rparr>, view_header sy @ rows @ view_footer (nb = 0 \<and> na = 0)) } })"

definition handle_status :: "'j cJSON \<Rightarrow> 'j \<Rightarrow> string option" where
  "handle_status J node = do {
     status \<leftarrow> deref_string J (cJSON_GetObjectItem J (Some node) ''status'');
     Some (lf @ ''Server Status: '' @ status @ lf @ prompt) }"

text \<open>
  \<open>inp\<close> is the memory at the pointer \<open>message\<close>, which the callback of \<open>ws_client.c\<close> passes on as it got it from
  libwebsockets: the bytes of the frame and what lies behind them. The JSON functions read it as a string, so
  that the result is a fault when there is no NUL in that memory.
\<close>

definition handle_message ::
  "'j cJSON \<Rightarrow> TradeMessage \<Rightarrow> bool \<Rightarrow> char list \<Rightarrow> ClientApp \<Rightarrow> (ClientApp \<times> string) option" where
  "handle_message J stack calloc_ok inp app = do {
     message \<leftarrow> c_string inp;
     (case parse_base_message J (Some message) of
       None \<Rightarrow> Some (app, [])
     | Some msg_type \<Rightarrow> (case cJSON_Parse J message of None \<Rightarrow> Some (app, [])
       | Some node \<Rightarrow>
           if msg_type = MSG_ORDER_ACCEPTED then map_option (Pair app) (handle_accepted J node)
           else if msg_type = MSG_ORDER_REJECTED then map_option (Pair app) (handle_rejected J node)
           else if msg_type = MSG_TRADE_EXECUTED then handle_trade J stack calloc_ok message app
           else if msg_type = MSG_BOOK_SNAPSHOT then handle_snapshot J node app
           else if msg_type = MSG_SERVER_STATUS then map_option (Pair app) (handle_status J node)
           else Some (app, []))) }"

section \<open>The main function\<close>

definition ws_config :: WSClientConfig where
  "ws_config = \<lparr>server_host = ''localhost'', server_port = 8080, reconnect_interval_ms = 5000, wc_ping_interval_ms = 30000\<rparr>"

definition order_config :: OrderEntryConfig where
  "order_config = \<lparr>oc_trader_id = ''TRADER1'', oc_max_orders = 1000, oc_max_notional = Fin 10000000\<rparr>"

definition history_config :: TradeHistoryConfig where
  "history_config = \<lparr>hc_max_trades = 1000, hc_record_all_trades = True\<rparr>"

definition monitor_config :: MarketMonitorConfig where
  "monitor_config = \<lparr>mm_max_symbols = 100, mm_update_interval_ms = 1000, mm_display_full_depth = False\<rparr>"

text \<open>What the setup meets: allocations, libwebsockets, threads, and the addresses of the callbacks.\<close>

record client_env =
  ce_client_mem :: bool
  ce_host_dup :: bool
  ce_lws :: "addr option"
  ce_cmd_mem :: bool
  ce_entry_mem :: bool
  ce_id_dup :: bool
  ce_history_mem :: bool
  ce_monitor_mem :: "bool \<times> bool"
  ce_service_thread :: bool
  ce_conn :: "addr option"
  ce_input_thread :: bool
  fn_connect :: addr
  fn_disconnect :: addr
  fn_message :: addr
  fn_command :: addr
  ce_client_addr :: addr

datatype client_start = ExitFailure | Cleanup ClientApp | Started ClientApp

definition client_main :: "client_env \<Rightarrow> client_start" where
  "client_main env = (case ws_client_create (ce_client_mem env) (ce_host_dup env) (ce_lws env) ws_config of
     None \<Rightarrow> ExitFailure
   | Some c \<Rightarrow> (case command_line_create (ce_cmd_mem env) of None \<Rightarrow> ExitFailure
   | Some cl \<Rightarrow>
       let oe = order_entry_create (ce_entry_mem env) (ce_id_dup env) order_config;
           th = trade_history_create (ce_history_mem env) history_config;
           mm = market_monitor_create (fst (ce_monitor_mem env)) (snd (ce_monitor_mem env)) monitor_config;
           c1 = ws_client_set_connect_callback (Some c) (Some (fn_connect env)) None;
           c2 = ws_client_set_disconnect_callback c1 (Some (fn_disconnect env)) None;
           c3 = ws_client_set_message_callback c2 (Some (fn_message env)) None;
           cl1 = command_line_set_callback (Some cl) (Some (fn_command env)) (Some (ce_client_addr env));
           (r1, c4, es) = ws_client_connect (ce_service_thread env) (ce_conn env) c3;
           app = \<lparr>app_running = True, cmd_line = cl1, app_client = c4, order_entry = oe, trade_history = th,
                  market_monitor = mm, is_view_requested = False\<rparr>
       in if r1 \<noteq> 0 then Cleanup app
          else (case command_line_start (ce_input_thread env) cl1 of (r2, cl2) \<Rightarrow>
            if r2 \<noteq> 0 then Cleanup (app\<lparr>cmd_line := cl2\<rparr>) else Started (app\<lparr>cmd_line := cl2\<rparr>))))"

section \<open>Viewing a book\<close>

text \<open>The table for the levels of both sides, best first.\<close>

definition nth_level :: "(double \<times> int) list \<Rightarrow> nat \<Rightarrow> (double \<times> int) option" where
  "nth_level xs i = (if i < length xs then Some (xs ! i) else None)"

definition view_table :: "(double \<times> int) list \<Rightarrow> (double \<times> int) list \<Rightarrow> string" where
  "view_table best_bids best_asks = concat (map (\<lambda>i. bid_cell (nth_level best_bids i) @ ask_cell (nth_level best_asks i) @ lf)
     [0..<max (length best_bids) (length best_asks)])"

definition level_list :: "double list \<times> int list \<Rightarrow> (double \<times> int) list" where
  "level_list lv = zip (fst lv) (snd lv)"

context cjson_nodes
begin

lemma view_level_nth:
  assumes "view a = level_json lv" "levels_fit n lv" "0 \<le> i" "i < n"
  shows "view_level J (Some a) i = Some (level_list lv ! nat i)"
proof -
  have l: "length (fst lv) = nat n" "length (snd lv) = nat n" "\<forall>q \<in> set (snd lv). fits 32 q" "nat i < nat n"
    using assms(2-4) by (auto simp: levels_fit_def list_all_iff)
  let ?p = "fst lv ! nat i" and ?q = "snd lv ! nat i"
  have "map_option view (cJSON_GetArrayItem J (Some a) (int (nat i))) = Some (JObj [(''price'', JNum ?p), (''quantity'', JNum (Fin (of_int ?q)))])"
    using array_item [OF assms(1) [unfolded level_json_def], of "nat i"] l by simp
  then obtain it where it: "cJSON_GetArrayItem J (Some a) i = Some it" "view it = JObj [(''price'', JNum ?p), (''quantity'', JNum (Fin (of_int ?q)))]"
    using assms(3) by auto
  obtain pr where pr: "cJSON_GetObjectItem J (Some it) ''price'' = Some pr" "view pr = JNum ?p"
    by (rule get_item_Some [of it "''price''"]) (auto simp: it(2))
  obtain qi where qi: "cJSON_GetObjectItem J (Some it) ''quantity'' = Some qi" "view qi = JNum (Fin (of_int ?q))"
    by (rule get_item_Some [of it "''quantity''"]) (auto simp: it(2) strcaseeq_def tolower_def isupper_def code_def)
  have "fits 32 ?q" using l by simp
  with it pr qi l show ?thesis by (simp add: view_level_def level_list_def double_value int_value)
qed

lemma view_rows_table:
  assumes b: "view b = level_json bl" "levels_fit nb bl" and a: "view a = level_json al" "levels_fit na al" and "0 \<le> i"
  shows "view_rows J (Some b) (Some a) nb na i k = Some (concat (map (\<lambda>j. bid_cell (nth_level (rev (level_list bl)) j) @
    ask_cell (nth_level (level_list al) j) @ lf) [nat i..<nat i + k]))"
  using \<open>0 \<le> i\<close>
proof (induction k arbitrary: i)
  case (Suc k)
  have lb: "length (level_list bl) = nb" and la: "length (level_list al) = na"
    using b(2) a(2) by (auto simp: levels_fit_def level_list_def)
  have B: "(if i < nb then map_option Some (view_level J (Some b) (nb - 1 - i)) else Some None) =
      Some (nth_level (rev (level_list bl)) (nat i))"
  proof (cases "i < nb")
    case True
    have "nat (nb - 1 - i) = length (level_list bl) - Suc (nat i)" using lb Suc.prems True by linarith
    with True Suc.prems view_level_nth [OF b, of "nb - 1 - i"] lb show ?thesis
      by (simp add: nth_level_def rev_nth nat_less_iff)
  qed (use lb Suc.prems in \<open>simp add: nth_level_def\<close>)
  have A: "(if i < na then map_option Some (view_level J (Some a) i) else Some None) = Some (nth_level (level_list al) (nat i))"
    using view_level_nth [OF a Suc.prems] la Suc.prems by (auto simp: nth_level_def)
  have u: "[nat i..<nat i + Suc k] = nat i # [nat (i + 1)..<nat (i + 1) + k]"
    using Suc.prems by (simp add: upt_conv_Cons nat_add_distrib del: upt_Suc)
  show ?case
    unfolding view_rows.simps B A u using Suc.IH [of "i + 1"] Suc.prems by simp
qed simp

text \<open>A message of the type of a rejection without an \<open>order_id\<close> makes the client dereference NULL.\<close>

lemma rejected_without_id:
  assumes "cJSON_Parse J t = Some j" "json_get (view j) ''type'' = Some (JNum (Fin 102))" "json_get (view j) ''order_id'' = None" "NUL \<notin> set t"
  shows "handle_message J stack m (t @ NUL # behind) app = None"
proof -
  have "parse_base_message J (Some t) = Some 102"
    using parse_base_message_typed [OF assms(1), of 102] assms(2) by (simp add: fits_def)
  with get_item_None [OF assms(3)] assms(1) c_string_append [OF assms(4), of "NUL # behind"] show ?thesis
    by (simp add: handle_message_def handle_rejected_def deref_string_def msg_types)
qed

end

context cjson_api
begin

lemma snapshot_viewed:
  assumes "snapshot_ok s" "c_string (bs_symbol s) = Some sy" "is_view_requested app"
  shows "\<exists>t. serialize_book_snapshot J (Some s) = Some (Some t) \<and>
    handle_message J stack m (t @ NUL # behind) app = Some (app\<lparr>is_view_requested := False\<rparr>,
      view_header sy @ view_table (rev (level_list (reread_levels reread (bid_levels s)))) (level_list (reread_levels reread (ask_levels s))) @
      view_footer (num_bids s = 0 \<and> num_asks s = 0))"
proof -
  let ?B = "reread_levels reread (bid_levels s)" and ?A = "reread_levels reread (ask_levels s)"
  obtain t j where tj: "serialize_book_snapshot J (Some s) = Some (Some t)" "cJSON_Parse J t = Some j"
    "view j = JObj [(''symbol'', JStr sy), (''bids'', level_json ?B), (''asks'', level_json ?A)]" "NUL \<notin> set t"
    by (rule snapshot_text [OF assms(1,2)])
  note cmp = strcaseeq_def tolower_def isupper_def code_def
  obtain si where si: "cJSON_GetObjectItem J (Some j) ''symbol'' = Some si" "view si = JStr sy"
    by (rule get_item_Some [of j "''symbol''"]) (auto simp: tj(3))
  obtain b where b: "cJSON_GetObjectItem J (Some j) ''bids'' = Some b" "view b = level_json ?B"
    by (rule get_item_Some [of j "''bids''"]) (auto simp: tj(3) cmp)
  obtain a where a: "cJSON_GetObjectItem J (Some j) ''asks'' = Some a" "view a = level_json ?A"
    by (rule get_item_Some [of j "''asks''"]) (auto simp: tj(3) cmp)
  have ty: "cJSON_GetObjectItem J (Some j) ''type'' = None" by (rule get_item_None) (simp add: tj(3) cmp)
  have ok: "levels_fit (num_bids s) ?B" "levels_fit (num_asks s) ?A"
    using assms(1) levels_fit_reread by (simp_all add: snapshot_ok_def)
  have sz: "cJSON_GetArraySize J (Some b) = num_bids s" "cJSON_GetArraySize J (Some a) = num_asks s"
    using array_size [OF b(2) [unfolded level_json_def]] array_size [OF a(2) [unfolded level_json_def]] ok
    by (simp_all add: levels_fit_def)
  have len: "int (length (level_list ?B)) = num_bids s" "int (length (level_list ?A)) = num_asks s"
    using ok by (auto simp: levels_fit_def level_list_def)
  have k: "nat (if num_asks s < num_bids s then num_bids s else num_asks s) =
      max (length (rev (level_list ?B))) (length (level_list ?A))"
    using len by (simp split: if_split) linarith
  have rows: "view_rows J (Some b) (Some a) (num_bids s) (num_asks s) 0 (nat (if num_asks s < num_bids s then num_bids s else num_asks s)) =
      Some (view_table (rev (level_list ?B)) (level_list ?A))"
    unfolding view_rows_table [OF b(2) ok(1) a(2) ok(2) order_refl] k view_table_def by simp
  have "handle_snapshot J j app = Some (app\<lparr>is_view_requested := False\<rparr>,
      view_header sy @ view_table (rev (level_list ?B)) (level_list ?A) @
      view_footer (num_bids s = 0 \<and> num_asks s = 0))"
    using si b(1) a(1) sz rows assms(3) by (simp add: handle_snapshot_def string_value del: if_split)
  moreover have "handle_message J stack m (t @ NUL # behind) app = handle_snapshot J j app"
    using c_string_append [OF tj(4), of "NUL # behind"] tj(2) ty si(1) b(1) a(1) by (simp add: handle_message_def parse_base_message_def msg_types)
  ultimately show ?thesis using tj(1) by auto
qed

end

end
