(* ===== verification/End_To_End.thy ===== *)
theory End_To_End
  imports Handler_Facts Server_App Client_App
begin

text \<open>
  Client and server together: a line typed at the client, the message it becomes, its way through the
  server's ring to a worker, and what the client makes of the answer. Nothing is modelled anew; the
  functions of the components are composed in the order in which the program calls them.
\<close>

section \<open>Through the ring\<close>

text \<open>A message that finds the ring empty is the next one a worker takes, and the rest of the handlers is as it was.\<close>

lemma message_through_ring:
  assumes "ring_ok h" "ring_contents h = []" "2 \<le> queue_size h"
  obtains h1 h2 where "server_handlers_process_message (Some a) heap (Some h) client (Some t) = Some (0, heap(a \<mapsto> t), Some h1)"
    "dequeue_message h1 = Some (Got (Some a) client, h2)"
    "books h2 = books h" "symbols h2 = symbols h" "book_count h2 = book_count h" "sh_trade_broadcaster h2 = sh_trade_broadcaster h"
proof -
  let ?n = "queue_size h" and ?t = "nat (queue_tail h)"
  have b: "running h" "length (message_queue h) = nat ?n" "length (client_queue h) = nat ?n" "0 \<le> queue_tail h" "queue_tail h < ?n"
    using assms(1) by (auto simp: ring_ok_def)
  have e: "queue_head h = queue_tail h"
    using ring_facts(1,5) [OF assms(1)] assms(2) by (simp add: ring_contents_def ring_used_def)
  have ne: "(queue_tail h + 1) mod ?n \<noteq> queue_tail h"
    using b(4,5) assms(3) by (cases "queue_tail h + 1 = ?n") auto
  define h1 where "h1 = h\<lparr>message_queue := (message_queue h)[?t := Some a], client_queue := (client_queue h)[?t := client],
    queue_tail := (queue_tail h + 1) mod ?n\<rparr>"
  show ?thesis
  proof (rule that)
    show "server_handlers_process_message (Some a) heap (Some h) client (Some t) = Some (0, heap(a \<mapsto> t), Some h1)"
      using b assms(3) e ne by (simp add: server_handlers_process_message_def h1_def)
    show "dequeue_message h1 = Some (Got (Some a) client, h1\<lparr>queue_head := (queue_head h + 1) mod ?n\<rparr>)"
      using b assms(3) e ne by (simp add: dequeue_message_def h1_def)
  qed (simp_all add: h1_def)
qed

lemma worker_round_got:
  assumes "dequeue_message h1 = Some (Got (Some a) client, h2)" "dispatch_message env J h2 st client t = Some out" "heap a = None"
  shows "worker_round env J (heap(a \<mapsto> t)) h1 st = Some (heap, out)"
  using assms by (auto simp: worker_round_def free_msg_def)

lemma handlers_ok_cong:
  assumes "books h2 = books h" "symbols h2 = symbols h" "book_count h2 = book_count h"
  shows "handlers_ok st h2 \<longleftrightarrow> handlers_ok st h" "find_book h2 sy = find_book h sy"
  using assms by (simp_all add: handlers_ok_def find_book_def)

text \<open>The book that \<open>find_or_create\<close> yields: the one in the table, or a new one at its end.\<close>

definition book_before :: "ServerHandlers \<Rightarrow> string \<Rightarrow> nat \<Rightarrow> OrderBook \<Rightarrow> bool" where
  "book_before h sy i b \<longleftrightarrow> (case find_book h sy of
     Some (Some j) \<Rightarrow> i = j \<and> books h ! j = Some b
   | _ \<Rightarrow> i = nat (book_count h) \<and> order_book_create True True True (sh_trade_broadcaster h) = Some b)"

lemma book_before_cong:
  assumes "books h2 = books h" "symbols h2 = symbols h" "book_count h2 = book_count h" "sh_trade_broadcaster h2 = sh_trade_broadcaster h"
  shows "book_before h2 sy i b \<longleftrightarrow> book_before h sy i b"
  unfolding book_before_def handlers_ok_cong(2) [OF assms(1-3)] assms ..

lemma find_or_create_before:
  assumes "handlers_ok st h" "find_or_create (True, True, True) h sy = Some (h1, Some i)"
  obtains b where "books h1 ! i = Some b" "book_before h sy i b"
proof (cases "find_book h sy")
  case None
  then show ?thesis using assms(2) by (simp add: find_or_create_def)
next
  case (Some found)
  have app: "books h1 ! nat (book_count h) = Some b" if "append_book h sy b = Some h1" for b
    using that assms(1) by (auto simp: append_book_def handlers_ok_def array_set_def bind_eq_Some_conv split: if_splits)
  show ?thesis
  proof (cases found)
    case None
    obtain b where "order_book_create True True True (sh_trade_broadcaster h) = Some b" "append_book h sy b = Some h1" "i = nat (book_count h)"
      using assms(2) by (auto simp: find_or_create_def Some None bind_eq_Some_conv split: option.splits)
    with app [of b] that [of b] show ?thesis by (simp add: book_before_def Some None)
  next
    case (Some j)
    have f: "find_book h sy = Some (Some j)" using \<open>find_book h sy = Some found\<close> Some by simp
    obtain b where b: "books h ! j = Some b" using find_book_Some(3) [OF assms(1) f] by blast
    have "h1 = h" "i = j" using assms(2) f b find_book_Some(4) [OF assms(1) f] by (simp_all add: find_or_create_def)
    then show ?thesis using that [of b] f b by (simp add: book_before_def)
  qed
qed

lemma send_nth_frame: "fst (e_send env i) \<Longrightarrow> snd (send_nth env i (Some w) t) = [(wsi (e_client env w), t)]"
  by (simp add: send_nth_def ws_server_send_def)

section \<open>What the client shows of a book\<close>

text \<open>The live orders of a book by price and what is left of them, of each side at most the 200 lowest.\<close>

definition shown_bids :: "store \<Rightarrow> OrderBook \<Rightarrow> (double \<times> int) list" where
  "shown_bids st b = map (\<lambda>x. (price x, remaining_quantity x)) (rev (take 200 (rev (filter live (bids st b)))))"

definition shown_asks :: "store \<Rightarrow> OrderBook \<Rightarrow> (double \<times> int) list" where
  "shown_asks st b = map (\<lambda>x. (price x, remaining_quantity x)) (take 200 (filter live (asks st b)))"

lemma shown_levels:
  assumes "bids_are s (take 200 (filter live (rev (bids st b))))" "asks_are s (take 200 (filter live (asks st b)))"
  shows "rev (level_list (bid_levels s)) = shown_bids st b" "level_list (ask_levels s) = shown_asks st b"
    "num_bids s = 0 \<and> num_asks s = 0 \<longleftrightarrow> shown_bids st b = [] \<and> shown_asks st b = []"
proof -
  have z: "zip (map f xs) (map g xs) = map (\<lambda>x. (f x, g x)) xs" for f :: "Order \<Rightarrow> double" and g :: "Order \<Rightarrow> int" and xs
    by (induction xs) auto
  show "rev (level_list (bid_levels s)) = shown_bids st b" "level_list (ask_levels s) = shown_asks st b"
    using assms by (simp_all add: bids_are_def asks_are_def bid_levels_def ask_levels_def level_list_def z shown_bids_def shown_asks_def
        rev_map rev_filter)
  show "num_bids s = 0 \<and> num_asks s = 0 \<longleftrightarrow> shown_bids st b = [] \<and> shown_asks st b = []"
    using assms by (auto simp: bids_are_def asks_are_def shown_bids_def shown_asks_def rev_filter min_def split: if_splits)
qed

section \<open>The typed line\<close>

definition view_line :: "string \<Rightarrow> string \<Rightarrow> string" where
  "view_line kw sy = kw @ '' '' @ sy"

lemma parse_view_line:
  assumes "word kw" "command_word kw = CMD_VIEW" "word sy" "length sy < 16" "length (view_line kw sy) < 256"
  shows "parse_command now (Some (view_line kw sy)) = no_command\<lparr>cmd_type := CMD_VIEW, cmd_symbol := sy\<rparr>"
proof -
  have cf: "copy_field 256 (view_line kw sy) = kw @ CHR '' '' # sy" using assms(5) by (simp add: view_line_def)
  show ?thesis using assms(2,4) unfolding parse_command_def option.case cf
    by (simp add: word_strtok(1) [OF assms(1)] word_strtok(2) [OF assms(3)] Let_def no_command_def)
qed

lemma input_round_command:
  assumes "cl_callback cl = Some cb" "line \<noteq> []" "parse_command now (Some line) = cmd" "cmd_type cmd \<notin> {CMD_QUIT, CMD_HELP, CMD_INVALID}"
  shows "input_round now (Some line) cl = ([AddHistory line, CommandCallback cb cmd (cl_user_data cl)], cl)"
  using assms by (simp add: input_round_def call_back_def Let_def)

text \<open>The identifiers of a typed order: the order's from the time, the trader's from the process id.\<close>

lemma trader_id_text:
  assumes "0 \<le> pid" "fits 32 pid"
  shows "snprintf 32 (''TRADER'' @ show_int pid) = ''TRADER'' @ show_nat pid" "length (''TRADER'' @ show_nat pid) < 31"
    "NUL \<notin> set (''TRADER'' @ show_nat pid)"
proof -
  have "length (show_nat pid) \<le> 10" by (rule length_show_nat) (use assms in \<open>simp_all add: fits_def\<close>)
  then show "snprintf 32 (''TRADER'' @ show_int pid) = ''TRADER'' @ show_nat pid" "length (''TRADER'' @ show_nat pid) < 31"
    "NUL \<notin> set (''TRADER'' @ show_nat pid)"
    using assms(1) show_nat_no_NUL [OF assms(1)] by (simp_all add: snprintf_def show_int_def NUL_def)
qed

lemma order_id_text:
  assumes "0 \<le> now" "fits 64 now"
  shows "length (''ORD'' @ show_nat now) < 31" "NUL \<notin> set (''ORD'' @ show_nat now)"
  using generate_order_id_text [OF assms] show_nat_no_NUL [OF assms(1)] by (simp_all add: NUL_def)

context cjson_api
begin

lemma typed_order_sent:
  assumes "cl_callback cl = Some cb" "app_client app = Some c" "connected c" "0 \<le> pid" "fits 32 pid" "0 \<le> now" "fits 64 now"
    and "word kw" "command_word kw \<in> {CMD_BUY, CMD_SELL}" "word sy" "length sy < 15"
      "word pt" "word qt" "atof pt = Fin p" "validate_price (Fin p)" "validate_quantity (atoi qt)"
      "length (order_line kw sy pt qt) < 256"
  obtains cmd t j where "input_round now (Some (order_line kw sy pt qt)) cl =
      ([AddHistory (order_line kw sy pt qt), CommandCallback cb cmd (cl_user_data cl)], cl)"
    "handle_command J pid True written cmd True app = (app, [], [(connection c, t)])" "cJSON_Parse J t = Some j"
    "view j = JObj [(''type'', JNum (Fin 1)), (''order_id'', JStr (''ORD'' @ show_nat now)), (''trader_id'', JStr (''TRADER'' @ show_nat pid)),
       (''symbol'', JStr sy), (''price'', JNum (reread (Fin p))), (''quantity'', JNum (Fin (of_int (atoi qt)))),
       (''is_buy'', JBool (command_word kw = CMD_BUY))]"
proof -
  define cmd where "cmd = \<lparr>cmd_type = command_word kw, cmd_symbol = sy, cmd_price = Fin p, cmd_quantity = atoi qt,
    cmd_order_id = ''ORD'' @ show_nat now\<rparr>"
  have pc: "parse_command now (Some (order_line kw sy pt qt)) = cmd"
    using parse_order_line_command [OF assms(8-10) _ assms(12,13) _ assms(16,17)] assms(11,14,15) generate_order_id_text [OF assms(6,7)]
    by (simp add: cmd_def)
  have ne: "order_line kw sy pt qt \<noteq> []" by (simp add: order_line_def)
  have inp: "input_round now (Some (order_line kw sy pt qt)) cl =
      ([AddHistory (order_line kw sy pt qt), CommandCallback cb cmd (cl_user_data cl)], cl)"
    by (rule input_round_command [OF assms(1) ne pc]) (use assms(9) in \<open>auto simp: cmd_def\<close>)
  obtain t j where t: "format_command_as_json J cmd (''TRADER'' @ show_nat pid) = Some t" "cJSON_Parse J t = Some j"
    "view j = JObj [(''type'', JNum (Fin 1)), (''order_id'', JStr (''ORD'' @ show_nat now)), (''trader_id'', JStr (''TRADER'' @ show_nat pid)),
       (''symbol'', JStr sy), (''price'', JNum (reread (Fin p))), (''quantity'', JNum (Fin (of_int (atoi qt)))),
       (''is_buy'', JBool (command_word kw = CMD_BUY))]"
    using command_message_text [of cmd p "''TRADER'' @ show_nat pid"] assms(9) atoi_fits by (auto simp: cmd_def)
  have "handle_command J pid True written cmd True app = (app, [], [(connection c, t)])"
    using assms(2,3,9) t(1) trader_id_text(1) [OF assms(4,5)]
    by (auto simp: handle_command_def cmd_def ws_client_is_connected_def ws_client_send_def)
  from that [OF inp this t(2,3)] show ?thesis .
qed

text \<open>A price that the client accepts stays a number when it is printed and read twice, close to what it was.\<close>

lemma reread_price:
  assumes "validate_price (Fin p)"
  obtains p1 p2 where "reread (Fin p) = Fin p1" "reread (Fin p1) = Fin p2" "\<bar>p2 - p\<bar> \<le> p / 2 ^ 49"
proof -
  have "Fin 0 \<le> MIN_PRICE" unfolding MIN_PRICE_def by (rule round_double_nonneg) simp
  moreover have "MIN_PRICE \<noteq> NaN" by (simp add: MIN_PRICE_def)
  then have "MIN_PRICE \<le> Fin p" "Fin p \<le> MAX_PRICE" using assms by (auto simp: validate_price_def d_lt_less not_less split: if_splits)
  ultimately have p: "0 \<le> p" "p \<le> 1000000" using order_trans by (fastforce simp: MAX_PRICE_def)+
  obtain p1 where p1: "reread (Fin p) = Fin p1" "\<bar>p1 - p\<bar> \<le> p / 2 ^ 51" using reread_close [of p] p by auto
  from abs_le_D1 [OF p1(2)] abs_le_D2 [OF p1(2)] p have b: "0 \<le> p1" "p1 \<le> 2 * p" by (simp_all add: field_simps)
  obtain p2 where p2: "reread (Fin p1) = Fin p2" "\<bar>p2 - p1\<bar> \<le> p1 / 2 ^ 51" using reread_close [of p1] p b by auto
  from abs_le_D1 [OF p2(2)] abs_le_D2 [OF p2(2)] abs_le_D1 [OF p1(2)] abs_le_D2 [OF p1(2)] p b
  have "\<bar>p2 - p\<bar> \<le> p / 2 ^ 49" by (intro abs_leI) (simp_all add: field_simps)
  with that p1(1) p2(1) show thesis by blast
qed

lemma view_message_text:
  obtains t j where "format_command_as_json J (no_command\<lparr>cmd_type := CMD_VIEW, cmd_symbol := sy\<rparr>) tid = Some t"
    "cJSON_Parse J t = Some j" "view j = JObj [(''type'', JNum (Fin 3)), (''symbol'', JStr sy)]"
proof -
  obtain r0 where r0: "cJSON_CreateObject J = Some r0" "view r0 = JObj []" using create_object by blast
  let ?e = "cJSON_AddStringToObject J (cJSON_AddNumberToObject J (Some r0) ''type'' (Fin 3)) ''symbol'' sy"
  have e: "node_is view ?e (JObj (([] @ [(''type'', JNum (Fin 3))]) @ [(''symbol'', JStr sy)]))"
    by (intro node_add) (simp add: node_is_def r0)
  obtain t j where "cJSON_Print J ?e = Some t" "cJSON_Parse J t = Some j" "view j = JObj [(''type'', JNum (Fin 3)), (''symbol'', JStr sy)]"
    by (rule node_print_parse [OF e]) (auto simp: reread_numeral)
  with that show ?thesis
    using r0(1) by (auto simp: format_command_as_json_def Let_def d_of_int_value MSG_REQUEST_BOOK_def)
qed

text \<open>An order message, from the text to the outcome.\<close>

lemma dispatch_place_ok:
  assumes "handlers_ok st h" "sh_trade_broadcaster h \<noteq> None"
      "find_book h sy \<noteq> Some None \<or> book_count h < int MAX_SYMBOLS"
    and "cJSON_Parse J t = Some node"
      "view node = JObj [(''type'', JNum (Fin 1)), (''order_id'', JStr oid), (''trader_id'', JStr tid), (''symbol'', JStr sy),
        (''price'', JNum (Fin p')), (''quantity'', JNum (Fin (of_int q))), (''is_buy'', JBool buy)]"
    and "NUL \<notin> set oid" "NUL \<notin> set tid" "NUL \<notin> set sy" "length oid < 31" "length tid < 31" "length sy < 15"
      "fits 32 q" "reread (Fin p') = Fin p"
    and "book_mem env = (True, True, True)" "e_order_mem env" "st (e_new_addr env) = None" "mem_ok (e_snapshot_mem env)"
  shows "\<exists>out h1 i x b1 b' snap ts. dispatch_message env J h st client t = Some out \<and> o_rc out = 0 \<and>
    find_or_create (True, True, True) h sy = Some (h1, Some i) \<and>
    order_create True (e_now env) oid tid sy (Fin p) q buy = Some x \<and>
    order_book_add_order (e_node_mem env) (st(e_new_addr env \<mapsto> x)) (books h1 ! i) (Some (e_new_addr env)) = Some (0, Some b1) \<and>
    order_book_match_orders (e_clock env) (st(e_new_addr env \<mapsto> x)) (Some b1) = Some (o_store out, Some b', o_trades out) \<and>
    handlers_ok (o_store out) (o_handlers out) \<and> i < nat (book_count (o_handlers out)) \<and>
    c_string (symbols (o_handlers out) ! i) = Some sy \<and> books (o_handlers out) ! i = Some b' \<and>
    \<not> crossing (bids (o_store out) b') (asks (o_store out) b') \<and>
    bids_are snap (take 200 (filter live (rev (bids (o_store out) b')))) \<and>
    asks_are snap (take 200 (filter live (asks (o_store out) b'))) \<and>
    serialize_book_snapshot J (Some snap) = Some (Some ts) \<and>
    o_frames out = snd (send_nth env 0 client (accepted_text buy oid tid sy (Fin p) q (e_time_text env))) @ snd (send_nth env 1 client ts)"
proof -
  have "parse_base_message J (Some t) = Some 1"
    using parse_base_message_typed [OF assms(4), of 1] by (simp add: assms(5) fits_def)
  then have d: "dispatch_message env J h st client t = handle_place_order env J h st client node"
    by (simp add: dispatch_message_def assms(4) message_handlers_def msg_types)
  note cmp = strcaseeq_def tolower_def isupper_def code_def
  have g: "json_get (view node) ''order_id'' = Some (JStr oid)" "json_get (view node) ''trader_id'' = Some (JStr tid)"
    "json_get (view node) ''symbol'' = Some (JStr sy)" "json_get (view node) ''price'' = Some (JNum (Fin p'))"
    "json_get (view node) ''quantity'' = Some (JNum (Fin (of_int q)))" "json_get (view node) ''is_buy'' = Some (JBool buy)"
    "finite_json (view node) \<and> nested_le 1000 (view node)"
    by (simp_all add: assms(5) cmp)
  show ?thesis unfolding d by (rule place_order_ok [OF assms(1-3) g(7,1-6) assms(6-17)])
qed

text \<open>A book request for a symbol with a book is answered with the snapshot of the book and changes nothing.\<close>

lemma book_request_ok:
  assumes "handlers_ok st h" "find_book h sy = Some (Some i)" "books h ! i = Some b"
    and "cJSON_Parse J t = Some node" "view node = JObj [(''type'', JNum (Fin 3)), (''symbol'', JStr sy)]"
    and "NUL \<notin> set sy" "length sy < 16" "mem_ok (e_snapshot_mem env)"
  obtains out snap ts where "dispatch_message env J h st client t = Some out" "o_handlers out = h" "o_store out = st" "o_trades out = []"
    "bids_are snap (take 200 (filter live (rev (bids st b))))" "asks_are snap (take 200 (filter live (asks st b)))"
    "snapshot_ok snap" "c_string (bs_symbol snap) = Some sy"
    "serialize_book_snapshot J (Some snap) = Some (Some ts)" "o_frames out = snd (send_nth env 0 client ts)"
proof -
  note fb = find_book_Some [OF assms(1,2)]
  have b: "book_ok st b" "prices_finite st b" using fb(3) assms(3) by auto
  obtain snap where snap: "take_snapshot (e_snapshot_mem env) st sy b = Some (Some snap)"
    "bids_are snap (take 200 (filter live (rev (bids st b))))" "asks_are snap (take 200 (filter live (asks st b)))"
    "bs_symbol snap = strncpy (replicate 16 NUL) sy 15"
    by (rule take_snapshot_levels [OF b(1) assms(8)])
  have sy: "c_string (bs_symbol snap) = Some sy"
    using c_string_strncpy [OF assms(6), of 15 "replicate 16 NUL"] assms(7) by (simp add: snap(4))
  note ok = take_snapshot_ok [OF b snap(2,3)]
  obtain ts where ts: "serialize_book_snapshot J (Some snap) = Some (Some ts)" using snapshot_text [OF ok sy] by blast
  have "parse_base_message J (Some t) = Some 3"
    using parse_base_message_typed [OF assms(4), of 3] by (simp add: assms(5) fits_def)
  then have d: "dispatch_message env J h st client t = handle_book_request env J h st client node"
    by (simp add: dispatch_message_def assms(4) message_handlers_def msg_types)
  obtain si where "cJSON_GetObjectItem J (Some node) ''symbol'' = Some si" "view si = JStr sy"
    by (rule get_item_Some [of node "''symbol''"]) (simp add: assms(5) strcaseeq_def tolower_def isupper_def code_def)
  then have "item_string J (cJSON_GetObjectItem J (Some node) ''symbol'') = Some sy"
    by (simp add: item_string_def string_value)
  moreover have "server_handlers_get_order_book (Some h) (Some sy) = Some (Some b)"
    using assms(2,3) fb(4) by (simp add: server_handlers_get_order_book_def)
  ultimately have "dispatch_message env J h st client t = Some \<lparr>o_rc = 0, o_handlers = h, o_store = st,
      o_frames = snd (send_nth env 0 client ts), o_trades = []\<rparr>"
    unfolding d using snap(1) ts by (simp add: handle_book_request_def)
  with that snap(2,3) ok sy ts show ?thesis by simp
qed

end

end
