(* ===== verification/Linked_Heap.thy ===== *)
theory Linked_Heap
  imports Prelude "HOL-Library.Monad_Syntax"
begin

text \<open>
  Singly linked lists of cells on a heap, as the session manager, the order entry and the trade history build
  them: the loops that walk, search with a trailing pointer, unlink and free, and the contract of a kind of
  cell under which a list on the heap is a list of values.
\<close>

section \<open>Walking a list\<close>

text \<open>
  The search with \<open>prev\<close> and \<open>current\<close>: the first cell that satisfies \<open>P\<close> and the one before it. \<open>None\<close> is a
  pointer to a cell that is not live.
\<close>

partial_function (option) find_prev ::
  "('c \<Rightarrow> addr option) \<Rightarrow> ('c \<Rightarrow> bool) \<Rightarrow> (addr \<rightharpoonup> 'c) \<Rightarrow> addr option \<Rightarrow> addr option \<Rightarrow> (addr option \<times> addr) option option" where
  [code]: "find_prev nxt P h prev current = (case current of None \<Rightarrow> Some None
     | Some a \<Rightarrow> do {
         c \<leftarrow> h a;
         if P c then Some (Some (prev, a)) else find_prev nxt P h (Some a) (nxt c) })"

text \<open>Unlinking the cell after \<open>prev\<close>, or the first one: the heap and the head pointer.\<close>

definition unlink_after ::
  "(addr option \<Rightarrow> 'c \<Rightarrow> 'c) \<Rightarrow> (addr \<rightharpoonup> 'c) \<Rightarrow> addr option \<Rightarrow> addr option \<Rightarrow> addr option \<Rightarrow> ((addr \<rightharpoonup> 'c) \<times> addr option) option" where
  "unlink_after set_nxt h hd_ptr prev next_ptr = (case prev of None \<Rightarrow> Some (h, next_ptr)
     | Some q \<Rightarrow> do { c \<leftarrow> h q; Some (h(q \<mapsto> set_nxt next_ptr c), hd_ptr) })"

text \<open>\<open>free\<close> of a pointer that is not NULL, of any pointer, of several, and of the cells of a list.\<close>

definition free_cell :: "(addr \<rightharpoonup> 'c) \<Rightarrow> addr \<Rightarrow> (addr \<rightharpoonup> 'c) option" where
  "free_cell h a = (if h a = None then None else Some (h(a := None)))"

definition free_ptr :: "(addr \<rightharpoonup> 'c) \<Rightarrow> addr option \<Rightarrow> (addr \<rightharpoonup> 'c) option" where
  "free_ptr h p = (case p of None \<Rightarrow> Some h | Some a \<Rightarrow> free_cell h a)"

fun free_ptrs :: "(addr \<rightharpoonup> 'a) \<Rightarrow> addr option list \<Rightarrow> (addr \<rightharpoonup> 'a) option" where
  "free_ptrs h [] = Some h"
| "free_ptrs h (p # ps) = do { h1 \<leftarrow> free_ptr h p; free_ptrs h1 ps }"

partial_function (option) free_cells :: "('c \<Rightarrow> addr option) \<Rightarrow> (addr \<rightharpoonup> 'c) \<Rightarrow> addr option \<Rightarrow> (addr \<rightharpoonup> 'c) option" where
  [code]: "free_cells nxt h p = (case p of None \<Rightarrow> Some h
     | Some a \<Rightarrow> do {
         c \<leftarrow> h a;
         h1 \<leftarrow> free_cell h a;
         free_cells nxt h1 (nxt c) })"

text \<open>An allocator gives no block that is in use; NULL when there is no memory.\<close>

definition fresh_alloc :: "((addr \<rightharpoonup> 'c) \<Rightarrow> addr option) \<Rightarrow> bool" where
  "fresh_alloc alloc \<longleftrightarrow> (\<forall>H a. alloc H = Some a \<longrightarrow> H a = None)"

text \<open>
  A call of the allocator that gives the address \<open>f\<close> chooses, or NULL when there is no memory. The heap has
  room as long as finitely many blocks are in use.
\<close>

definition fresh_addr :: "((addr \<rightharpoonup> 'c) \<Rightarrow> addr) \<Rightarrow> bool" where
  "fresh_addr f \<longleftrightarrow> (\<forall>H. finite (dom H) \<longrightarrow> H (f H) = None)"

definition alloc_if :: "bool \<Rightarrow> ((addr \<rightharpoonup> 'c) \<Rightarrow> addr) \<Rightarrow> (addr \<rightharpoonup> 'c) \<Rightarrow> addr option" where
  "alloc_if ok f H = (if ok \<and> H (f H) = None then Some (f H) else None)"

lemma fresh_alloc_if [simp]: "fresh_alloc (alloc_if ok f)"
  by (simp add: fresh_alloc_def alloc_if_def)

lemma alloc_if_Some: "fresh_addr f \<Longrightarrow> finite (dom H) \<Longrightarrow> alloc_if ok f H \<noteq> None \<longleftrightarrow> ok"
  by (simp add: fresh_addr_def alloc_if_def)

definition first_free :: "(addr \<rightharpoonup> 'c) \<Rightarrow> addr" where
  "first_free H = (LEAST a. H a = None)"

lemma fresh_addr_first_free: "fresh_addr first_free"
  unfolding fresh_addr_def first_free_def
proof (intro allI impI)
  fix H :: "addr \<rightharpoonup> 'c" assume "finite (dom H)"
  then obtain a where "H a = None" using ex_new_if_finite [OF infinite_UNIV_nat] by blast
  then show "H (LEAST a. H a = None) = None" by (rule LeastI)
qed

section \<open>Freeing several blocks\<close>

lemma free_ptrs_live:
  "distinct (filter (\<lambda>p. p \<noteq> None) ps) \<Longrightarrow> (\<And>a. Some a \<in> set ps \<Longrightarrow> H a \<noteq> None) \<Longrightarrow> free_ptrs H ps = Some (H |` (- {a. Some a \<in> set ps}))"
proof (induction ps arbitrary: H)
  case Nil
  then show ?case by (simp add: restrict_map_def)
next
  case (Cons p ps)
  show ?case
  proof (cases p)
    case (Some a)
    then have a: "H a \<noteq> None" "Some a \<notin> set ps" using Cons.prems by auto
    then have "free_ptrs H (p # ps) = free_ptrs (H(a := None)) ps" using Some by (auto simp: free_ptr_def free_cell_def)
    also have "\<dots> = Some ((H(a := None)) |` (- {a. Some a \<in> set ps}))"
      by (rule Cons.IH) (use Cons.prems Some a(2) in \<open>auto split: if_splits\<close>)
    also have "(H(a := None)) |` (- {a. Some a \<in> set ps}) = H |` (- {a. Some a \<in> set (p # ps)})"
      using Some by (auto simp: restrict_map_def fun_eq_iff)
    finally show ?thesis .
  qed (use Cons in \<open>simp add: free_ptr_def\<close>)
qed

lemma free_ptrs_dead: "Some a \<in> set ps \<Longrightarrow> H a = None \<Longrightarrow> free_ptrs H ps = None"
proof (induction ps arbitrary: H)
  case (Cons p ps)
  show ?case
  proof (cases "p = Some a")
    case False
    then have "Some a \<in> set ps" using Cons.prems(1) by auto
    with Cons.IH [OF this] Cons.prems(2) show ?thesis
      by (auto simp: free_ptr_def free_cell_def bind_eq_None_conv split: option.splits)
  qed (use Cons.prems in \<open>simp add: free_ptr_def free_cell_def\<close>)
qed simp

section \<open>Paths\<close>

fun path :: "('c \<Rightarrow> addr option) \<Rightarrow> (addr \<rightharpoonup> 'c) \<Rightarrow> addr option \<Rightarrow> addr list \<Rightarrow> addr option \<Rightarrow> bool" where
  "path nxt h p [] q \<longleftrightarrow> p = q"
| "path nxt h p (a # as) q \<longleftrightarrow> p = Some a \<and> (\<exists>c. h a = Some c \<and> path nxt h (nxt c) as q)"

lemma path_append: "path nxt h p (as @ bs) q \<longleftrightarrow> (\<exists>r. path nxt h p as r \<and> path nxt h r bs q)"
  by (induction as arbitrary: p) auto

lemma path_upd [simp]: "a \<notin> set as \<Longrightarrow> path nxt (h(a := v)) p as q \<longleftrightarrow> path nxt h p as q"
  by (induction as arbitrary: p) auto

lemma path_live: "path nxt h p as q \<Longrightarrow> a \<in> set as \<Longrightarrow> h a \<noteq> None"
  by (induction as arbitrary: p) auto

lemma path_unique: "path nxt h p as None \<Longrightarrow> path nxt h p bs None \<Longrightarrow> as = bs"
proof (induction as arbitrary: p bs)
  case (Cons a as)
  then obtain c where c: "p = Some a" "h a = Some c" "path nxt h (nxt c) as None" by auto
  then obtain cs where "bs = a # cs" "path nxt h (nxt c) cs None" using Cons.prems(2) by (cases bs) auto
  with Cons.IH [OF c(3)] show ?case by simp
next
  case Nil
  then show ?case by (cases bs) auto
qed

lemma path_distinct: "path nxt h p as None \<Longrightarrow> distinct as"
proof (induction as arbitrary: p)
  case (Cons a as)
  then obtain c where c: "p = Some a" "h a = Some c" "path nxt h (nxt c) as None" by auto
  have "a \<notin> set as"
  proof
    assume "a \<in> set as"
    then obtain us vs where "as = us @ a # vs" by (meson split_list)
    then have "path nxt h p (a # vs) None" using c by (auto simp: path_append)
    with Cons.prems have "a # as = a # vs" by (rule path_unique)
    with \<open>as = us @ a # vs\<close> show False by simp
  qed
  with Cons.IH [OF c(3)] show ?case by simp
qed simp

lemma path_None [simp]: "path nxt h None as None \<longleftrightarrow> as = []"
  by (cases as) auto

text \<open>The pointer to the cell at a position; after the last one it is NULL.\<close>

lemma path_head: "path nxt h p as None \<Longrightarrow> p = (map Some as @ [None]) ! 0"
  by (cases as) auto

lemma path_next: "path nxt h p as None \<Longrightarrow> i < length as \<Longrightarrow> h (as ! i) = Some c \<Longrightarrow> nxt c = (map Some as @ [None]) ! Suc i"
proof (induction as arbitrary: p i)
  case (Cons a as)
  then show ?case using path_head [of nxt h _ as] by (cases i) auto
qed simp

lemma free_cells_path: "path nxt h p as None \<Longrightarrow> free_cells nxt h p = Some (h |` (- set as))"
proof (induction as arbitrary: h p)
  case Nil
  then show ?case by (simp add: free_cells.simps)
next
  case (Cons a as)
  then obtain c where c: "p = Some a" "h a = Some c" "path nxt h (nxt c) as None" by auto
  have "a \<notin> set as" using path_distinct [OF Cons.prems] by simp
  then have "path nxt (h(a := None)) (nxt c) as None" using c(3) by simp
  then have "free_cells nxt (h(a := None)) (nxt c) = Some ((h(a := None)) |` (- set as))" by (rule Cons.IH)
  then have "free_cells nxt h p = Some ((h(a := None)) |` (- set as))"
    unfolding free_cells.simps [of _ _ p] by (simp add: c free_cell_def)
  also have "(h(a := None)) |` (- set as) = h |` (- set (a # as))" by (auto simp: restrict_map_def fun_eq_iff)
  finally show ?case .
qed

lemma find_prev_path:
  assumes "path nxt h p as None" "map (\<lambda>a. map_option val (h a)) as = map Some xs"
  shows "find_prev nxt (\<lambda>c. P (val c)) h prev p =
    Some (map_option (\<lambda>i. ((prev # map Some as) ! i, as ! i)) (find_index P xs))"
  using assms
proof (induction as arbitrary: p prev xs)
  case Nil
  then show ?case by (simp add: find_prev.simps)
next
  case (Cons a as)
  then obtain c ys where c: "p = Some a" "h a = Some c" "path nxt h (nxt c) as None" "xs = val c # ys"
      "map (\<lambda>a. map_option val (h a)) as = map Some ys"
    by (cases xs) auto
  show ?case
    unfolding find_prev.simps [of _ _ _ _ p] using c Cons.IH [OF c(3,5), of "Some a"]
    by (simp add: option.map_comp comp_def)
qed

section \<open>A list of values\<close>

text \<open>
  From \<open>p\<close> the heap \<open>h\<close> has a list whose cells stand for the values \<open>xs\<close>; its cells were free in \<open>h0\<close> and the rest of
  the heap is \<open>h0\<close>.
\<close>

definition list_on_heap ::
  "('c \<Rightarrow> addr option) \<Rightarrow> ('c \<Rightarrow> 'd) \<Rightarrow> (addr \<rightharpoonup> 'c) \<Rightarrow> (addr \<rightharpoonup> 'c) \<Rightarrow> addr option \<Rightarrow> addr list \<Rightarrow> 'd list \<Rightarrow> bool" where
  "list_on_heap nxt val h0 h p as xs \<longleftrightarrow> path nxt h p as None \<and> map (\<lambda>a. map_option val (h a)) as = map Some xs \<and>
     (\<forall>a. a \<notin> set as \<longrightarrow> h a = h0 a) \<and> (\<forall>a \<in> set as. h0 a = None)"

lemma list_on_heap_Nil: "list_on_heap nxt val h0 h p as [] \<longleftrightarrow> p = None \<and> as = [] \<and> h = h0"
  by (auto simp: list_on_heap_def)

lemma list_on_heap_None [simp]: "list_on_heap nxt val h0 h None as xs \<longleftrightarrow> as = [] \<and> xs = [] \<and> h = h0"
  by (auto simp: list_on_heap_def)

lemma list_on_heap_length: "list_on_heap nxt val h0 h p as xs \<Longrightarrow> length as = length xs"
  by (auto simp: list_on_heap_def dest: arg_cong [of _ _ length])

lemma list_on_heap_finite: "list_on_heap nxt val h0 h p as xs \<Longrightarrow> finite (dom h0) \<Longrightarrow> finite (dom h)"
  by (rule finite_subset [of _ "dom h0 \<union> set as"]) (auto simp: list_on_heap_def)

text \<open>A kind of cell: its link can be read and set, and setting it does not change the value.\<close>

locale linked_cells =
  fixes nxt :: "'c \<Rightarrow> addr option"
    and set_nxt :: "addr option \<Rightarrow> 'c \<Rightarrow> 'c"
    and val :: "'c \<Rightarrow> 'd"
  assumes nxt_set: "nxt (set_nxt n c) = n"
    and val_set: "val (set_nxt n c) = val c"
begin

abbreviation stored :: "(addr \<rightharpoonup> 'c) \<Rightarrow> (addr \<rightharpoonup> 'c) \<Rightarrow> addr option \<Rightarrow> addr list \<Rightarrow> 'd list \<Rightarrow> bool" where
  "stored h0 h p as xs \<equiv> list_on_heap nxt val h0 h p as xs"

lemma stored_push:
  assumes "stored h0 h p as xs" "h a = None" "nxt c = p"
  shows "stored h0 (h(a \<mapsto> c)) (Some a) (a # as) (val c # xs)"
proof -
  have a: "a \<notin> set as" using assms(1,2) path_live by (fastforce simp: list_on_heap_def)
  then have "map (\<lambda>k. map_option val ((h(a \<mapsto> c)) k)) as = map (\<lambda>k. map_option val (h k)) as" by auto
  with a assms show ?thesis by (auto simp: list_on_heap_def)
qed

lemma stored_pop:
  assumes "stored h0 h (Some a) as xs"
  obtains c bs ys where "h a = Some c" "as = a # bs" "xs = val c # ys" "stored h0 (h(a := None)) (nxt c) bs ys"
proof -
  obtain bs where as: "as = a # bs" using assms by (cases as) (auto simp: list_on_heap_def)
  obtain c where c: "h a = Some c" "path nxt h (nxt c) bs None" using assms as by (auto simp: list_on_heap_def)
  obtain ys where ys: "xs = val c # ys" "map (\<lambda>k. map_option val (h k)) bs = map Some ys"
    using assms as c(1) by (cases xs) (auto simp: list_on_heap_def)
  have d: "a \<notin> set bs" using assms as path_distinct [of nxt h "Some a" as] by (auto simp: list_on_heap_def)
  then have "map (\<lambda>k. map_option val ((h(a := None)) k)) bs = map Some ys" using ys(2) by (auto simp flip: ys(2))
  with assms as c d have "stored h0 (h(a := None)) (nxt c) bs ys" by (auto simp: list_on_heap_def)
  with that c(1) as ys(1) show thesis by blast
qed

lemma stored_destroy: "stored h0 h p as xs \<Longrightarrow> free_cells nxt h p = Some h0"
proof -
  assume s: "stored h0 h p as xs"
  then have "h |` (- set as) = h0" by (auto simp: list_on_heap_def restrict_map_def fun_eq_iff)
  with s free_cells_path [of nxt h p as] show ?thesis by (auto simp: list_on_heap_def)
qed

lemma stored_nth: "stored h0 h p as xs \<Longrightarrow> i < length xs \<Longrightarrow> \<exists>c. h (as ! i) = Some c \<and> val c = xs ! i"
proof -
  assume s: "stored h0 h p as xs" "i < length xs"
  then have m: "map (\<lambda>a. map_option val (h a)) as = map Some xs" "i < length as"
    using list_on_heap_length [OF s(1)] by (auto simp: list_on_heap_def)
  then have "map_option val (h (as ! i)) = Some (xs ! i)" using s(2) by (metis nth_map)
  then show ?thesis by auto
qed

lemma stored_find:
  "stored h0 h p as xs \<Longrightarrow>
   find_prev nxt (\<lambda>c. P (val c)) h None p = Some (map_option (\<lambda>i. ((None # map Some as) ! i, as ! i)) (find_index P xs))"
  by (rule find_prev_path) (auto simp: list_on_heap_def)

lemma stored_update:
  assumes "stored h0 h p as xs" "i < length xs" "h (as ! i) = Some c" "nxt c' = nxt c"
  shows "stored h0 (h(as ! i \<mapsto> c')) p as (xs[i := val c'])"
proof -
  have i: "i < length as" using assms(2) list_on_heap_length [OF assms(1)] by simp
  have p: "path nxt h p as None" "map (\<lambda>a. map_option val (h a)) as = map Some xs" using assms(1) by (auto simp: list_on_heap_def)
  have d: "distinct as" by (rule path_distinct [OF p(1)])
  have "path nxt (h(a \<mapsto> c')) q bs r" if "path nxt h q bs r" "h a = Some c" for a q bs r
    using that assms(4) by (induction bs arbitrary: q) (auto simp: fun_upd_def)
  with p(1) assms(3) have "path nxt (h(as ! i \<mapsto> c')) p as None" by blast
  moreover have "map (\<lambda>a. map_option val ((h(as ! i \<mapsto> c')) a)) as = map Some (xs[i := val c'])"
  proof (rule nth_equalityI)
    fix k assume k: "k < length (map (\<lambda>a. map_option val ((h(as ! i \<mapsto> c')) a)) as)"
    then have "map_option val (h (as ! k)) = Some (xs ! k)" using p(2) by (metis length_map nth_map)
    with k d i list_on_heap_length [OF assms(1)] show "map (\<lambda>a. map_option val ((h(as ! i \<mapsto> c')) a)) as ! k = map Some (xs[i := val c']) ! k"
      by (auto simp: nth_eq_iff_index_eq nth_list_update)
  qed (use list_on_heap_length [OF assms(1)] in simp)
  ultimately show ?thesis using assms(1) i by (auto simp: list_on_heap_def)
qed

text \<open>Removing the cell at position \<open>i\<close>, given the one before it.\<close>

lemma path_unlink:
  assumes "path nxt h p (bs @ b # a # cs) None" "h b = Some d" "h a = Some c"
  shows "path nxt ((h(b \<mapsto> set_nxt (nxt c) d))(a := None)) p (bs @ b # cs) None"
proof -
  have d: "distinct (bs @ b # a # cs)" by (rule path_distinct [OF assms(1)])
  obtain r where r: "path nxt h p bs r" "path nxt h r (b # a # cs) None" using assms(1) by (auto simp: path_append)
  then have "path nxt h (nxt c) cs None" "r = Some b" using assms(2,3) by auto
  with r(1) d have "path nxt ((h(b \<mapsto> set_nxt (nxt c) d))(a := None)) p bs (Some b)"
      "path nxt ((h(b \<mapsto> set_nxt (nxt c) d))(a := None)) (nxt c) cs None" by simp_all
  with d show ?thesis by (auto simp: path_append nxt_set)
qed

lemma stored_remove:
  assumes "stored h0 h p as xs" "i < length xs" "h (as ! i) = Some c"
  shows "\<exists>h1 p1. unlink_after set_nxt h p ((None # map Some as) ! i) (nxt c) = Some (h1, p1) \<and> h1 (as ! i) = Some c \<and>
    stored h0 (h1(as ! i := None)) p1 (take i as @ drop (Suc i) as) (take i xs @ drop (Suc i) xs)"
proof (cases i)
  case 0
  then obtain a where a: "p = Some a" using assms(2) by (cases p) (use assms(1) in auto)
  obtain bs ys where b: "as = a # bs" "xs = val c # ys" "stored h0 (h(a := None)) (nxt c) bs ys"
    using stored_pop [OF assms(1) [unfolded a]] assms(3) 0 by (metis nth_Cons_0 option.inject)
  with 0 assms(3) show ?thesis by (simp add: unlink_after_def)
next
  case (Suc j)
  have i: "i < length as" using assms(2) list_on_heap_length [OF assms(1)] by simp
  let ?b = "as ! j" and ?a = "as ! i"
  have split: "as = take j as @ ?b # ?a # drop (Suc i) as"
    using i Suc by (metis Cons_nth_drop_Suc Suc_lessD append_take_drop_id)
  have keep: "take i as @ drop (Suc i) as = take j as @ ?b # drop (Suc i) as"
    using i Suc by (simp add: take_Suc_conv_app_nth)
  have p: "path nxt h p as None" "map (\<lambda>a. map_option val (h a)) as = map Some xs" using assms(1) by (auto simp: list_on_heap_def)
  obtain d where d: "h ?b = Some d" using i Suc path_live [OF p(1), of ?b] by fastforce
  have dist: "distinct as" by (rule path_distinct [OF p(1)])
  let ?h = "(h(?b \<mapsto> set_nxt (nxt c) d))(?a := None)"
  have "path nxt ?h p (take i as @ drop (Suc i) as) None"
    unfolding keep by (rule path_unlink [where h = h, OF _ d assms(3)]) (use p(1) split in metis)
  moreover have "map (\<lambda>a. map_option val (?h a)) (take i as @ drop (Suc i) as) = map Some (take i xs @ drop (Suc i) xs)"
  proof -
    have "distinct (take i as @ ?a # drop (Suc i) as)" using dist i by (simp add: Cons_nth_drop_Suc)
    then have "?a \<notin> set (take i as @ drop (Suc i) as)" by auto
    then have "map (\<lambda>a. map_option val (?h a)) (take i as @ drop (Suc i) as) = map (\<lambda>a. map_option val (h a)) (take i as @ drop (Suc i) as)"
      using d by (auto simp: val_set)
    then show ?thesis by (simp add: p(2) flip: take_map drop_map)
  qed
  moreover have "set as = insert ?a (set (take i as @ drop (Suc i) as))"
    by (metis Un_insert_right append_take_drop_id Cons_nth_drop_Suc i list.simps(15) set_append)
  moreover have "unlink_after set_nxt h p ((None # map Some as) ! i) (nxt c) = Some (h(?b \<mapsto> set_nxt (nxt c) d), p)"
    using Suc i d by (simp add: unlink_after_def)
  moreover have "?b \<noteq> ?a" using dist i Suc by (simp add: nth_eq_iff_index_eq)
  moreover have "?b \<in> set (take i as @ drop (Suc i) as)" unfolding keep by simp
  ultimately show ?thesis using assms(1,3) by (auto simp: list_on_heap_def)
qed

end

end
