(* ===== verification/Session_Heap.thy ===== *)
theory Session_Heap
  imports Session_Manager Linked_Heap
begin

text \<open>
  The session manager with its pointers: the linked sessions, the array of symbol pointers of each session, the
  copied symbols and the manager struct, each on a typed heap, with every \<open>calloc\<close>, \<open>strdup\<close> and \<open>free\<close> of
  \<open>src/server/session_manager.c\<close>. It implements the lists of theory \<open>Session_Manager\<close>.
\<close>

section \<open>Memory\<close>

record session_cell =
  cs_client :: addr
  cs_symbols :: "addr option"
  cs_count :: int
  cs_last_ping :: int
  cs_next :: "addr option"

record manager_struct =
  ms_sessions :: "addr option"
  ms_count :: int
  ms_max :: int
  ms_timeout :: int

record session_mem =
  sm_cells :: "addr \<rightharpoonup> session_cell"
  sm_arrays :: "addr \<rightharpoonup> addr option list"
  sm_strings :: "addr \<rightharpoonup> string"
  sm_structs :: "addr \<rightharpoonup> manager_struct"

text \<open>\<open>set_next n c\<close> is the assignment \<open>c->next = n\<close>.\<close>

definition set_next :: "addr option \<Rightarrow> session_cell \<Rightarrow> session_cell" where
  "set_next n c = c\<lparr>cs_next := n\<rparr>"

section \<open>Subscriptions of a session\<close>

text \<open>Freeing the symbols of a session and their array; the loop reads the first \<open>n\<close> slots.\<close>

definition free_subscriptions ::
  "(addr \<rightharpoonup> addr option list) \<Rightarrow> (addr \<rightharpoonup> string) \<Rightarrow> addr option \<Rightarrow> int \<Rightarrow> ((addr \<rightharpoonup> addr option list) \<times> (addr \<rightharpoonup> string)) option" where
  "free_subscriptions A T q n = do {
     slots \<leftarrow> (case q of None \<Rightarrow> if n \<le> 0 then Some [] else None
               | Some b \<Rightarrow> do { arr \<leftarrow> A b; if n \<le> int (length arr) then Some (take (nat n) arr) else None });
     T1 \<leftarrow> free_ptrs T slots;
     A1 \<leftarrow> free_ptr A q;
     Some (A1, T1) }"

text \<open>The loop with \<open>strcmp\<close> over the slots: the index of the symbol.\<close>

fun find_string :: "(addr \<rightharpoonup> string) \<Rightarrow> addr option list \<Rightarrow> string \<Rightarrow> nat option option" where
  "find_string T [] sy = Some None"
| "find_string T (p # ps) sy = do {
     t \<leftarrow> p;
     s \<leftarrow> T t;
     if s = sy then Some (Some 0) else map_option (map_option Suc) (find_string T ps sy) }"

text \<open>The slots of a session that are in use.\<close>

definition used_slots :: "session_mem \<Rightarrow> session_cell \<Rightarrow> addr option list option" where
  "used_slots M c = (if cs_count c \<le> 0 then Some []
     else do { b \<leftarrow> cs_symbols c; arr \<leftarrow> sm_arrays M b;
               if cs_count c \<le> int (length arr) then Some (take (nat (cs_count c)) arr) else None })"

text \<open>Moving the slots after \<open>j\<close> down by one, \<open>k\<close> of them.\<close>

fun shift_down :: "nat \<Rightarrow> int \<Rightarrow> 'a list \<Rightarrow> 'a list option" where
  "shift_down 0 j arr = Some arr"
| "shift_down (Suc k) j arr = do {
     v \<leftarrow> array_get arr (j + 1);
     arr1 \<leftarrow> array_set arr j v;
     shift_down k (j + 1) arr1 }"

section \<open>Operations\<close>

definition session_manager_create_h :: "addr option \<Rightarrow> SessionConfig \<Rightarrow> session_mem \<Rightarrow> session_mem \<times> addr option" where
  "session_manager_create_h new c M = (case new of None \<Rightarrow> (M, None)
     | Some a \<Rightarrow> (M\<lparr>sm_structs := (sm_structs M)(a \<mapsto> \<lparr>ms_sessions = None, ms_count = 0, ms_max = sc_max_sessions c,
          ms_timeout = sc_session_timeout_ms c\<rparr>)\<rparr>, Some a))"

definition find_session_h :: "session_mem \<Rightarrow> manager_struct \<Rightarrow> addr \<Rightarrow> (addr option \<times> addr) option option" where
  "find_session_h M s c = find_prev cs_next (\<lambda>x. cs_client x = c) (sm_cells M) None (ms_sessions s)"

definition session_manager_add_client_h ::
  "((addr \<rightharpoonup> session_cell) \<Rightarrow> addr option) \<Rightarrow> ((addr \<rightharpoonup> addr option list) \<Rightarrow> addr option) \<Rightarrow> int \<Rightarrow> session_mem \<Rightarrow> addr option \<Rightarrow>
   addr option \<Rightarrow> (rc \<times> session_mem) option" where
  "session_manager_add_client_h cell_alloc array_alloc now M p c' = (case (p, c') of
     (Some a, Some c) \<Rightarrow> do {
       s \<leftarrow> sm_structs M a;
       if ms_max s \<le> ms_count s then Some (- 1, M)
       else do {
         found \<leftarrow> find_session_h M s c;
         (if found \<noteq> None then Some (- 1, M)
          else case cell_alloc (sm_cells M) of None \<Rightarrow> Some (- 1, M)
          | Some k \<Rightarrow>
              let cell = \<lparr>cs_client = c, cs_symbols = array_alloc (sm_arrays M), cs_count = 0, cs_last_ping = now, cs_next = None\<rparr>;
                  C = (sm_cells M)(k \<mapsto> cell)
              in (case cs_symbols cell of
                None \<Rightarrow> do { C1 \<leftarrow> free_cell C k; Some (- 1, M\<lparr>sm_cells := C1\<rparr>) }
              | Some b \<Rightarrow> Some (0, M\<lparr>sm_cells := C(k \<mapsto> set_next (ms_sessions s) cell),
                    sm_arrays := (sm_arrays M)(b \<mapsto> replicate MAX_SUBSCRIPTIONS None),
                    sm_structs := (sm_structs M)(a \<mapsto> s\<lparr>ms_sessions := Some k, ms_count := ms_count s + 1\<rparr>)\<rparr>))) } }
   | _ \<Rightarrow> Some (- 1, M))"

text \<open>Taking one session out: unlinked, its subscriptions freed, then its cell.\<close>

definition drop_session ::
  "session_mem \<Rightarrow> addr option \<Rightarrow> addr option \<Rightarrow> addr \<Rightarrow> (session_mem \<times> addr option \<times> addr option) option" where
  "drop_session M hd_ptr prev k = do {
     c \<leftarrow> sm_cells M k;
     (C, hd1) \<leftarrow> unlink_after set_next (sm_cells M) hd_ptr prev (cs_next c);
     c1 \<leftarrow> C k;
     (A, T) \<leftarrow> free_subscriptions (sm_arrays M) (sm_strings M) (cs_symbols c1) (cs_count c1);
     C1 \<leftarrow> free_cell C k;
     Some (M\<lparr>sm_cells := C1, sm_arrays := A, sm_strings := T\<rparr>, hd1, cs_next c) }"

definition session_manager_remove_client_h :: "session_mem \<Rightarrow> addr option \<Rightarrow> addr option \<Rightarrow> (rc \<times> session_mem) option" where
  "session_manager_remove_client_h M p c' = (case (p, c') of
     (Some a, Some c) \<Rightarrow> do {
       s \<leftarrow> sm_structs M a;
       found \<leftarrow> find_session_h M s c;
       (case found of None \<Rightarrow> Some (- 1, M)
        | Some (prev, k) \<Rightarrow> do {
            (M1, hd1, nx) \<leftarrow> drop_session M (ms_sessions s) prev k;
            Some (0, M1\<lparr>sm_structs := (sm_structs M1)(a \<mapsto> s\<lparr>ms_sessions := hd1, ms_count := ms_count s - 1\<rparr>)\<rparr>) }) }
   | _ \<Rightarrow> Some (- 1, M))"

definition session_manager_subscribe_symbol_h ::
  "((addr \<rightharpoonup> string) \<Rightarrow> addr option) \<Rightarrow> session_mem \<Rightarrow> addr option \<Rightarrow> addr option \<Rightarrow> string option \<Rightarrow> (rc \<times> session_mem) option" where
  "session_manager_subscribe_symbol_h strdup M p c' sy' = (case (p, c', sy') of
     (Some a, Some c, Some sy) \<Rightarrow> do {
       s \<leftarrow> sm_structs M a;
       found \<leftarrow> find_session_h M s c;
       (case found of None \<Rightarrow> Some (- 1, M)
        | Some (prev, k) \<Rightarrow> do {
            x \<leftarrow> sm_cells M k;
            if int MAX_SUBSCRIPTIONS \<le> cs_count x then Some (- 1, M)
            else do {
              slots \<leftarrow> used_slots M x;
              i \<leftarrow> find_string (sm_strings M) slots sy;
              (if i \<noteq> None then Some (0, M)
               else case strdup (sm_strings M) of None \<Rightarrow> Some (- 1, M)
               | Some t \<Rightarrow> do {
                   b \<leftarrow> cs_symbols x;
                   arr \<leftarrow> sm_arrays M b;
                   arr1 \<leftarrow> array_set arr (cs_count x) (Some t);
                   Some (0, M\<lparr>sm_cells := (sm_cells M)(k \<mapsto> x\<lparr>cs_count := cs_count x + 1\<rparr>),
                     sm_arrays := (sm_arrays M)(b \<mapsto> arr1), sm_strings := (sm_strings M)(t \<mapsto> sy)\<rparr>) }) } }) }
   | _ \<Rightarrow> Some (- 1, M))"

definition session_manager_unsubscribe_symbol_h ::
  "session_mem \<Rightarrow> addr option \<Rightarrow> addr option \<Rightarrow> string option \<Rightarrow> (rc \<times> session_mem) option" where
  "session_manager_unsubscribe_symbol_h M p c' sy' = (case (p, c', sy') of
     (Some a, Some c, Some sy) \<Rightarrow> do {
       s \<leftarrow> sm_structs M a;
       found \<leftarrow> find_session_h M s c;
       (case found of None \<Rightarrow> Some (- 1, M)
        | Some (prev, k) \<Rightarrow> do {
            x \<leftarrow> sm_cells M k;
            slots \<leftarrow> used_slots M x;
            found_at \<leftarrow> find_string (sm_strings M) slots sy;
            (case found_at of None \<Rightarrow> Some (- 1, M)
             | Some i \<Rightarrow> do {
                 b \<leftarrow> cs_symbols x;
                 arr \<leftarrow> sm_arrays M b;
                 q \<leftarrow> array_get arr (int i);
                 T \<leftarrow> free_ptr (sm_strings M) q;
                 arr1 \<leftarrow> shift_down (nat (cs_count x - 1 - int i)) (int i) arr;
                 Some (0, M\<lparr>sm_cells := (sm_cells M)(k \<mapsto> x\<lparr>cs_count := cs_count x - 1\<rparr>),
                   sm_arrays := (sm_arrays M)(b \<mapsto> arr1), sm_strings := T\<rparr>) }) }) }
   | _ \<Rightarrow> Some (- 1, M))"

definition session_manager_is_subscribed_h :: "session_mem \<Rightarrow> addr option \<Rightarrow> addr option \<Rightarrow> string option \<Rightarrow> bool option" where
  "session_manager_is_subscribed_h M p c' sy' = (case (p, c', sy') of
     (Some a, Some c, Some sy) \<Rightarrow> do {
       s \<leftarrow> sm_structs M a;
       found \<leftarrow> find_session_h M s c;
       (case found of None \<Rightarrow> Some False
        | Some (prev, k) \<Rightarrow> do {
            x \<leftarrow> sm_cells M k;
            slots \<leftarrow> used_slots M x;
            i \<leftarrow> find_string (sm_strings M) slots sy;
            Some (i \<noteq> None) }) }
   | _ \<Rightarrow> Some False)"

text \<open>
  The loop that collects the subscribers of a symbol; \<open>acc\<close> is what is in the caller's array. It stops when the array, of
  \<open>max_clients\<close> slots, is full.
\<close>

partial_function (option) subscribers_loop :: "session_mem \<Rightarrow> string \<Rightarrow> int \<Rightarrow> addr list \<Rightarrow> addr option \<Rightarrow> addr list option" where
  [code]: "subscribers_loop M sy max_clients acc current = (case current of None \<Rightarrow> Some acc
     | Some k \<Rightarrow> if max_clients \<le> int (length acc) then Some acc
         else do {
           x \<leftarrow> sm_cells M k;
           slots \<leftarrow> used_slots M x;
           i \<leftarrow> find_string (sm_strings M) slots sy;
           subscribers_loop M sy max_clients (if i \<noteq> None then acc @ [cs_client x] else acc) (cs_next x) })"

definition session_manager_get_subscribers_h ::
  "session_mem \<Rightarrow> addr option \<Rightarrow> string option \<Rightarrow> bool \<Rightarrow> int \<Rightarrow> (int \<times> addr list) option" where
  "session_manager_get_subscribers_h M p sy' clients max_clients = (case (p, sy') of
     (Some a, Some sy) \<Rightarrow>
       if \<not> clients \<or> max_clients \<le> 0 then Some (- 1, [])
       else do {
         s \<leftarrow> sm_structs M a;
         cs \<leftarrow> subscribers_loop M sy max_clients [] (ms_sessions s);
         Some (int (length cs), cs) }
   | _ \<Rightarrow> Some (- 1, []))"

text \<open>The loop of the cleanup: the memory, the head pointer and the count; \<open>prev\<close> stays when a session is taken out.\<close>

partial_function (option) cleanup_loop ::
  "int \<Rightarrow> int \<Rightarrow> session_mem \<Rightarrow> addr option \<Rightarrow> int \<Rightarrow> addr option \<Rightarrow> addr option \<Rightarrow> (session_mem \<times> addr option \<times> int) option" where
  [code]: "cleanup_loop now timeout M hd_ptr n prev current = (case current of None \<Rightarrow> Some (M, hd_ptr, n)
     | Some k \<Rightarrow> do {
         c \<leftarrow> sm_cells M k;
         if timeout < int64 (int64 (now - cs_last_ping c) * 1000) then do {
           r \<leftarrow> drop_session M hd_ptr prev k;
           cleanup_loop now timeout (fst r) (fst (snd r)) (n - 1) prev (snd (snd r)) }
         else cleanup_loop now timeout M hd_ptr n (Some k) (cs_next c) })"

definition session_manager_cleanup_sessions_h :: "int \<Rightarrow> session_mem \<Rightarrow> addr option \<Rightarrow> session_mem option" where
  "session_manager_cleanup_sessions_h now M p = (case p of None \<Rightarrow> Some M
     | Some a \<Rightarrow> do {
         s \<leftarrow> sm_structs M a;
         (M1, hd1, n) \<leftarrow> cleanup_loop now (ms_timeout s) M (ms_sessions s) (ms_count s) None (ms_sessions s);
         Some (M1\<lparr>sm_structs := (sm_structs M1)(a \<mapsto> s\<lparr>ms_sessions := hd1, ms_count := n\<rparr>)\<rparr>) })"

partial_function (option) ping_loop ::
  "(nat \<Rightarrow> int) \<Rightarrow> (addr \<rightharpoonup> session_cell) \<Rightarrow> addr option \<Rightarrow> nat \<Rightarrow> (addr \<rightharpoonup> session_cell) option" where
  [code]: "ping_loop now C current i = (case current of None \<Rightarrow> Some C
     | Some k \<Rightarrow> do { c \<leftarrow> C k; ping_loop now (C(k \<mapsto> c\<lparr>cs_last_ping := now i\<rparr>)) (cs_next c) (Suc i) })"

definition session_manager_ping_clients_h :: "(nat \<Rightarrow> int) \<Rightarrow> session_mem \<Rightarrow> addr option \<Rightarrow> session_mem option" where
  "session_manager_ping_clients_h now M p = (case p of None \<Rightarrow> Some M
     | Some a \<Rightarrow> do {
         s \<leftarrow> sm_structs M a;
         C \<leftarrow> ping_loop now (sm_cells M) (ms_sessions s) 0;
         Some (M\<lparr>sm_cells := C\<rparr>) })"

partial_function (option) destroy_sessions :: "session_mem \<Rightarrow> addr option \<Rightarrow> session_mem option" where
  [code]: "destroy_sessions M current = (case current of None \<Rightarrow> Some M
     | Some k \<Rightarrow> do {
         c \<leftarrow> sm_cells M k;
         r \<leftarrow> free_subscriptions (sm_arrays M) (sm_strings M) (cs_symbols c) (cs_count c);
         C \<leftarrow> free_cell (sm_cells M) k;
         destroy_sessions (M\<lparr>sm_cells := C, sm_arrays := fst r, sm_strings := snd r\<rparr>) (cs_next c) })"

definition session_manager_destroy :: "session_mem \<Rightarrow> addr option \<Rightarrow> session_mem option" where
  "session_manager_destroy M p = (case p of None \<Rightarrow> Some M
     | Some a \<Rightarrow> do {
         s \<leftarrow> sm_structs M a;
         M1 \<leftarrow> destroy_sessions M (ms_sessions s);
         S \<leftarrow> free_cell (sm_structs M1) a;
         Some (M1\<lparr>sm_structs := S\<rparr>) })"

end
