(* ===== verification/Session_Heap_Facts.thy ===== *)
theory Session_Heap_Facts
  imports Session_Heap "HOL-Library.Multiset"
begin

text \<open>
  What the operations of \<open>Session_Heap\<close> do to a memory that holds a session manager: each of them does what the
  operation on lists does, and the memory that is not the manager's is never touched.
\<close>

section \<open>Owned blocks\<close>

text \<open>The blocks \<open>ks\<close> of the heap \<open>H\<close> are live and were free in \<open>H0\<close>; the rest is as in \<open>H0\<close>.\<close>

definition owned :: "(addr \<rightharpoonup> 'a) \<Rightarrow> (addr \<rightharpoonup> 'a) \<Rightarrow> addr list \<Rightarrow> bool" where
  "owned H0 H ks \<longleftrightarrow> distinct ks \<and> (\<forall>k \<in> set ks. H0 k = None \<and> H k \<noteq> None) \<and> (\<forall>k. k \<notin> set ks \<longrightarrow> H k = H0 k)"

lemma owned_Nil [simp]: "owned H0 H [] \<longleftrightarrow> H = H0"
  by (auto simp: owned_def)

lemma owned_finite: "owned H0 H ks \<Longrightarrow> finite (dom H0) \<Longrightarrow> finite (dom H)"
  by (rule finite_subset [of _ "dom H0 \<union> set ks"]) (auto simp: owned_def)

lemma owned_perm: "owned H0 H ks \<Longrightarrow> mset ks' = mset ks \<Longrightarrow> owned H0 H ks'"
  using mset_eq_setD [of ks' ks] mset_eq_imp_distinct_iff [of ks' ks] by (simp add: owned_def)

lemma owned_new: "owned H0 H ks \<Longrightarrow> H k = None \<Longrightarrow> owned H0 (H(k \<mapsto> v)) (k # ks)"
  by (auto simp: owned_def)

lemma owned_upd: "owned H0 H ks \<Longrightarrow> k \<in> set ks \<Longrightarrow> owned H0 (H(k \<mapsto> v)) ks"
  by (auto simp: owned_def)

lemma owned_free: "owned H0 H (k # ks) \<Longrightarrow> free_cell H k = Some (H(k := None)) \<and> owned H0 (H(k := None)) ks"
  by (auto simp: owned_def free_cell_def)

lemma owned_free_ptrs:
  "owned H0 H (ts @ ks) \<Longrightarrow> \<exists>H1. free_ptrs H (map Some ts) = Some H1 \<and> owned H0 H1 ks \<and> (\<forall>k. k \<notin> set ts \<longrightarrow> H1 k = H k)"
proof (induction ts arbitrary: H)
  case (Cons t ts)
  have f: "free_cell H t = Some (H(t := None))" "owned H0 (H(t := None)) (ts @ ks)"
    using owned_free [of H0 H t "ts @ ks"] Cons.prems by simp_all
  obtain H1 where "free_ptrs (H(t := None)) (map Some ts) = Some H1" "owned H0 H1 ks" "\<forall>k. k \<notin> set ts \<longrightarrow> H1 k = (H(t := None)) k"
    using Cons.IH [OF f(2)] by blast
  with f(1) show ?case by (auto simp: free_ptr_def)
qed simp

section \<open>Sessions and their subscriptions\<close>

text \<open>
  A ghost list has for each session the address of its array, the addresses of its symbols, and the session.
\<close>

type_synonym ghost = "(addr \<times> addr list) \<times> ClientSession"

abbreviation array_of :: "ghost \<Rightarrow> addr" where
  "array_of z \<equiv> fst (fst z)"

abbreviation strings_of :: "ghost \<Rightarrow> addr list" where
  "strings_of z \<equiv> snd (fst z)"

definition cell_val :: "session_cell \<Rightarrow> addr \<times> int \<times> addr option \<times> int" where
  "cell_val c = (cs_client c, cs_last_ping c, cs_symbols c, cs_count c)"

definition ghost_val :: "ghost \<Rightarrow> addr \<times> int \<times> addr option \<times> int" where
  "ghost_val z = (s_client (snd z), last_ping_time (snd z), Some (array_of z), int (length (strings_of z)))"

definition subs_at :: "(addr \<rightharpoonup> addr option list) \<Rightarrow> (addr \<rightharpoonup> string) \<Rightarrow> ghost \<Rightarrow> bool" where
  "subs_at A T z \<longleftrightarrow> (\<exists>arr. A (array_of z) = Some arr \<and> length arr = MAX_SUBSCRIPTIONS \<and> length (strings_of z) \<le> MAX_SUBSCRIPTIONS \<and>
     take (length (strings_of z)) arr = map Some (strings_of z)) \<and> map T (strings_of z) = map Some (subscribed_symbols (snd z))"

definition subs_own :: "session_mem \<Rightarrow> session_mem \<Rightarrow> ghost list \<Rightarrow> bool" where
  "subs_own M0 M Z \<longleftrightarrow> owned (sm_arrays M0) (sm_arrays M) (map array_of Z) \<and>
     owned (sm_strings M0) (sm_strings M) (concat (map strings_of Z)) \<and> (\<forall>z \<in> set Z. subs_at (sm_arrays M) (sm_strings M) z)"

lemma subs_at_cong:
  "subs_at A T z \<Longrightarrow> A' (array_of z) = A (array_of z) \<Longrightarrow> (\<And>t. t \<in> set (strings_of z) \<Longrightarrow> T' t = T t) \<Longrightarrow> subs_at A' T' z"
  by (auto simp: subs_at_def cong: map_cong)

lemma subs_own_cells [simp]: "subs_own M0 (M\<lparr>sm_cells := C\<rparr>) Z \<longleftrightarrow> subs_own M0 M Z"
  "subs_own M0 (M\<lparr>sm_structs := S\<rparr>) Z \<longleftrightarrow> subs_own M0 M Z"
  by (simp_all add: subs_own_def)

lemma subs_own_split:
  assumes "subs_own M0 M (Z1 @ z # Z2)"
  shows "owned (sm_arrays M0) (sm_arrays M) (array_of z # map array_of (Z1 @ Z2))"
    "owned (sm_strings M0) (sm_strings M) (strings_of z @ concat (map strings_of (Z1 @ Z2)))"
    "subs_at (sm_arrays M) (sm_strings M) z" "\<forall>y \<in> set (Z1 @ Z2). subs_at (sm_arrays M) (sm_strings M) y"
    "\<And>y. y \<in> set (Z1 @ Z2) \<Longrightarrow> array_of y \<noteq> array_of z" "\<And>t y. t \<in> set (strings_of z) \<Longrightarrow> y \<in> set (Z1 @ Z2) \<Longrightarrow> t \<notin> set (strings_of y)"
proof -
  show a: "owned (sm_arrays M0) (sm_arrays M) (array_of z # map array_of (Z1 @ Z2))"
    by (rule owned_perm [of _ _ "map array_of (Z1 @ z # Z2)"]) (use assms in \<open>simp_all add: subs_own_def\<close>)
  show t: "owned (sm_strings M0) (sm_strings M) (strings_of z @ concat (map strings_of (Z1 @ Z2)))"
    by (rule owned_perm [of _ _ "concat (map strings_of (Z1 @ z # Z2))"]) (use assms in \<open>simp_all add: subs_own_def\<close>)
  show "\<And>y. y \<in> set (Z1 @ Z2) \<Longrightarrow> array_of y \<noteq> array_of z"
    using a unfolding owned_def distinct.simps list.set_map by (metis imageI list.simps(9))
  show "\<And>t y. t \<in> set (strings_of z) \<Longrightarrow> y \<in> set (Z1 @ Z2) \<Longrightarrow> t \<notin> set (strings_of y)" using t by (auto simp: owned_def)
qed (use assms in \<open>auto simp: subs_own_def\<close>)

text \<open>Freeing the subscriptions of one session.\<close>

lemma free_subscriptions_own:
  assumes "subs_own M0 M (Z1 @ z # Z2)"
  obtains A T where
    "free_subscriptions (sm_arrays M) (sm_strings M) (Some (array_of z)) (int (length (strings_of z))) = Some (A, T)"
    "subs_own M0 (M\<lparr>sm_arrays := A, sm_strings := T\<rparr>) (Z1 @ Z2)"
proof -
  note s = subs_own_split [OF assms]
  let ?b = "array_of z"
  obtain T where T: "free_ptrs (sm_strings M) (map Some (strings_of z)) = Some T"
      "owned (sm_strings M0) T (concat (map strings_of (Z1 @ Z2)))" "\<forall>k. k \<notin> set (strings_of z) \<longrightarrow> T k = sm_strings M k"
    using owned_free_ptrs [OF s(2)] by blast
  have A: "free_cell (sm_arrays M) ?b = Some ((sm_arrays M)(?b := None))"
      "owned (sm_arrays M0) ((sm_arrays M)(?b := None)) (map array_of (Z1 @ Z2))" using owned_free [OF s(1)] by simp_all
  have "subs_at ((sm_arrays M)(?b := None)) T y" if y: "y \<in> set (Z1 @ Z2)" for y
  proof (rule subs_at_cong)
    show "subs_at (sm_arrays M) (sm_strings M) y" using s(4) y by blast
    show "((sm_arrays M)(?b := None)) (array_of y) = sm_arrays M (array_of y)" using s(5) [OF y] by simp
    show "T t = sm_strings M t" if "t \<in> set (strings_of y)" for t using s(6) [OF _ y] T(3) that by blast
  qed
  then have "subs_own M0 (M\<lparr>sm_arrays := (sm_arrays M)(?b := None), sm_strings := T\<rparr>) (Z1 @ Z2)"
    using A(2) T(2) by (simp add: subs_own_def)
  moreover have "free_subscriptions (sm_arrays M) (sm_strings M) (Some ?b) (int (length (strings_of z))) =
      Some ((sm_arrays M)(?b := None), T)"
    using s(3) T(1) A(1) by (auto simp: free_subscriptions_def subs_at_def free_ptr_def)
  ultimately show thesis using that by blast
qed

text \<open>Writing to the subscriptions of one session.\<close>

lemma subs_own_write:
  assumes "subs_own M0 M (Z1 @ z # Z2)" "array_of z' = array_of z"
    and T: "owned (sm_strings M0) T (strings_of z' @ concat (map strings_of (Z1 @ Z2)))"
      "\<And>y t. y \<in> set (Z1 @ Z2) \<Longrightarrow> t \<in> set (strings_of y) \<Longrightarrow> T t = sm_strings M t"
    and "subs_at ((sm_arrays M)(array_of z \<mapsto> arr)) T z'"
  shows "subs_own M0 (M\<lparr>sm_arrays := (sm_arrays M)(array_of z \<mapsto> arr), sm_strings := T\<rparr>) (Z1 @ z' # Z2)"
proof -
  note s = subs_own_split [OF assms(1)]
  have "owned (sm_arrays M0) ((sm_arrays M)(array_of z \<mapsto> arr)) (map array_of (Z1 @ z' # Z2))"
    by (rule owned_perm [OF owned_upd [OF s(1)]]) (simp_all add: assms(2))
  moreover have "owned (sm_strings M0) T (concat (map strings_of (Z1 @ z' # Z2)))"
    by (rule owned_perm [OF T(1)]) simp
  moreover have "subs_at ((sm_arrays M)(array_of z \<mapsto> arr)) T y" if y: "y \<in> set (Z1 @ Z2)" for y
  proof (rule subs_at_cong)
    show "subs_at (sm_arrays M) (sm_strings M) y" using s(4) y by blast
    show "((sm_arrays M)(array_of z \<mapsto> arr)) (array_of y) = sm_arrays M (array_of y)" using s(5) [OF y] by simp
    show "T t = sm_strings M t" if "t \<in> set (strings_of y)" for t using T(2) y that by blast
  qed
  ultimately show ?thesis using assms(5) by (auto simp: subs_own_def)
qed

section \<open>The list of sessions\<close>

lemma cell_val_set_next: "cell_val (set_next n c) = cell_val c"
  by (simp add: cell_val_def set_next_def)

interpretation session_cells: linked_cells cs_next set_next cell_val
  by unfold_locales (simp_all add: cell_val_def set_next_def)

definition held :: "session_mem \<Rightarrow> session_mem \<Rightarrow> addr option \<Rightarrow> addr list \<Rightarrow> ghost list \<Rightarrow> bool" where
  "held M0 M q as Z \<longleftrightarrow> list_on_heap cs_next cell_val (sm_cells M0) (sm_cells M) q as (map ghost_val Z) \<and> subs_own M0 M Z"

lemma held_structs [simp]: "held M0 (M\<lparr>sm_structs := S\<rparr>) q as Z \<longleftrightarrow> held M0 M q as Z"
  by (simp add: held_def)

lemma held_length: "held M0 M q as Z \<Longrightarrow> length as = length Z"
  using list_on_heap_length by (fastforce simp: held_def)

lemma find_index_map: "find_index P (map f xs) = find_index (\<lambda>x. P (f x)) xs"
  by (induction xs) auto

lemma held_find:
  assumes "held M0 M q as Z"
  shows "find_prev cs_next (\<lambda>x. cs_client x = c) (sm_cells M) None q =
    Some (map_option (\<lambda>i. ((None # map Some as) ! i, as ! i)) (find_index (\<lambda>s. s_client s = c) (map snd Z)))"
proof -
  have "find_prev cs_next (\<lambda>x. fst (cell_val x) = c) (sm_cells M) None q =
      Some (map_option (\<lambda>i. ((None # map Some as) ! i, as ! i)) (find_index (\<lambda>v. fst v = c) (map ghost_val Z)))"
    by (rule session_cells.stored_find [of "sm_cells M0"]) (use assms in \<open>simp add: held_def\<close>)
  then show ?thesis by (simp add: cell_val_def find_index_map ghost_val_def)
qed

lemma held_cell:
  assumes "held M0 M q as Z" "i < length Z"
  obtains x where "sm_cells M (as ! i) = Some x" "cs_client x = s_client (snd (Z ! i))" "cs_last_ping x = last_ping_time (snd (Z ! i))"
    "cs_symbols x = Some (array_of (Z ! i))" "cs_count x = int (length (strings_of (Z ! i)))"
  using session_cells.stored_nth [of "sm_cells M0" "sm_cells M" q as "map ghost_val Z" i] assms
  by (auto simp: held_def cell_val_def ghost_val_def)

lemma held_drop:
  assumes h: "held M0 M q as Z" and i: "i < length Z"
  shows "\<exists>M1 q1. drop_session M q ((None # map Some as) ! i) (as ! i) = Some (M1, q1, (map Some as @ [None]) ! Suc i) \<and>
    held M0 M1 q1 (take i as @ drop (Suc i) as) (take i Z @ drop (Suc i) Z) \<and> sm_structs M1 = sm_structs M"
proof -
  have l: "list_on_heap cs_next cell_val (sm_cells M0) (sm_cells M) q as (map ghost_val Z)" "i < length (map ghost_val Z)" "i < length as"
    using h i held_length [OF h] by (auto simp: held_def)
  obtain x where x: "sm_cells M (as ! i) = Some x" "cs_symbols x = Some (array_of (Z ! i))" "cs_count x = int (length (strings_of (Z ! i)))"
    using h i by (rule held_cell)
  obtain C q1 where C: "unlink_after set_next (sm_cells M) q ((None # map Some as) ! i) (cs_next x) = Some (C, q1)"
      "C (as ! i) = Some x" "list_on_heap cs_next cell_val (sm_cells M0) (C(as ! i := None)) q1 (take i as @ drop (Suc i) as)
        (take i (map ghost_val Z) @ drop (Suc i) (map ghost_val Z))"
    using session_cells.stored_remove [OF l(1,2) x(1)] by blast
  have nx: "cs_next x = (map Some as @ [None]) ! Suc i"
    using l(1,3) x(1) path_next [of cs_next "sm_cells M" q as i x] by (simp add: list_on_heap_def)
  have "subs_own M0 M (take i Z @ Z ! i # drop (Suc i) Z)" using h i by (simp add: held_def id_take_nth_drop [symmetric])
  then obtain A T where A: "free_subscriptions (sm_arrays M) (sm_strings M) (Some (array_of (Z ! i))) (int (length (strings_of (Z ! i)))) = Some (A, T)"
      "subs_own M0 (M\<lparr>sm_arrays := A, sm_strings := T\<rparr>) (take i Z @ drop (Suc i) Z)"
    by (rule free_subscriptions_own)
  let ?M = "M\<lparr>sm_cells := C(as ! i := None), sm_arrays := A, sm_strings := T\<rparr>"
  have "drop_session M q ((None # map Some as) ! i) (as ! i) = Some (?M, q1, cs_next x)"
    using x C(1,2) A(1) by (simp add: drop_session_def free_cell_def)
  moreover have "held M0 ?M q1 (take i as @ drop (Suc i) as) (take i Z @ drop (Suc i) Z)"
    using C(3) A(2) by (simp add: held_def subs_own_def take_map drop_map)
  ultimately show ?thesis using nx by simp
qed

section \<open>The manager\<close>

text \<open>The manager \<open>m\<close> is at \<open>p\<close>; without it the memory is \<open>M0\<close>.\<close>

definition sessions_at :: "session_mem \<Rightarrow> addr option \<Rightarrow> session_mem \<Rightarrow> SessionManager \<Rightarrow> bool" where
  "sessions_at M0 p M m \<longleftrightarrow> (\<exists>a s as Z. p = Some a \<and> sm_structs M0 a = None \<and> sm_structs M = (sm_structs M0)(a \<mapsto> s) \<and>
     held M0 M (ms_sessions s) as Z \<and> sessions m = map snd Z \<and> ms_count s = session_count m \<and> ms_max s = max_sessions m \<and>
     ms_timeout s = session_timeout_ms m)"

lemma sessions_atE:
  assumes "sessions_at M0 p M m"
  obtains a s as Z where "p = Some a" "sm_structs M0 a = None" "sm_structs M = (sm_structs M0)(a \<mapsto> s)"
     "held M0 M (ms_sessions s) as Z" "sessions m = map snd Z" "ms_count s = session_count m" "ms_max s = max_sessions m"
     "ms_timeout s = session_timeout_ms m"
  using assms unfolding sessions_at_def by blast

lemma sessions_atI:
  "sm_structs M0 a = None \<Longrightarrow> sm_structs M = (sm_structs M0)(a \<mapsto> s) \<Longrightarrow> held M0 M (ms_sessions s) as Z \<Longrightarrow> sessions m = map snd Z \<Longrightarrow>
   ms_count s = session_count m \<Longrightarrow> ms_max s = max_sessions m \<Longrightarrow> ms_timeout s = session_timeout_ms m \<Longrightarrow> sessions_at M0 (Some a) M m"
  unfolding sessions_at_def by blast

lemma find_session_index: "find_session ss c = map_option ((!) ss) (find_index (\<lambda>s. s_client s = c) ss)"
  by (induction ss) (auto simp: option.map_comp comp_def)

lemma unlink_session_index:
  "unlink_session ss c = map_option (\<lambda>i. take i ss @ drop (Suc i) ss) (find_index (\<lambda>s. s_client s = c) ss)"
  by (induction ss) (auto simp: option.map_comp comp_def)

lemma write_session_index:
  "write_session ss c x = (case find_index (\<lambda>s. s_client s = c) ss of None \<Rightarrow> ss | Some i \<Rightarrow> ss[i := x])"
  by (induction ss) (auto simp del: find_index_None split: option.split)

lemma held_push:
  assumes "held M0 M q as Z" "sm_cells M k = None" "sm_arrays M b = None"
  shows "held M0 (M\<lparr>sm_cells := (sm_cells M)(k \<mapsto> \<lparr>cs_client = c, cs_symbols = Some b, cs_count = 0, cs_last_ping = now, cs_next = q\<rparr>),
      sm_arrays := (sm_arrays M)(b \<mapsto> replicate MAX_SUBSCRIPTIONS None)\<rparr>) (Some k) (k # as)
    (((b, []), \<lparr>s_client = c, subscribed_symbols = [], last_ping_time = now\<rparr>) # Z)"
proof -
  have b: "b \<notin> set (map array_of Z)" using assms(1,3) by (auto simp: held_def subs_own_def owned_def)
  have "list_on_heap cs_next cell_val (sm_cells M0) (sm_cells M) q as (map ghost_val Z)" using assms(1) by (simp add: held_def)
  from session_cells.stored_push [OF this assms(2), of "\<lparr>cs_client = c, cs_symbols = Some b, cs_count = 0, cs_last_ping = now, cs_next = q\<rparr>"]
  have "list_on_heap cs_next cell_val (sm_cells M0)
      ((sm_cells M)(k \<mapsto> \<lparr>cs_client = c, cs_symbols = Some b, cs_count = 0, cs_last_ping = now, cs_next = q\<rparr>)) (Some k) (k # as)
      (map ghost_val (((b, []), \<lparr>s_client = c, subscribed_symbols = [], last_ping_time = now\<rparr>) # Z))"
    by (simp add: cell_val_def ghost_val_def)
  moreover have "subs_at ((sm_arrays M)(b \<mapsto> replicate MAX_SUBSCRIPTIONS None)) (sm_strings M) z" if "z \<in> set Z" for z
    by (rule subs_at_cong [of "sm_arrays M" "sm_strings M"]) (use that b assms(1) in \<open>auto simp: held_def subs_own_def\<close>)
  ultimately show ?thesis
    using assms(1) owned_new [of "sm_arrays M0" "sm_arrays M" "map array_of Z" b] assms(3)
    by (auto simp: held_def subs_own_def subs_at_def [of _ _ "((b, []), _)"])
qed

lemma sessions_at_add:
  assumes m: "sessions_at M0 p M m" and alloc: "fresh_alloc cell_alloc" "fresh_alloc array_alloc"
  shows "\<exists>r M1 m1. session_manager_add_client_h cell_alloc array_alloc now M p c' = Some (r, M1) \<and>
    session_manager_add_client (cell_alloc (sm_cells M) \<noteq> None) (array_alloc (sm_arrays M) \<noteq> None) now (Some m) c' = (r, Some m1) \<and>
    sessions_at M0 p M1 m1"
proof (cases c')
  case None
  with m show ?thesis by (auto simp: session_manager_add_client_h_def session_manager_add_client_def split: option.split)
next
  case (Some c)
  obtain a s as Z where a: "p = Some a" "sm_structs M0 a = None" "sm_structs M = (sm_structs M0)(a \<mapsto> s)"
     "held M0 M (ms_sessions s) as Z" "sessions m = map snd Z" "ms_count s = session_count m" "ms_max s = max_sessions m"
     "ms_timeout s = session_timeout_ms m"
    using m by (rule sessions_atE)
  let ?b1 = "cell_alloc (sm_cells M) \<noteq> None" and ?b2 = "array_alloc (sm_arrays M) \<noteq> None"
  have f: "find_session_h M s c = Some (map_option (\<lambda>i. ((None # map Some as) ! i, as ! i)) (find_index (\<lambda>s. s_client s = c) (sessions m)))"
    using held_find [OF a(4)] a(5) by (simp add: find_session_h_def)
  show ?thesis
  proof (cases "session_count m < max_sessions m \<and> find_session (sessions m) c = None \<and> ?b1 \<and> ?b2")
    case False
    have "session_manager_add_client_h cell_alloc array_alloc now M p c' = Some (- 1, M)"
      using False a(1,3,6,7) Some f alloc(1)
      by (auto simp: session_manager_add_client_h_def find_session_index Let_def free_cell_def fresh_alloc_def fun_upd_idem simp del: find_index_None split: option.split)
    moreover have "session_manager_add_client ?b1 ?b2 now (Some m) c' = (- 1, Some m)"
      using False Some by (auto simp: session_manager_add_client_def)
    ultimately show ?thesis using m by blast
  next
    case True
    then obtain k b where k: "cell_alloc (sm_cells M) = Some k" "sm_cells M k = None" "array_alloc (sm_arrays M) = Some b" "sm_arrays M b = None"
      using alloc by (auto simp: fresh_alloc_def)
    let ?s = "s\<lparr>ms_sessions := Some k, ms_count := session_count m + 1\<rparr>"
    let ?m = "m\<lparr>sessions := \<lparr>s_client = c, subscribed_symbols = [], last_ping_time = now\<rparr> # sessions m, session_count := session_count m + 1\<rparr>"
    let ?M = "M\<lparr>sm_cells := (sm_cells M)(k \<mapsto> \<lparr>cs_client = c, cs_symbols = Some b, cs_count = 0, cs_last_ping = now, cs_next = ms_sessions s\<rparr>),
      sm_arrays := (sm_arrays M)(b \<mapsto> replicate MAX_SUBSCRIPTIONS None)\<rparr>"
    have "session_manager_add_client_h cell_alloc array_alloc now M p c' = Some (0, ?M\<lparr>sm_structs := (sm_structs M0)(a \<mapsto> ?s)\<rparr>)"
      using True a(1,3,6,7) Some f k
      by (simp add: session_manager_add_client_h_def find_session_index Let_def set_next_def del: find_index_None)
    moreover have "session_manager_add_client ?b1 ?b2 now (Some m) c' = (0, Some ?m)"
      using True Some by (simp add: session_manager_add_client_def)
    moreover have "held M0 (?M\<lparr>sm_structs := (sm_structs M0)(a \<mapsto> ?s)\<rparr>) (ms_sessions ?s) (k # as)
        (((b, []), \<lparr>s_client = c, subscribed_symbols = [], last_ping_time = now\<rparr>) # Z)"
      using held_push [OF a(4) k(2,4), of c now] by simp
    then have "sessions_at M0 (Some a) (?M\<lparr>sm_structs := (sm_structs M0)(a \<mapsto> ?s)\<rparr>) ?m"
      by (rule sessions_atI [OF a(2), rotated]) (use a(5-8) in simp_all)
    ultimately show ?thesis using a(1) by blast
  qed
qed

lemma sessions_at_remove:
  assumes m: "sessions_at M0 p M m"
  shows "\<exists>r M1 m1. session_manager_remove_client_h M p c' = Some (r, M1) \<and>
    session_manager_remove_client (Some m) c' = (r, Some m1) \<and> sessions_at M0 p M1 m1"
proof (cases c')
  case None
  with m show ?thesis by (auto simp: session_manager_remove_client_h_def session_manager_remove_client_def split: option.split)
next
  case (Some c)
  obtain a s as Z where a: "p = Some a" "sm_structs M0 a = None" "sm_structs M = (sm_structs M0)(a \<mapsto> s)"
     "held M0 M (ms_sessions s) as Z" "sessions m = map snd Z" "ms_count s = session_count m" "ms_max s = max_sessions m"
     "ms_timeout s = session_timeout_ms m"
    using m by (rule sessions_atE)
  have f: "find_session_h M s c = Some (map_option (\<lambda>i. ((None # map Some as) ! i, as ! i)) (find_index (\<lambda>s. s_client s = c) (sessions m)))"
    using held_find [OF a(4)] a(5) by (simp add: find_session_h_def)
  show ?thesis
  proof (cases "find_index (\<lambda>s. s_client s = c) (sessions m)")
    case None
    then have "session_manager_remove_client_h M p c' = Some (- 1, M)" "session_manager_remove_client (Some m) c' = (- 1, Some m)"
      using f a(1,3) Some unlink_session_index [of "sessions m" c]
      by (simp_all add: session_manager_remove_client_h_def session_manager_remove_client_def del: find_index_None)
    with m show ?thesis by blast
  next
    case (Some i)
    have i: "i < length Z" using find_index_SomeD [OF Some] a(5) by simp
    obtain M1 q1 where M1: "drop_session M (ms_sessions s) ((None # map Some as) ! i) (as ! i) = Some (M1, q1, (map Some as @ [None]) ! Suc i)"
        "held M0 M1 q1 (take i as @ drop (Suc i) as) (take i Z @ drop (Suc i) Z)" "sm_structs M1 = sm_structs M"
      using held_drop [OF a(4) i] by blast
    let ?s = "s\<lparr>ms_sessions := q1, ms_count := session_count m - 1\<rparr>"
    let ?m = "m\<lparr>sessions := take i (sessions m) @ drop (Suc i) (sessions m), session_count := session_count m - 1\<rparr>"
    let ?M = "M1\<lparr>sm_structs := (sm_structs M0)(a \<mapsto> ?s)\<rparr>"
    have "session_manager_remove_client_h M p c' = Some (0, ?M)" "session_manager_remove_client (Some m) c' = (0, Some ?m)"
      using f Some a(1,3,6) M1(1,3) \<open>c' = Some c\<close> unlink_session_index [of "sessions m" c]
      by (simp_all add: session_manager_remove_client_h_def session_manager_remove_client_def)
    moreover have "held M0 ?M (ms_sessions ?s) (take i as @ drop (Suc i) as) (take i Z @ drop (Suc i) Z)" using M1(2) by simp
    then have "sessions_at M0 (Some a) ?M ?m"
      by (rule sessions_atI [OF a(2), rotated]) (use a(5-8) in \<open>simp_all add: take_map drop_map\<close>)
    ultimately show ?thesis using a(1) by blast
  qed
qed

section \<open>Subscribing\<close>

lemma find_string_index: "map T ts = map Some syms \<Longrightarrow> find_string T (map Some ts) sy = Some (find_index (\<lambda>x. x = sy) syms)"
proof (induction ts arbitrary: syms)
  case (Cons t ts)
  then show ?case by (cases syms) auto
qed simp

lemma used_slots_at:
  "subs_at (sm_arrays M) (sm_strings M) z \<Longrightarrow> cs_symbols x = Some (array_of z) \<Longrightarrow> cs_count x = int (length (strings_of z)) \<Longrightarrow>
   used_slots M x = Some (map Some (strings_of z))"
  by (auto simp: used_slots_def subs_at_def)

lemma shift_down_effect:
  "j + k < length arr \<Longrightarrow> shift_down k (int j) arr = Some (take j arr @ take k (drop (Suc j) arr) @ drop (j + k) arr)"
proof (induction k arbitrary: j arr)
  case (Suc k)
  let ?arr = "arr[j := arr ! Suc j]"
  have "take (Suc j) ?arr = take j arr @ [arr ! Suc j]" using Suc.prems by (simp add: take_Suc_conv_app_nth)
  moreover have "take (Suc k) (drop (Suc j) arr) = arr ! Suc j # take k (drop (Suc (Suc j)) arr)"
    using Suc.prems by (simp add: Cons_nth_drop_Suc [symmetric])
  moreover have "shift_down k (int (Suc j)) ?arr = Some (take (Suc j) ?arr @ take k (drop (Suc (Suc j)) ?arr) @ drop (Suc j + k) ?arr)"
    by (rule Suc.IH) (use Suc.prems in simp)
  moreover have "shift_down (Suc k) (int j) arr = shift_down k (int (Suc j)) ?arr"
    using Suc.prems by (simp add: nat_add_distrib ac_simps)
  ultimately show ?case by simp
qed simp

lemma held_write:
  assumes h: "held M0 M q as Z" and i: "i < length Z" and x: "sm_cells M (as ! i) = Some x" "cs_next x' = cs_next x" "cell_val x' = ghost_val z'"
    and z': "array_of z' = array_of (Z ! i)" "subs_at ((sm_arrays M)(array_of z' \<mapsto> arr)) T z'"
    and T: "owned (sm_strings M0) T (strings_of z' @ concat (map strings_of (take i Z @ drop (Suc i) Z)))"
      "\<And>y t. y \<in> set (take i Z @ drop (Suc i) Z) \<Longrightarrow> t \<in> set (strings_of y) \<Longrightarrow> T t = sm_strings M t"
  shows "held M0 (M\<lparr>sm_cells := (sm_cells M)(as ! i \<mapsto> x'), sm_arrays := (sm_arrays M)(array_of (Z ! i) \<mapsto> arr), sm_strings := T\<rparr>) q as (Z[i := z'])"
proof -
  have "list_on_heap cs_next cell_val (sm_cells M0) ((sm_cells M)(as ! i \<mapsto> x')) q as ((map ghost_val Z)[i := cell_val x'])"
    by (rule session_cells.stored_update [where h = "sm_cells M", OF _ _ x(1,2)]) (use h i in \<open>simp_all add: held_def\<close>)
  moreover have "subs_own M0 M (take i Z @ Z ! i # drop (Suc i) Z)" using h i by (simp add: held_def id_take_nth_drop [symmetric])
  from subs_own_write [OF this z'(1) T] z'(2)
  have "subs_own M0 (M\<lparr>sm_arrays := (sm_arrays M)(array_of (Z ! i) \<mapsto> arr), sm_strings := T\<rparr>) (Z[i := z'])"
    using i by (simp add: upd_conv_take_nth_drop z'(1))
  ultimately show ?thesis using x(3) by (simp add: held_def subs_own_def map_update)
qed

lemma shifted_slots:
  assumes "take (length ts) arr = map Some ts" "j < length ts"
  shows "length (take j arr @ take (length ts - 1 - j) (drop (Suc j) arr) @ drop (length ts - 1) arr) = length arr"
    "take (length ts - 1) (take j arr @ take (length ts - 1 - j) (drop (Suc j) arr) @ drop (length ts - 1) arr) =
      map Some (take j ts @ drop (Suc j) ts)"
proof -
  have n: "length ts \<le> length arr" using assms(1) by (metis length_map length_take min.cobounded1)
  show "length (take j arr @ take (length ts - 1 - j) (drop (Suc j) arr) @ drop (length ts - 1) arr) = length arr"
    using n assms(2) by simp
  have "take j arr = map Some (take j ts)" using assms by (metis less_imp_le_nat min.absorb1 take_map take_take)
  moreover have "take (length ts - 1 - j) (drop (Suc j) arr) = map Some (drop (Suc j) ts)"
    using assms(1) by (metis diff_diff_add drop_map drop_take plus_1_eq_Suc)
  ultimately show "take (length ts - 1) (take j arr @ take (length ts - 1 - j) (drop (Suc j) arr) @ drop (length ts - 1) arr) =
      map Some (take j ts @ drop (Suc j) ts)" using assms(2) by simp
qed

lemma shift_down_slots:
  assumes "j < n" "n \<le> length arr"
  shows "shift_down (nat (int n - 1 - int j)) (int j) arr = Some (take j arr @ take (n - 1 - j) (drop (Suc j) arr) @ drop (n - 1) arr)"
proof -
  have "nat (int n - 1 - int j) = n - 1 - j" "j + (n - 1 - j) = n - 1" "n - 1 < length arr" using assms by linarith+
  with shift_down_effect [of j "n - 1 - j" arr] show ?thesis by simp
qed

text \<open>The parts of a session of the list.\<close>

lemma held_sessionE:
  assumes h: "held M0 M q as Z" and i: "i < length Z"
  obtains x b ts s arr where "Z ! i = ((b, ts), s)" "sm_cells M (as ! i) = Some x" "cell_val x = ghost_val (Z ! i)"
    "cs_symbols x = Some b" "cs_count x = int (length ts)"
    "sm_arrays M b = Some arr" "length arr = MAX_SUBSCRIPTIONS" "length ts \<le> MAX_SUBSCRIPTIONS" "take (length ts) arr = map Some ts"
    "map (sm_strings M) ts = map Some (subscribed_symbols s)" "used_slots M x = Some (map Some ts)"
    "owned (sm_strings M0) (sm_strings M) (ts @ concat (map strings_of (take i Z @ drop (Suc i) Z)))"
proof -
  obtain b ts s where z: "Z ! i = ((b, ts), s)" by (metis prod.collapse)
  obtain x where x: "sm_cells M (as ! i) = Some x" "cell_val x = ghost_val (Z ! i)"
    using session_cells.stored_nth [of "sm_cells M0" "sm_cells M" q as "map ghost_val Z" i] h i by (auto simp: held_def)
  have x': "cs_symbols x = Some b" "cs_count x = int (length ts)" using x(2) z by (auto simp: cell_val_def ghost_val_def)
  have "subs_own M0 M (take i Z @ Z ! i # drop (Suc i) Z)" using h i by (simp add: held_def id_take_nth_drop [symmetric])
  note own = subs_own_split [OF this]
  obtain arr where "sm_arrays M b = Some arr" "length arr = MAX_SUBSCRIPTIONS" "length ts \<le> MAX_SUBSCRIPTIONS" "take (length ts) arr = map Some ts"
    "map (sm_strings M) ts = map Some (subscribed_symbols s)" using own(3) z by (auto simp: subs_at_def)
  with that [OF z x x'] own(2,3) z x' used_slots_at [OF own(3), of x] show thesis by simp
qed

lemma held_subscribe:
  assumes h: "held M0 M q as Z" and i: "i < length Z" and z: "Z ! i = ((b, ts), s)" and x: "sm_cells M (as ! i) = Some x"
    and arr: "sm_arrays M b = Some arr" and n: "length ts < MAX_SUBSCRIPTIONS" and t: "sm_strings M t = None"
  shows "held M0 (M\<lparr>sm_cells := (sm_cells M)(as ! i \<mapsto> x\<lparr>cs_count := int (length ts) + 1\<rparr>), sm_arrays := (sm_arrays M)(b \<mapsto> arr[length ts := Some t]),
      sm_strings := (sm_strings M)(t \<mapsto> sy)\<rparr>) q as (Z[i := ((b, ts @ [t]), s\<lparr>subscribed_symbols := subscribed_symbols s @ [sy]\<rparr>)])"
proof -
  obtain p: "cell_val x = ghost_val (Z ! i)" "length arr = MAX_SUBSCRIPTIONS" "take (length ts) arr = map Some ts"
      "map (sm_strings M) ts = map Some (subscribed_symbols s)" 
      "owned (sm_strings M0) (sm_strings M) (ts @ concat (map strings_of (take i Z @ drop (Suc i) Z)))"
    by (rule held_sessionE [OF h i]) (use z x arr in auto)
  let ?rest = "concat (map strings_of (take i Z @ drop (Suc i) Z))" and ?z = "((b, ts @ [t]), s\<lparr>subscribed_symbols := subscribed_symbols s @ [sy]\<rparr>)"
  have new: "t \<notin> set (ts @ ?rest)" using p(5) t unfolding owned_def by blast
  have "owned (sm_strings M0) ((sm_strings M)(t \<mapsto> sy)) (strings_of ?z @ ?rest)"
    by (rule owned_perm [OF owned_new [OF p(5) t, of sy]]) simp
  moreover have "((sm_strings M)(t \<mapsto> sy)) k = sm_strings M k" if "y \<in> set (take i Z @ drop (Suc i) Z)" "k \<in> set (strings_of y)" for y k
    using that new by auto
  moreover have "map ((sm_strings M)(t \<mapsto> sy)) ts = map Some (subscribed_symbols s)" using p(4) new by (auto simp flip: p(4))
  then have "subs_at ((sm_arrays M)(array_of ?z \<mapsto> arr[length ts := Some t])) ((sm_strings M)(t \<mapsto> sy)) ?z"
    using p(2,3) n by (simp add: subs_at_def take_Suc_conv_app_nth)
  moreover have "cell_val (x\<lparr>cs_count := int (length ts) + 1\<rparr>) = ghost_val ?z" using p(1) z by (simp add: cell_val_def ghost_val_def)
  ultimately show ?thesis
    using held_write [OF h i x, of "x\<lparr>cs_count := int (length ts) + 1\<rparr>" ?z "arr[length ts := Some t]" "(sm_strings M)(t \<mapsto> sy)"] z by simp
qed

lemma held_unsubscribe:
  assumes h: "held M0 M q as Z" and i: "i < length Z" and z: "Z ! i = ((b, ts), s)" and x: "sm_cells M (as ! i) = Some x"
    and arr: "sm_arrays M b = Some arr" and j: "j < length ts"
  shows "sm_strings M (ts ! j) \<noteq> None \<and>
    held M0 (M\<lparr>sm_cells := (sm_cells M)(as ! i \<mapsto> x\<lparr>cs_count := int (length ts) - 1\<rparr>),
      sm_arrays := (sm_arrays M)(b \<mapsto> take j arr @ take (length ts - 1 - j) (drop (Suc j) arr) @ drop (length ts - 1) arr),
      sm_strings := (sm_strings M)(ts ! j := None)\<rparr>) q as
      (Z[i := ((b, take j ts @ drop (Suc j) ts), s\<lparr>subscribed_symbols := take j (subscribed_symbols s) @ drop (Suc j) (subscribed_symbols s)\<rparr>)])"
proof -
  obtain p: "cell_val x = ghost_val (Z ! i)" "length arr = MAX_SUBSCRIPTIONS" "length ts \<le> MAX_SUBSCRIPTIONS" "take (length ts) arr = map Some ts"
      "map (sm_strings M) ts = map Some (subscribed_symbols s)"
      "owned (sm_strings M0) (sm_strings M) (ts @ concat (map strings_of (take i Z @ drop (Suc i) Z)))"
    by (rule held_sessionE [OF h i]) (use z x arr in auto)
  let ?rest = "concat (map strings_of (take i Z @ drop (Suc i) Z))" and ?ts = "take j ts @ drop (Suc j) ts"
  let ?z = "((b, ?ts), s\<lparr>subscribed_symbols := take j (subscribed_symbols s) @ drop (Suc j) (subscribed_symbols s)\<rparr>)"
  let ?arr = "take j arr @ take (length ts - 1 - j) (drop (Suc j) arr) @ drop (length ts - 1) arr" and ?T = "(sm_strings M)(ts ! j := None)"
  have "mset ts = mset (ts ! j # ?ts)" by (subst id_take_nth_drop [OF j]) simp
  then have o: "owned (sm_strings M0) (sm_strings M) (ts ! j # ?ts @ ?rest)" by (intro owned_perm [OF p(6)]) simp
  then have new: "ts ! j \<notin> set ?ts" "ts ! j \<notin> set ?rest" by (auto simp: owned_def)
  have "owned (sm_strings M0) ?T (strings_of ?z @ ?rest)" using owned_free [OF o] by simp
  moreover have "?T k = sm_strings M k" if "y \<in> set (take i Z @ drop (Suc i) Z)" "k \<in> set (strings_of y)" for y k
    using that new(2) by auto
  moreover have "map ?T ?ts = map (sm_strings M) ?ts" using new(1) by auto
  then have "map ?T ?ts = map Some (subscribed_symbols (snd ?z))"
    by (simp only: map_append take_map [symmetric] drop_map [symmetric] p(5)) (simp add: take_map drop_map)
  then have "subs_at ((sm_arrays M)(array_of ?z \<mapsto> ?arr)) ?T ?z"
    using p(2-4) j shifted_slots [OF p(4) j] by (simp add: subs_at_def)
  moreover have "cell_val (x\<lparr>cs_count := int (length ts) - 1\<rparr>) = ghost_val ?z" using p(1) z j by (simp add: cell_val_def ghost_val_def)
  moreover have "sm_strings M (ts ! j) \<noteq> None" using o by (auto simp: owned_def)
  ultimately show ?thesis
    using held_write [OF h i x, of "x\<lparr>cs_count := int (length ts) - 1\<rparr>" ?z ?arr ?T] z by simp
qed

text \<open>Looking a client up, on the heap and in the list.\<close>

lemma sessions_at_lookup:
  assumes m: "sessions_at M0 p M m"
  obtains a s as Z where "p = Some a" "sm_structs M a = Some s" "sm_structs M0 a = None" "sm_structs M = (sm_structs M0)(a \<mapsto> s)"
     "held M0 M (ms_sessions s) as Z" "sessions m = map snd Z" "ms_count s = session_count m" "ms_max s = max_sessions m"
     "ms_timeout s = session_timeout_ms m"
     "\<forall>c. find_session_h M s c = Some (map_option (\<lambda>i. ((None # map Some as) ! i, as ! i)) (find_index (\<lambda>s. s_client s = c) (sessions m)))"
proof -
  obtain a s as Z where a: "p = Some a" "sm_structs M0 a = None" "sm_structs M = (sm_structs M0)(a \<mapsto> s)"
     "held M0 M (ms_sessions s) as Z" "sessions m = map snd Z" "ms_count s = session_count m" "ms_max s = max_sessions m"
     "ms_timeout s = session_timeout_ms m"
    using m by (rule sessions_atE)
  show thesis by (rule that [OF a(1) _ a(2-8)]) (use a(3,5) held_find [OF a(4)] in \<open>simp_all add: find_session_h_def\<close>)
qed

lemma sessions_at_write:
  assumes "sm_structs M0 a = None" "sm_structs M = (sm_structs M0)(a \<mapsto> s)" "held M0 M1 (ms_sessions s) as (Z[i := z])" "sm_structs M1 = sm_structs M"
    "sessions m = map snd Z" "ms_count s = session_count m" "ms_max s = max_sessions m" "ms_timeout s = session_timeout_ms m"
  shows "sessions_at M0 (Some a) M1 (m\<lparr>sessions := (sessions m)[i := snd z]\<rparr>)"
  by (rule sessions_atI [OF assms(1) _ assms(3)]) (use assms in \<open>simp_all add: map_update\<close>)

lemma sessions_at_subscribe:
  assumes m: "sessions_at M0 p M m" and alloc: "fresh_alloc strdup"
  shows "\<exists>r M1 m1. session_manager_subscribe_symbol_h strdup M p c' sy' = Some (r, M1) \<and>
    session_manager_subscribe_symbol (strdup (sm_strings M) \<noteq> None) (Some m) c' sy' = (r, Some m1) \<and> sessions_at M0 p M1 m1"
proof (cases "\<exists>c sy. c' = Some c \<and> sy' = Some sy")
  case False
  with m show ?thesis
    by (auto simp: session_manager_subscribe_symbol_h_def session_manager_subscribe_symbol_def split: option.splits)
next
  case True
  then obtain c sy where cs: "c' = Some c" "sy' = Some sy" by blast
  obtain a s as Z where a: "p = Some a" "sm_structs M a = Some s" "sm_structs M0 a = None" "sm_structs M = (sm_structs M0)(a \<mapsto> s)"
     "held M0 M (ms_sessions s) as Z" "sessions m = map snd Z" "ms_count s = session_count m" "ms_max s = max_sessions m"
     "ms_timeout s = session_timeout_ms m"
     "\<forall>c. find_session_h M s c = Some (map_option (\<lambda>i. ((None # map Some as) ! i, as ! i)) (find_index (\<lambda>s. s_client s = c) (sessions m)))"
    by (rule sessions_at_lookup [OF m])
  let ?t = "strdup (sm_strings M)" and ?f = "find_index (\<lambda>s. s_client s = c) (sessions m)"
  note defs = session_manager_subscribe_symbol_h_def session_manager_subscribe_symbol_def find_session_index write_session_index
  show ?thesis
  proof (cases ?f)
    case None
    with a(1,2,10) cs have "session_manager_subscribe_symbol_h strdup M p c' sy' = Some (- 1, M)"
      "session_manager_subscribe_symbol (?t \<noteq> None) (Some m) c' sy' = (- 1, Some m)" by (simp_all add: defs del: find_index_None)
    with m show ?thesis by blast
  next
    case (Some i)
    have i: "i < length Z" using find_index_SomeD [OF Some] a(6) by simp
    obtain x b ts ss arr where z: "Z ! i = ((b, ts), ss)" "sm_cells M (as ! i) = Some x" "cs_symbols x = Some b" "cs_count x = int (length ts)"
      "sm_arrays M b = Some arr" "length arr = MAX_SUBSCRIPTIONS" "map (sm_strings M) ts = map Some (subscribed_symbols ss)" "used_slots M x = Some (map Some ts)"
      by (rule held_sessionE [OF a(5) i])
    have l: "length (subscribed_symbols ss) = length ts" using z(7) by (metis length_map)
    have ss: "sessions m ! i = ss" using a(6) i z(1) by simp
    note str = find_string_index [OF z(7), of sy]
    show ?thesis
    proof (cases "length ts < MAX_SUBSCRIPTIONS \<and> find_index (\<lambda>x. x = sy) (subscribed_symbols ss) = None \<and> ?t \<noteq> None")
      case False
      let ?r = "if length ts < MAX_SUBSCRIPTIONS \<and> find_index (\<lambda>x. x = sy) (subscribed_symbols ss) \<noteq> None then 0 else - 1"
      have "session_manager_subscribe_symbol_h strdup M p c' sy' = Some (?r, M)"
        using False a(1,2,10) cs Some z(2,4,8) str by (auto simp: defs simp del: find_index_None)
      moreover have "session_manager_subscribe_symbol (?t \<noteq> None) (Some m) c' sy' = (?r, Some m)"
        using False cs Some ss l by (auto simp: defs simp del: find_index_None)
      ultimately show ?thesis using m by blast
    next
      case True
      then obtain t where t: "?t = Some t" "sm_strings M t = None" using alloc by (auto simp: fresh_alloc_def)
      let ?M = "M\<lparr>sm_cells := (sm_cells M)(as ! i \<mapsto> x\<lparr>cs_count := int (length ts) + 1\<rparr>), sm_arrays := (sm_arrays M)(b \<mapsto> arr[length ts := Some t]),
        sm_strings := (sm_strings M)(t \<mapsto> sy)\<rparr>"
      have "session_manager_subscribe_symbol_h strdup M p c' sy' = Some (0, ?M)"
          "session_manager_subscribe_symbol (?t \<noteq> None) (Some m) c' sy' = (0, Some (m\<lparr>sessions := (sessions m)[i := ss\<lparr>subscribed_symbols := subscribed_symbols ss @ [sy]\<rparr>]\<rparr>))"
        using True a(1,2,10) cs Some z(2-6,8) str ss l t(1) by (simp_all add: defs del: find_index_None)
      with sessions_at_write [OF a(3,4) held_subscribe [OF a(5) i z(1,2,5) _ t(2), of sy] _ a(6-9)] True a(1) show ?thesis by fastforce
    qed
  qed
qed

lemma sessions_at_unsubscribe:
  assumes m: "sessions_at M0 p M m"
  shows "\<exists>r M1 m1. session_manager_unsubscribe_symbol_h M p c' sy' = Some (r, M1) \<and>
    session_manager_unsubscribe_symbol (Some m) c' sy' = (r, Some m1) \<and> sessions_at M0 p M1 m1"
proof (cases "\<exists>c sy. c' = Some c \<and> sy' = Some sy")
  case False
  with m show ?thesis
    by (auto simp: session_manager_unsubscribe_symbol_h_def session_manager_unsubscribe_symbol_def split: option.splits)
next
  case True
  then obtain c sy where cs: "c' = Some c" "sy' = Some sy" by blast
  obtain a s as Z where a: "p = Some a" "sm_structs M a = Some s" "sm_structs M0 a = None" "sm_structs M = (sm_structs M0)(a \<mapsto> s)"
     "held M0 M (ms_sessions s) as Z" "sessions m = map snd Z" "ms_count s = session_count m" "ms_max s = max_sessions m"
     "ms_timeout s = session_timeout_ms m"
     "\<forall>c. find_session_h M s c = Some (map_option (\<lambda>i. ((None # map Some as) ! i, as ! i)) (find_index (\<lambda>s. s_client s = c) (sessions m)))"
    by (rule sessions_at_lookup [OF m])
  note defs = session_manager_unsubscribe_symbol_h_def session_manager_unsubscribe_symbol_def find_session_index write_session_index
  show ?thesis
  proof (cases "find_index (\<lambda>s. s_client s = c) (sessions m)")
    case None
    with a(1,2,10) cs have "session_manager_unsubscribe_symbol_h M p c' sy' = Some (- 1, M)"
      "session_manager_unsubscribe_symbol (Some m) c' sy' = (- 1, Some m)" by (simp_all add: defs del: find_index_None)
    with m show ?thesis by blast
  next
    case (Some i)
    have i: "i < length Z" using find_index_SomeD [OF Some] a(6) by simp
    obtain x b ts ss arr where z: "Z ! i = ((b, ts), ss)" "sm_cells M (as ! i) = Some x" "cs_symbols x = Some b" "cs_count x = int (length ts)"
      "sm_arrays M b = Some arr" "length arr = MAX_SUBSCRIPTIONS" "length ts \<le> MAX_SUBSCRIPTIONS" "take (length ts) arr = map Some ts"
      "map (sm_strings M) ts = map Some (subscribed_symbols ss)" "used_slots M x = Some (map Some ts)"
      by (rule held_sessionE [OF a(5) i])
    have l: "length (subscribed_symbols ss) = length ts" using z(9) by (metis length_map)
    have ss: "sessions m ! i = ss" using a(6) i z(1) by simp
    note str = find_string_index [OF z(9), of sy]
    show ?thesis
    proof (cases "find_index (\<lambda>x. x = sy) (subscribed_symbols ss)")
      case None
      then have "session_manager_unsubscribe_symbol_h M p c' sy' = Some (- 1, M)" "session_manager_unsubscribe_symbol (Some m) c' sy' = (- 1, Some m)"
        using a(1,2,10) cs Some z(2,10) str ss by (simp_all add: defs del: find_index_None)
      with m show ?thesis by blast
    next
      case (Some j)
      have j: "j < length ts" using find_index_SomeD [OF Some] l by simp
      have slot: "arr ! j = Some (ts ! j)" using z(8) j by (metis nth_map nth_take)
      have sh: "shift_down (nat (int (length ts) - 1 - int j)) (int j) arr =
          Some (take j arr @ take (length ts - 1 - j) (drop (Suc j) arr) @ drop (length ts - 1) arr)"
        by (rule shift_down_slots) (use j z(6,7) in simp_all)
      note u = held_unsubscribe [OF a(5) i z(1,2,5) j]
      let ?M = "M\<lparr>sm_cells := (sm_cells M)(as ! i \<mapsto> x\<lparr>cs_count := int (length ts) - 1\<rparr>),
        sm_arrays := (sm_arrays M)(b \<mapsto> take j arr @ take (length ts - 1 - j) (drop (Suc j) arr) @ drop (length ts - 1) arr),
        sm_strings := (sm_strings M)(ts ! j := None)\<rparr>"
      have "session_manager_unsubscribe_symbol_h M p c' sy' = Some (0, ?M)"
        using Some \<open>find_index (\<lambda>s. s_client s = c) (sessions m) = Some i\<close> a(1,2,10) cs z(2-7,10) str j slot sh u
        by (simp add: defs free_ptr_def free_cell_def)
      moreover have "session_manager_unsubscribe_symbol (Some m) c' sy' = (0, Some (m\<lparr>sessions :=
          (sessions m)[i := ss\<lparr>subscribed_symbols := take j (subscribed_symbols ss) @ drop (Suc j) (subscribed_symbols ss)\<rparr>]\<rparr>))"
        using Some \<open>find_index (\<lambda>s. s_client s = c) (sessions m) = Some i\<close> cs ss by (simp add: defs)
      ultimately show ?thesis using sessions_at_write [OF a(3,4) conjunct2 [OF u] _ a(6-9)] a(1) by fastforce
    qed
  qed
qed

lemma sessions_at_is_subscribed:
  assumes m: "sessions_at M0 p M m"
  shows "session_manager_is_subscribed_h M p c' sy' = Some (session_manager_is_subscribed (Some m) c' sy')"
proof (cases "\<exists>c sy. c' = Some c \<and> sy' = Some sy")
  case False
  then show ?thesis by (auto simp: session_manager_is_subscribed_h_def session_manager_is_subscribed_def split: option.splits)
next
  case True
  then obtain c sy where cs: "c' = Some c" "sy' = Some sy" by blast
  obtain a s as Z where a: "p = Some a" "sm_structs M a = Some s" "held M0 M (ms_sessions s) as Z" "sessions m = map snd Z"
     "\<forall>c. find_session_h M s c = Some (map_option (\<lambda>i. ((None # map Some as) ! i, as ! i)) (find_index (\<lambda>s. s_client s = c) (sessions m)))"
    by (rule sessions_at_lookup [OF m])
  note defs = session_manager_is_subscribed_h_def session_manager_is_subscribed_def find_session_index
  show ?thesis
  proof (cases "find_index (\<lambda>s. s_client s = c) (sessions m)")
    case None
    with a(1,2,5) cs show ?thesis by (simp add: defs del: find_index_None)
  next
    case (Some i)
    have i: "i < length Z" using find_index_SomeD [OF Some] a(4) by simp
    obtain x b ts ss where z: "Z ! i = ((b, ts), ss)" "sm_cells M (as ! i) = Some x"
      "map (sm_strings M) ts = map Some (subscribed_symbols ss)" "used_slots M x = Some (map Some ts)"
      by (rule held_sessionE [OF a(3) i])
    have ss: "sessions m ! i = ss" using a(4) i z(1) by simp
    from find_string_index [OF z(3), of sy] a(1,2,5) cs Some z(2,4) ss show ?thesis by (simp add: defs del: find_index_None)
  qed
qed

text \<open>The sessions from the one at \<open>i\<close> on are still to be looked at.\<close>

lemma subscribers_loop_held:
  assumes "held M0 M q as Z" "i \<le> length Z"
  shows "subscribers_loop M sy k acc ((map Some as @ [None]) ! i) =
    Some (acc @ collect_subscribers (map snd (drop i Z)) sy (nat k - length acc))"
  using assms(2)
proof (induction "length Z - i" arbitrary: i acc)
  case 0
  then show ?case using held_length [OF assms(1)] by (simp add: subscribers_loop.simps nth_append)
next
  case (Suc n)
  then have i: "i < length Z" "i < length as" using held_length [OF assms(1)] by auto
  obtain x b ts ss where x: "Z ! i = ((b, ts), ss)" "sm_cells M (as ! i) = Some x" "cell_val x = ghost_val (Z ! i)"
    "map (sm_strings M) ts = map Some (subscribed_symbols ss)" "used_slots M x = Some (map Some ts)"
    by (rule held_sessionE [OF assms(1) i(1)])
  have nx: "cs_next x = (map Some as @ [None]) ! Suc i"
    using assms(1) i(2) x(2) path_next [of cs_next "sm_cells M" q as i x] by (simp add: held_def list_on_heap_def)
  have cl: "cs_client x = s_client ss" using x(1,3) by (simp add: cell_val_def ghost_val_def)
  have cur: "(map Some as @ [None]) ! i = Some (as ! i)" using i(2) by (simp add: nth_append)
  have rest: "map snd (drop i Z) = ss # map snd (drop (Suc i) Z)" using i(1) x(1) by (simp flip: Cons_nth_drop_Suc)
  have IH: "subscribers_loop M sy k acc' ((map Some as @ [None]) ! Suc i) =
      Some (acc' @ collect_subscribers (map snd (drop (Suc i) Z)) sy (nat k - length acc'))" for acc'
    by (rule Suc.hyps(1)) (use Suc.hyps(2) i(1) in auto)
  show ?case unfolding cur rest
    by (subst subscribers_loop.simps) (auto simp: x(2,5) find_string_index [OF x(4)] nx IH cl simp del: find_index_None)
qed

lemma sessions_at_get_subscribers:
  assumes m: "sessions_at M0 p M m"
  shows "session_manager_get_subscribers_h M p sy' arr k = Some (session_manager_get_subscribers (Some m) sy' arr k)"
proof -
  obtain a s as Z where a: "p = Some a" "sm_structs M a = Some s" "held M0 M (ms_sessions s) as Z" "sessions m = map snd Z"
    by (rule sessions_at_lookup [OF m])
  have "ms_sessions s = (map Some as @ [None]) ! 0"
    using a(3) by (cases as) (auto simp: held_def list_on_heap_def)
  then have "subscribers_loop M sy k [] (ms_sessions s) = Some (collect_subscribers (sessions m) sy (nat k))" for sy
    using subscribers_loop_held [OF a(3), of 0 sy k "[]"] a(4) by simp
  with a(1,2) show ?thesis
    by (simp add: session_manager_get_subscribers_h_def session_manager_get_subscribers_def Let_def split: option.split)
qed

section \<open>Cleaning up, pinging and destroying\<close>

lemma stale_cell: "cell_val x = ghost_val z \<Longrightarrow> timeout < int64 (int64 (now - cs_last_ping x) * 1000) \<longleftrightarrow> timed_out now timeout (snd z)"
  by (simp add: cell_val_def ghost_val_def timed_out_def)

text \<open>The first \<open>i\<close> sessions have been looked at and kept.\<close>

lemma cleanup_loop_held:
  assumes "held M0 M q as Z" "i \<le> length Z"
  shows "\<exists>M1 q1 bs n1. cleanup_loop now timeout M q n ((None # map Some as) ! i) ((map Some as @ [None]) ! i) = Some (M1, q1, n1) \<and>
    held M0 M1 q1 bs (take i Z @ filter (\<lambda>z. \<not> timed_out now timeout (snd z)) (drop i Z)) \<and> sm_structs M1 = sm_structs M \<and>
    n1 = n - int (length (filter (\<lambda>z. timed_out now timeout (snd z)) (drop i Z)))"
  using assms
proof (induction "length Z - i" arbitrary: M q as Z i n)
  case 0
  then have "i = length Z" "length as = length Z" using held_length by auto
  with 0 show ?case by (auto simp: cleanup_loop.simps nth_append)
next
  case (Suc k)
  then have i: "i < length Z" "i < length as" using held_length [OF Suc.prems(1)] by auto
  obtain x where x: "sm_cells M (as ! i) = Some x" "cell_val x = ghost_val (Z ! i)"
    by (rule held_sessionE [OF Suc.prems(1) i(1)])
  have split: "drop i Z = Z ! i # drop (Suc i) Z" using i(1) by (simp add: Cons_nth_drop_Suc)
  have nx: "cs_next x = (map Some as @ [None]) ! Suc i"
    using Suc.prems(1) i(2) x(1) path_next [of cs_next "sm_cells M" q as i x] by (simp add: held_def list_on_heap_def)
  have cur: "(map Some as @ [None]) ! i = Some (as ! i)" using i(2) by (simp add: nth_append)
  show ?case
  proof (cases "timed_out now timeout (snd (Z ! i))")
    case True
    let ?Z = "take i Z @ drop (Suc i) Z" and ?as = "take i as @ drop (Suc i) as"
    obtain M1 q1 where M1: "drop_session M q ((None # map Some as) ! i) (as ! i) = Some (M1, q1, (map Some as @ [None]) ! Suc i)"
        "held M0 M1 q1 ?as ?Z" "sm_structs M1 = sm_structs M"
      using held_drop [OF Suc.prems(1) i(1)] by blast
    have ptr: "(None # map Some ?as) ! i = (None # map Some as) ! i" "(map Some ?as @ [None]) ! i = (map Some as @ [None]) ! Suc i"
      using i(2) by (auto simp: nth_Cons' nth_append)
    have step: "cleanup_loop now timeout M q n ((None # map Some as) ! i) (Some (as ! i)) =
        cleanup_loop now timeout M1 q1 (n - 1) ((None # map Some as) ! i) ((map Some as @ [None]) ! Suc i)"
      by (subst cleanup_loop.simps) (simp add: x(1) stale_cell [OF x(2)] True M1(1))
    have k: "k = length ?Z - i" "i \<le> length ?Z" using Suc.hyps(2) i(1) by auto
    have "take i ?Z = take i Z" "drop i ?Z = drop (Suc i) Z" using i(1) by auto
    with Suc.hyps(1) [OF k(1) M1(2) k(2), of "n - 1"] True M1(3) split show ?thesis
      unfolding cur step ptr by auto
  next
    case False
    have "k = length Z - Suc i" "Suc i \<le> length Z" using Suc.hyps(2) i(1) by auto
    note IH = Suc.hyps(1) [OF this(1) Suc.prems(1) this(2), of n]
    have step: "cleanup_loop now timeout M q n ((None # map Some as) ! i) (Some (as ! i)) =
        cleanup_loop now timeout M q n ((None # map Some as) ! Suc i) ((map Some as @ [None]) ! Suc i)"
      by (subst cleanup_loop.simps) (use i(2) in \<open>simp add: x(1) stale_cell [OF x(2)] False nx\<close>)
    with IH False split i show ?thesis unfolding cur step by (simp add: take_Suc_conv_app_nth)
  qed
qed

lemma sessions_at_cleanup:
  assumes m: "sessions_at M0 p M m"
  shows "\<exists>M1 m1. session_manager_cleanup_sessions_h now M p = Some M1 \<and> session_manager_cleanup_sessions now (Some m) = Some m1 \<and> sessions_at M0 p M1 m1"
proof -
  obtain a s as Z where a: "p = Some a" "sm_structs M0 a = None" "sm_structs M = (sm_structs M0)(a \<mapsto> s)"
     "held M0 M (ms_sessions s) as Z" "sessions m = map snd Z" "ms_count s = session_count m" "ms_max s = max_sessions m"
     "ms_timeout s = session_timeout_ms m"
    using m by (rule sessions_atE)
  let ?dead = "\<lambda>z. timed_out now (session_timeout_ms m) (snd z)"
  have hd: "ms_sessions s = (map Some as @ [None]) ! 0" using a(4) path_head by (fastforce simp: held_def list_on_heap_def)
  obtain M1 q1 bs n1 where M1: "cleanup_loop now (ms_timeout s) M (ms_sessions s) (ms_count s) None (ms_sessions s) = Some (M1, q1, n1)"
      "held M0 M1 q1 bs (filter (\<lambda>z. \<not> ?dead z) Z)" "sm_structs M1 = sm_structs M" "n1 = session_count m - int (length (filter ?dead Z))"
    using cleanup_loop_held [OF a(4), of 0 now "ms_timeout s" "ms_count s"] a(6,8) by (auto simp flip: hd)
  let ?s = "s\<lparr>ms_sessions := q1, ms_count := n1\<rparr>" and ?m = "m\<lparr>sessions := map snd (filter (\<lambda>z. \<not> ?dead z) Z), session_count := n1\<rparr>"
  have "session_manager_cleanup_sessions_h now M p = Some (M1\<lparr>sm_structs := (sm_structs M0)(a \<mapsto> ?s)\<rparr>)"
    using a(1,3) M1(1,3) by (simp add: session_manager_cleanup_sessions_h_def)
  moreover have "session_manager_cleanup_sessions now (Some m) = Some ?m"
    using a(5) M1(4) by (simp add: session_manager_cleanup_sessions_def cleanup_list_spec filter_map comp_def)
  moreover have "sessions_at M0 (Some a) (M1\<lparr>sm_structs := (sm_structs M0)(a \<mapsto> ?s)\<rparr>) ?m"
    by (rule sessions_atI [OF a(2), where s = ?s and as = bs and Z = "filter (\<lambda>z. \<not> ?dead z) Z"]) (use M1(2) a(7,8) in simp_all)
  ultimately show ?thesis using a(1) by blast
qed

lemma held_cell_write:
  assumes h: "held M0 M q as Z" and i: "i < length Z" and x: "sm_cells M (as ! i) = Some x" "cs_next x' = cs_next x" "cell_val x' = ghost_val z'"
    and z': "fst z' = fst (Z ! i)" "subscribed_symbols (snd z') = subscribed_symbols (snd (Z ! i))"
  shows "held M0 (M\<lparr>sm_cells := (sm_cells M)(as ! i \<mapsto> x')\<rparr>) q as (Z[i := z'])"
proof -
  have "list_on_heap cs_next cell_val (sm_cells M0) ((sm_cells M)(as ! i \<mapsto> x')) q as ((map ghost_val Z)[i := cell_val x'])"
    by (rule session_cells.stored_update [where h = "sm_cells M", OF _ _ x(1,2)]) (use h i in \<open>simp_all add: held_def\<close>)
  moreover have "map array_of (Z[i := z']) = map array_of Z" "map strings_of (Z[i := z']) = map strings_of Z"
    using i z'(1) by (simp_all add: map_update list_update_same_conv)
  moreover have "subs_at A T z' \<longleftrightarrow> subs_at A T (Z ! i)" for A T using z' by (simp add: subs_at_def)
  then have "\<forall>z \<in> set (Z[i := z']). subs_at (sm_arrays M) (sm_strings M) z"
    using h i set_update_subset_insert [of Z i z'] by (auto simp: held_def subs_own_def)
  ultimately show ?thesis using h x(3) by (simp add: held_def subs_own_def map_update)
qed

definition pinged_ghosts :: "(nat \<Rightarrow> int) \<Rightarrow> nat \<Rightarrow> ghost list \<Rightarrow> ghost list" where
  "pinged_ghosts now i Z = take i Z @ map (\<lambda>(j, z). (fst z, (snd z)\<lparr>last_ping_time := now j\<rparr>)) (enumerate i (drop i Z))"

lemma ping_loop_held:
  assumes "held M0 M q as Z" "i \<le> length Z"
  shows "\<exists>C. ping_loop now (sm_cells M) ((map Some as @ [None]) ! i) i = Some C \<and> held M0 (M\<lparr>sm_cells := C\<rparr>) q as (pinged_ghosts now i Z)"
  using assms
proof (induction "length Z - i" arbitrary: M Z i)
  case 0
  then have "i = length Z" "length as = length Z" using held_length by auto
  with 0 show ?case by (auto simp: ping_loop.simps nth_append pinged_ghosts_def)
next
  case (Suc k)
  then have i: "i < length Z" "i < length as" using held_length [OF Suc.prems(1)] by auto
  obtain x where x: "sm_cells M (as ! i) = Some x" "cell_val x = ghost_val (Z ! i)"
    by (rule held_sessionE [OF Suc.prems(1) i(1)])
  have nx: "cs_next x = (map Some as @ [None]) ! Suc i"
    using Suc.prems(1) i(2) x(1) path_next [of cs_next "sm_cells M" q as i x] by (simp add: held_def list_on_heap_def)
  have cur: "(map Some as @ [None]) ! i = Some (as ! i)" using i(2) by (simp add: nth_append)
  let ?z = "(fst (Z ! i), (snd (Z ! i))\<lparr>last_ping_time := now i\<rparr>)" and ?x = "x\<lparr>cs_last_ping := now i\<rparr>"
  have h: "held M0 (M\<lparr>sm_cells := (sm_cells M)(as ! i \<mapsto> ?x)\<rparr>) q as (Z[i := ?z])"
    by (rule held_cell_write [OF Suc.prems(1) i(1) x(1)]) (use x(2) in \<open>simp_all add: cell_val_def ghost_val_def\<close>)
  have "k = length (Z[i := ?z]) - Suc i" "Suc i \<le> length (Z[i := ?z])" using Suc.hyps(2) i(1) by auto
  note IH = Suc.hyps(1) [OF this(1) h this(2)]
  have step: "ping_loop now (sm_cells M) (Some (as ! i)) i = ping_loop now ((sm_cells M)(as ! i \<mapsto> ?x)) ((map Some as @ [None]) ! Suc i) (Suc i)"
    by (subst ping_loop.simps) (simp add: x(1) nx)
  have "drop i Z = Z ! i # drop (Suc i) Z" using i(1) by (simp add: Cons_nth_drop_Suc)
  then have "pinged_ghosts now (Suc i) (Z[i := ?z]) = pinged_ghosts now i Z"
    using i(1) by (simp add: pinged_ghosts_def take_Suc_conv_app_nth)
  with IH show ?case unfolding cur step by simp
qed

lemma sessions_at_ping:
  assumes m: "sessions_at M0 p M m"
  shows "\<exists>M1 m1. session_manager_ping_clients_h now M p = Some M1 \<and> session_manager_ping_clients now (Some m) = Some m1 \<and> sessions_at M0 p M1 m1"
proof -
  obtain a s as Z where a: "p = Some a" "sm_structs M0 a = None" "sm_structs M = (sm_structs M0)(a \<mapsto> s)"
     "held M0 M (ms_sessions s) as Z" "sessions m = map snd Z" "ms_count s = session_count m" "ms_max s = max_sessions m"
     "ms_timeout s = session_timeout_ms m"
    using m by (rule sessions_atE)
  have hd: "ms_sessions s = (map Some as @ [None]) ! 0" using a(4) path_head by (fastforce simp: held_def list_on_heap_def)
  obtain C where C: "ping_loop now (sm_cells M) (ms_sessions s) 0 = Some C" "held M0 (M\<lparr>sm_cells := C\<rparr>) (ms_sessions s) as (pinged_ghosts now 0 Z)"
    using ping_loop_held [OF a(4), of 0 now] by (auto simp flip: hd)
  let ?m = "m\<lparr>sessions := map (\<lambda>(i, s). s\<lparr>last_ping_time := now i\<rparr>) (enumerate 0 (sessions m))\<rparr>"
  have "map snd (map (\<lambda>(j, z). (fst z, (snd z)\<lparr>last_ping_time := now j\<rparr>)) (enumerate n Y)) =
      map (\<lambda>(i, s). s\<lparr>last_ping_time := now i\<rparr>) (enumerate n (map snd Y))" for n and Y :: "ghost list"
    by (induction Y arbitrary: n) auto
  then have "sessions ?m = map snd (pinged_ghosts now 0 Z)" using a(5) by (simp add: pinged_ghosts_def)
  then have "sessions_at M0 (Some a) (M\<lparr>sm_cells := C\<rparr>) ?m"
    by (intro sessions_atI [OF a(2) _ C(2)]) (use a(3,6-8) in simp_all)
  moreover have "session_manager_ping_clients_h now M p = Some (M\<lparr>sm_cells := C\<rparr>)" "session_manager_ping_clients now (Some m) = Some ?m"
    using a(1,3) C(1) by (simp_all add: session_manager_ping_clients_h_def session_manager_ping_clients_def)
  ultimately show ?thesis using a(1) by blast
qed

lemma destroy_sessions_held:
  "held M0 M q as Z \<Longrightarrow> destroy_sessions M q = Some (M0\<lparr>sm_structs := sm_structs M\<rparr>)"
proof (induction Z arbitrary: M q as)
  case Nil
  then show ?case by (simp add: held_def subs_own_def list_on_heap_Nil destroy_sessions.simps)
next
  case (Cons z Z)
  have l: "list_on_heap cs_next cell_val (sm_cells M0) (sm_cells M) q as (ghost_val z # map ghost_val Z)" using Cons.prems by (simp add: held_def)
  then obtain k where q: "q = Some k" by (cases q) auto
  obtain x bs where x: "sm_cells M k = Some x" "cell_val x = ghost_val z"
      "list_on_heap cs_next cell_val (sm_cells M0) ((sm_cells M)(k := None)) (cs_next x) bs (map ghost_val Z)"
    using session_cells.stored_pop [OF l [unfolded q]] by (metis list.inject)
  have "subs_own M0 M ([] @ z # Z)" using Cons.prems by (simp add: held_def)
  then obtain A T where A: "free_subscriptions (sm_arrays M) (sm_strings M) (Some (array_of z)) (int (length (strings_of z))) = Some (A, T)"
      "subs_own M0 (M\<lparr>sm_arrays := A, sm_strings := T\<rparr>) ([] @ Z)"
    by (rule free_subscriptions_own)
  let ?M = "M\<lparr>sm_cells := (sm_cells M)(k := None), sm_arrays := A, sm_strings := T\<rparr>"
  have "held M0 ?M (cs_next x) bs Z" using x(3) A(2) by (simp add: held_def subs_own_def)
  from Cons.IH [OF this] x(1,2) A(1) q show ?case
    by (subst destroy_sessions.simps) (simp add: free_cell_def cell_val_def ghost_val_def)
qed

lemma sessions_at_destroy: "sessions_at M0 p M m \<Longrightarrow> session_manager_destroy M p = Some M0"
  by (erule sessions_atE) (simp add: session_manager_destroy_def destroy_sessions_held free_cell_def fun_upd_idem)

section \<open>Sequences of calls\<close>

text \<open>
  A call with its arguments. The flags of the calls that allocate say which of their allocations succeed; the
  addresses are those of three functions that give a block not in use.
\<close>

datatype session_op =
    Add_client bool bool int "addr option"
  | Remove_client "addr option"
  | Subscribe bool "addr option" "string option"
  | Unsubscribe "addr option" "string option"
  | Is_subscribed "addr option" "string option"
  | Get_subscribers "string option" bool int
  | Cleanup int
  | Ping "nat \<Rightarrow> int"

datatype session_answer = Code rc | Truth bool | Clients int "addr list" | Done

record session_addrs =
  sa_cell :: "(addr \<rightharpoonup> session_cell) \<Rightarrow> addr"
  sa_array :: "(addr \<rightharpoonup> addr option list) \<Rightarrow> addr"
  sa_string :: "(addr \<rightharpoonup> string) \<Rightarrow> addr"

definition session_addrs_ok :: "session_addrs \<Rightarrow> bool" where
  "session_addrs_ok F \<longleftrightarrow> fresh_addr (sa_cell F) \<and> fresh_addr (sa_array F) \<and> fresh_addr (sa_string F)"

text \<open>The call on the memory, for the manager at \<open>p\<close>, and the call on the lists.\<close>

fun heap_call :: "session_addrs \<Rightarrow> addr option \<Rightarrow> session_op \<Rightarrow> session_mem \<Rightarrow> (session_answer \<times> session_mem) option" where
  "heap_call F p (Add_client b1 b2 now c) M =
     map_option (apfst Code) (session_manager_add_client_h (alloc_if b1 (sa_cell F)) (alloc_if b2 (sa_array F)) now M p c)"
| "heap_call F p (Remove_client c) M = map_option (apfst Code) (session_manager_remove_client_h M p c)"
| "heap_call F p (Subscribe b c sy) M = map_option (apfst Code) (session_manager_subscribe_symbol_h (alloc_if b (sa_string F)) M p c sy)"
| "heap_call F p (Unsubscribe c sy) M = map_option (apfst Code) (session_manager_unsubscribe_symbol_h M p c sy)"
| "heap_call F p (Is_subscribed c sy) M = map_option (\<lambda>t. (Truth t, M)) (session_manager_is_subscribed_h M p c sy)"
| "heap_call F p (Get_subscribers sy clients n) M = map_option (\<lambda>(k, cs). (Clients k cs, M)) (session_manager_get_subscribers_h M p sy clients n)"
| "heap_call F p (Cleanup now) M = map_option (Pair Done) (session_manager_cleanup_sessions_h now M p)"
| "heap_call F p (Ping now) M = map_option (Pair Done) (session_manager_ping_clients_h now M p)"

fun list_call :: "session_op \<Rightarrow> SessionManager \<Rightarrow> (session_answer \<times> SessionManager) option" where
  "list_call (Add_client b1 b2 now c) m = (let (r, m1) = session_manager_add_client b1 b2 now (Some m) c in map_option (Pair (Code r)) m1)"
| "list_call (Remove_client c) m = (let (r, m1) = session_manager_remove_client (Some m) c in map_option (Pair (Code r)) m1)"
| "list_call (Subscribe b c sy) m = (let (r, m1) = session_manager_subscribe_symbol b (Some m) c sy in map_option (Pair (Code r)) m1)"
| "list_call (Unsubscribe c sy) m = (let (r, m1) = session_manager_unsubscribe_symbol (Some m) c sy in map_option (Pair (Code r)) m1)"
| "list_call (Is_subscribed c sy) m = Some (Truth (session_manager_is_subscribed (Some m) c sy), m)"
| "list_call (Get_subscribers sy clients n) m = (let (k, cs) = session_manager_get_subscribers (Some m) sy clients n in Some (Clients k cs, m))"
| "list_call (Cleanup now) m = map_option (Pair Done) (session_manager_cleanup_sessions now (Some m))"
| "list_call (Ping now) m = map_option (Pair Done) (session_manager_ping_clients now (Some m))"

text \<open>The memory before the manager was made has finitely many blocks in use and room for the struct at \<open>p\<close>.\<close>

definition finite_mem :: "session_mem \<Rightarrow> bool" where
  "finite_mem M \<longleftrightarrow> finite (dom (sm_cells M)) \<and> finite (dom (sm_arrays M)) \<and> finite (dom (sm_strings M))"

lemma sessions_at_finite: "sessions_at M0 p M m \<Longrightarrow> finite_mem M0 \<Longrightarrow> finite_mem M"
  by (erule sessions_atE) (auto simp: finite_mem_def held_def subs_own_def intro: list_on_heap_finite owned_finite)

lemma sessions_at_create:
  "sm_structs M0 a = None \<Longrightarrow> session_manager_create_h (Some a) c M0 = (M, Some a) \<Longrightarrow> session_manager_create True c = Some m \<Longrightarrow>
   sessions_at M0 (Some a) M m"
  by (auto simp: sessions_at_def session_manager_create_h_def session_manager_create_def held_def subs_own_def list_on_heap_Nil)

lemma heap_call_at:
  assumes m: "sessions_at M0 p M m" "finite_mem M0" "session_addrs_ok F"
  shows "\<exists>r M1 m1. heap_call F p c M = Some (r, M1) \<and> list_call c m = Some (r, m1) \<and> sessions_at M0 p M1 m1"
proof -
  have fin: "alloc_if b (sa_cell F) (sm_cells M) \<noteq> None \<longleftrightarrow> b" "alloc_if b (sa_array F) (sm_arrays M) \<noteq> None \<longleftrightarrow> b"
      "alloc_if b (sa_string F) (sm_strings M) \<noteq> None \<longleftrightarrow> b" for b
    using sessions_at_finite [OF m(1,2)] m(3) alloc_if_Some by (auto simp: finite_mem_def session_addrs_ok_def)
  show ?thesis
  proof (cases c)
    case (Add_client b1 b2 now cl)
    with sessions_at_add [OF m(1), of "alloc_if b1 (sa_cell F)" "alloc_if b2 (sa_array F)" now cl] fin show ?thesis by auto
  next
    case (Subscribe b cl sy)
    with sessions_at_subscribe [OF m(1), of "alloc_if b (sa_string F)" cl sy] fin show ?thesis by auto
  next
    case (Remove_client cl)
    with sessions_at_remove [OF m(1), of cl] show ?thesis by auto
  next
    case (Unsubscribe cl sy)
    with sessions_at_unsubscribe [OF m(1), of cl sy] show ?thesis by auto
  next
    case (Is_subscribed cl sy)
    with sessions_at_is_subscribed [OF m(1), of cl sy] m(1) show ?thesis by auto
  next
    case (Get_subscribers sy clients n)
    with sessions_at_get_subscribers [OF m(1), of sy clients n] m(1) show ?thesis by (auto split: prod.split)
  next
    case (Cleanup now)
    with sessions_at_cleanup [OF m(1), of now] show ?thesis by auto
  next
    case (Ping now)
    with sessions_at_ping [OF m(1), of now] show ?thesis by auto
  qed
qed

interpretation session_heap: simulation "heap_call F p" list_call "\<lambda>M m. sessions_at M0 p M m \<and> finite_mem M0 \<and> session_addrs_ok F" for F M0 p
  by unfold_locales (use heap_call_at in blast)

end
