(* ===== verification/Server_Lifetimes.thy ===== *)
theory Server_Lifetimes
  imports AVL_Heap Trader Server_App Session_Heap_Facts
begin

text \<open>
  What the server gives back when it shuts down: the destructors of the order book, the market data, the
  handlers, the WebSocket server, orders, trades, traders and the broadcaster, over heaps with the blocks and
  the pointers between them. The round of the snapshot thread, which allocates and frees, is here too.
\<close>

section \<open>Single structs\<close>

text \<open>\<open>memset\<close> before \<open>free\<close> writes to the order.\<close>

definition order_destroy :: "(addr \<rightharpoonup> Order) \<Rightarrow> addr option \<Rightarrow> (addr \<rightharpoonup> Order) option" where
  "order_destroy H p = (case p of None \<Rightarrow> Some H
     | Some a \<Rightarrow> do {
         x \<leftarrow> H a;
         free_cell (H(a \<mapsto> \<lparr>order_id = [], trader_id = [], symbol = [], price = Fin 0, quantity = 0, remaining_quantity = 0,
           is_buy_order = False, timestamp = 0, is_canceled = False\<rparr>)) a })"

definition trade_destroy :: "(addr \<rightharpoonup> Trade) \<Rightarrow> addr option \<Rightarrow> (addr \<rightharpoonup> Trade) option" where
  "trade_destroy H p = (case p of None \<Rightarrow> Some H | Some a \<Rightarrow> do { t \<leftarrow> H a; free_cell H a })"

definition trader_destroy :: "(addr \<rightharpoonup> Trader) \<Rightarrow> addr option \<Rightarrow> (addr \<rightharpoonup> Trader) option" where
  "trader_destroy H p = (case p of None \<Rightarrow> Some H | Some a \<Rightarrow> do { t \<leftarrow> H a; free_cell H a })"

definition trade_broadcaster_destroy :: "(addr \<rightharpoonup> TradeBroadcaster) \<Rightarrow> addr option \<Rightarrow> (addr \<rightharpoonup> TradeBroadcaster) option" where
  "trade_broadcaster_destroy H p = (case p of None \<Rightarrow> Some H | Some a \<Rightarrow> free_cell H a)"

section \<open>Order books\<close>

record book_struct =
  bk_buy :: "addr option"
  bk_sell :: "addr option"

text \<open>The nodes hold the addresses of orders.\<close>

record book_mem =
  bm_nodes :: "addr node_heap"
  bm_trees :: "addr \<rightharpoonup> tree_handle"
  bm_books :: "addr \<rightharpoonup> book_struct"
  bm_orders :: "addr \<rightharpoonup> Order"

definition avl_destroy_m :: "book_mem \<Rightarrow> addr option \<Rightarrow> book_mem option" where
  "avl_destroy_m M p = (case p of None \<Rightarrow> Some M
     | Some a \<Rightarrow> do {
         t \<leftarrow> bm_trees M a;
         N \<leftarrow> avl_destroy_h (bm_nodes M) (Some t);
         T \<leftarrow> free_cell (bm_trees M) a;
         Some (M\<lparr>bm_nodes := N, bm_trees := T\<rparr>) })"

definition order_book_destroy :: "book_mem \<Rightarrow> addr option \<Rightarrow> book_mem option" where
  "order_book_destroy M p = (case p of None \<Rightarrow> Some M
     | Some a \<Rightarrow> do {
         b \<leftarrow> bm_books M a;
         M1 \<leftarrow> avl_destroy_m M (bk_buy b);
         M2 \<leftarrow> avl_destroy_m M1 (bk_sell b);
         B \<leftarrow> free_cell (bm_books M2) a;
         Some (M2\<lparr>bm_books := B\<rparr>) })"

fun destroy_books :: "book_mem \<Rightarrow> addr option list \<Rightarrow> book_mem option" where
  "destroy_books M [] = Some M"
| "destroy_books M (p # ps) = do { M1 \<leftarrow> order_book_destroy M p; destroy_books M1 ps }"

section \<open>The components of the server\<close>

record market_struct =
  mk_running :: bool
  mk_books :: "addr option list"
  mk_count :: int

record handlers_struct =
  hd_running :: bool
  hd_worker_threads :: "addr option"
  hd_message_queue :: "addr option"
  hd_client_queue :: "addr option"
  hd_queue_size :: int
  hd_books :: "addr option list"
  hd_count :: int

record server_struct =
  ss_running :: bool
  ss_context :: "addr option"

record server_mem =
  v_books :: book_mem
  v_markets :: "addr \<rightharpoonup> market_struct"
  v_sessions :: session_mem
  v_messages :: msg_heap
  v_queues :: "addr \<rightharpoonup> addr option list"
  v_threads :: "addr \<rightharpoonup> nat"
  v_handlers :: "addr \<rightharpoonup> handlers_struct"
  v_servers :: "addr \<rightharpoonup> server_struct"
  v_contexts :: "addr \<rightharpoonup> nat"

text \<open>The first \<open>n\<close> elements of an array of pointers, if there are so many.\<close>

definition slots :: "int \<Rightarrow> addr option list \<Rightarrow> addr option list option" where
  "slots n ps = (if n \<le> int (length ps) then Some (take (nat n) ps) else None)"

text \<open>Stopping the timer clears \<open>running\<close> and joins the thread.\<close>

definition market_data_destroy :: "server_mem \<Rightarrow> addr option \<Rightarrow> server_mem option" where
  "market_data_destroy V p = (case p of None \<Rightarrow> Some V
     | Some a \<Rightarrow> do {
         m \<leftarrow> v_markets V a;
         let K = (if mk_running m then (v_markets V)(a \<mapsto> m\<lparr>mk_running := False\<rparr>) else v_markets V);
         ps \<leftarrow> slots (mk_count m) (mk_books m);
         B \<leftarrow> destroy_books (v_books V) ps;
         K1 \<leftarrow> free_cell K a;
         Some (V\<lparr>v_books := B, v_markets := K1\<rparr>) })"

definition server_handlers_destroy_m :: "server_mem \<Rightarrow> addr option \<Rightarrow> server_mem option" where
  "server_handlers_destroy_m V p = (case p of None \<Rightarrow> Some V
     | Some a \<Rightarrow> do {
         h \<leftarrow> v_handlers V a;
         let H = (if hd_running h then (v_handlers V)(a \<mapsto> h\<lparr>hd_running := False\<rparr>) else v_handlers V);
         ps \<leftarrow> slots (hd_count h) (hd_books h);
         B \<leftarrow> destroy_books (v_books V) ps;
         q \<leftarrow> hd_message_queue h;
         ring \<leftarrow> v_queues V q;
         ms \<leftarrow> slots (hd_queue_size h) ring;
         G \<leftarrow> free_all ms (v_messages V);
         Q \<leftarrow> free_ptr (v_queues V) (hd_message_queue h);
         T \<leftarrow> free_ptr (v_threads V) (hd_worker_threads h);
         H1 \<leftarrow> free_cell H a;
         Some (V\<lparr>v_books := B, v_messages := G, v_queues := Q, v_threads := T, v_handlers := H1\<rparr>) })"

text \<open>\<open>lws_context_destroy\<close> releases the context.\<close>

definition ws_server_destroy :: "server_mem \<Rightarrow> addr option \<Rightarrow> server_mem option" where
  "ws_server_destroy V p = (case p of None \<Rightarrow> Some V
     | Some a \<Rightarrow> do {
         s \<leftarrow> v_servers V a;
         let S = (if ss_running s then (v_servers V)(a \<mapsto> s\<lparr>ss_running := False\<rparr>) else v_servers V);
         X \<leftarrow> free_ptr (v_contexts V) (ss_context s);
         S1 \<leftarrow> free_cell S a;
         Some (V\<lparr>v_contexts := X, v_servers := S1\<rparr>) })"

definition session_manager_destroy_v :: "server_mem \<Rightarrow> addr option \<Rightarrow> server_mem option" where
  "session_manager_destroy_v V p = map_option (\<lambda>M. V\<lparr>v_sessions := M\<rparr>) (session_manager_destroy (v_sessions V) p)"

text \<open>The end of \<open>main\<close>: market data, sessions, handlers, WebSocket server.\<close>

definition server_cleanup :: "server_mem \<Rightarrow> addr option \<Rightarrow> addr option \<Rightarrow> addr option \<Rightarrow> addr option \<Rightarrow> server_mem option" where
  "server_cleanup V market session_mgr handlers server_ptr = do {
     V1 \<leftarrow> market_data_destroy V market;
     V2 \<leftarrow> session_manager_destroy_v V1 session_mgr;
     V3 \<leftarrow> server_handlers_destroy_m V2 handlers;
     ws_server_destroy V3 server_ptr }"

section \<open>What the books own\<close>

text \<open>A book at \<open>a\<close> with the nodes \<open>N\<close> of its two trees and their handles \<open>T\<close>.\<close>

definition book_rep :: "book_mem \<Rightarrow> addr \<Rightarrow> addr set \<Rightarrow> addr set \<Rightarrow> bool" where
  "book_rep M a N T \<longleftrightarrow> (\<exists>tb ts hb hs nb ns A B. bm_books M a = Some \<lparr>bk_buy = Some tb, bk_sell = Some ts\<rparr> \<and> tb \<noteq> ts \<and> T = {tb, ts} \<and>
     bm_trees M tb = Some hb \<and> bm_trees M ts = Some hs \<and> rep (bm_nodes M) (h_root hb) nb A \<and> rep (bm_nodes M) (h_root hs) ns B \<and>
     A \<inter> B = {} \<and> N = A \<union> B)"

text \<open>Several books that share nothing; a slot may be NULL.\<close>

fun books_rep :: "book_mem \<Rightarrow> addr option list \<Rightarrow> addr set \<Rightarrow> addr set \<Rightarrow> bool" where
  "books_rep M [] N T \<longleftrightarrow> N = {} \<and> T = {}"
| "books_rep M (None # ps) N T \<longleftrightarrow> books_rep M ps N T"
| "books_rep M (Some a # ps) N T \<longleftrightarrow> (\<exists>N1 T1 N2 T2. book_rep M a N1 T1 \<and> books_rep M ps N2 T2 \<and> Some a \<notin> set ps \<and>
     N1 \<inter> N2 = {} \<and> T1 \<inter> T2 = {} \<and> N = N1 \<union> N2 \<and> T = T1 \<union> T2)"

text \<open>The memory without these blocks.\<close>

definition without :: "book_mem \<Rightarrow> addr set \<Rightarrow> addr set \<Rightarrow> addr set \<Rightarrow> book_mem" where
  "without M N T A = M\<lparr>bm_nodes := bm_nodes M |` (- N), bm_trees := bm_trees M |` (- T), bm_books := bm_books M |` (- A)\<rparr>"

lemma restrict_UNIV [simp]: "m |` UNIV = m"
  by (simp add: restrict_map_def)

lemma restrict_but_one: "m |` (UNIV - {a}) = m(a := None)"
  by (auto simp: restrict_map_def)

lemma without_nothing [simp]: "without M {} {} {} = M"
  by (simp add: without_def)

lemma without_without: "without (without M N1 T1 A1) N2 T2 A2 = without M (N1 \<union> N2) (T1 \<union> T2) (A1 \<union> A2)"
  by (simp add: without_def)

lemma avl_destroy_m_rep:
  assumes "bm_trees M a = Some t" "rep (bm_nodes M) (h_root t) n A"
  shows "avl_destroy_m M (Some a) = Some (without M A {a} {})"
proof -
  have "avl_destroy_h (bm_nodes M) (Some t) = Some (bm_nodes M |` (- A))"
    using destroy_node_rep [OF assms(2)] by (cases "h_root t") (auto simp: avl_destroy_h_def destroy_node_h.simps [of _ None])
  moreover have "(bm_trees M)(a := None) = bm_trees M |` (- {a})" by (auto simp: restrict_map_def fun_eq_iff)
  ultimately show ?thesis using assms(1) by (simp add: avl_destroy_m_def free_cell_def without_def)
qed

lemma order_book_destroy_rep:
  assumes "book_rep M a N T"
  shows "order_book_destroy M (Some a) = Some (without M N T {a})"
proof -
  obtain tb ts hb hs nb ns A B where b: "bm_books M a = Some \<lparr>bk_buy = Some tb, bk_sell = Some ts\<rparr>" "tb \<noteq> ts" "T = {tb, ts}"
     "bm_trees M tb = Some hb" "bm_trees M ts = Some hs" "rep (bm_nodes M) (h_root hb) nb A" "rep (bm_nodes M) (h_root hs) ns B"
     "A \<inter> B = {}" "N = A \<union> B"
    using assms unfolding book_rep_def by blast
  have d1: "avl_destroy_m M (Some tb) = Some (without M A {tb} {})" by (rule avl_destroy_m_rep [OF b(4,6)])
  have "rep (bm_nodes (without M A {tb} {})) (h_root hs) ns B"
    by (rule rep_frame [OF b(7)]) (use b(8) in \<open>auto simp: without_def restrict_map_def\<close>)
  then have "avl_destroy_m (without M A {tb} {}) (Some ts) = Some (without (without M A {tb} {}) B {ts} {})"
    by (intro avl_destroy_m_rep) (use b(2,5) in \<open>simp_all add: without_def\<close>)
  then have d2: "avl_destroy_m (without M A {tb} {}) (Some ts) = Some (without M N T {})"
    using b(3,9) by (simp add: without_without insert_commute)
  with d1 b(1) show ?thesis by (simp add: order_book_destroy_def free_cell_def without_def Compl_eq_Diff_UNIV restrict_but_one)
qed

lemma book_rep_frame:
  assumes "book_rep M a N T" "N \<inter> N' = {}" "T \<inter> T' = {}" "a \<notin> A'"
  shows "book_rep (without M N' T' A') a N T"
proof -
  obtain tb ts hb hs nb ns A B where b: "bm_books M a = Some \<lparr>bk_buy = Some tb, bk_sell = Some ts\<rparr>" "tb \<noteq> ts" "T = {tb, ts}"
     "bm_trees M tb = Some hb" "bm_trees M ts = Some hs" "rep (bm_nodes M) (h_root hb) nb A" "rep (bm_nodes M) (h_root hs) ns B"
     "A \<inter> B = {}" "N = A \<union> B"
    using assms(1) unfolding book_rep_def by blast
  have "rep (bm_nodes (without M N' T' A')) (h_root hb) nb A" "rep (bm_nodes (without M N' T' A')) (h_root hs) ns B"
    by (rule rep_frame [OF b(6)] rep_frame [OF b(7)]; use assms(2) b(9) in \<open>auto simp: without_def restrict_map_def\<close>)+
  moreover have "bm_trees (without M N' T' A') tb = Some hb" "bm_trees (without M N' T' A') ts = Some hs"
      "bm_books (without M N' T' A') a = Some \<lparr>bk_buy = Some tb, bk_sell = Some ts\<rparr>"
    using b(1,3-5) assms(3,4) by (auto simp: without_def)
  ultimately show ?thesis unfolding book_rep_def using b(2,3,8,9) by blast
qed

lemma books_rep_frame:
  "books_rep M ps N T \<Longrightarrow> N \<inter> N' = {} \<Longrightarrow> T \<inter> T' = {} \<Longrightarrow> (\<And>a. a \<in> A' \<Longrightarrow> Some a \<notin> set ps) \<Longrightarrow> books_rep (without M N' T' A') ps N T"
proof (induction M ps N T rule: books_rep.induct)
  case (3 M a ps N T)
  then obtain N1 T1 N2 T2 where b: "book_rep M a N1 T1" "books_rep M ps N2 T2" "Some a \<notin> set ps"
      "N1 \<inter> N2 = {}" "T1 \<inter> T2 = {}" "N = N1 \<union> N2" "T = T1 \<union> T2" by auto
  have "book_rep (without M N' T' A') a N1 T1" by (rule book_rep_frame [OF b(1)]) (use "3.prems" b(6,7) in auto)
  moreover have "books_rep (without M N' T' A') ps N2 T2" by (rule "3.IH" [OF b(2)]) (use "3.prems" b(6,7) in auto)
  ultimately show ?case using b(3-7) by auto
qed auto

lemma destroy_books_rep: "books_rep M ps N T \<Longrightarrow> destroy_books M ps = Some (without M N T {a. Some a \<in> set ps})"
proof (induction ps arbitrary: M N T)
  case (Cons p ps)
  show ?case
  proof (cases p)
    case None
    with Cons show ?thesis by (simp add: order_book_destroy_def)
  next
    case (Some a)
    then obtain N1 T1 N2 T2 where b: "book_rep M a N1 T1" "books_rep M ps N2 T2" "Some a \<notin> set ps"
        "N1 \<inter> N2 = {}" "T1 \<inter> T2 = {}" "N = N1 \<union> N2" "T = T1 \<union> T2" using Cons.prems by auto
    have "books_rep (without M N1 T1 {a}) ps N2 T2" by (rule books_rep_frame [OF b(2)]) (use b in auto)
    moreover have "{a} \<union> {k. Some k \<in> set ps} = {k. Some k \<in> set (p # ps)}" using Some by auto
    ultimately show ?thesis using Cons.IH order_book_destroy_rep [OF b(1)] b(6,7) Some by (simp add: without_without)
  qed
qed simp

lemma destroy_books_append: "destroy_books M (ps @ qs) = Option.bind (destroy_books M ps) (\<lambda>M1. destroy_books M1 qs)"
  by (induction ps arbitrary: M) (auto simp: Option.bind_assoc intro!: arg_cong [of _ _ "Option.bind _"])

text \<open>Freeing the slots of the ring: the copies are different and live.\<close>

lemma free_all_ptrs: "free_all ms G = free_ptrs G ms"
  by (induction ms arbitrary: G) (auto simp: free_msg_def free_ptr_def free_cell_def split: option.split)

lemma free_all_live:
  "distinct (filter (\<lambda>p. p \<noteq> None) ms) \<Longrightarrow> (\<And>a. Some a \<in> set ms \<Longrightarrow> G a \<noteq> None) \<Longrightarrow> free_all ms G = Some (G |` (- {a. Some a \<in> set ms}))"
  unfolding free_all_ptrs by (rule free_ptrs_live)

section \<open>A server at rest\<close>

text \<open>
  The workers and threads have stopped. The components are at the given addresses, their books share nothing, the slots
  of the ring hold different live copies or NULL, and \<open>S0\<close> is the memory of the sessions without the manager.
\<close>

record server_parts =
  at_market :: addr
  at_sessions :: addr
  at_handlers :: addr
  at_server :: addr
  at_queue :: addr
  at_threads :: addr
  at_clients :: addr
  at_context :: addr

definition at_rest ::
  "server_parts \<Rightarrow> server_mem \<Rightarrow> session_mem \<Rightarrow> addr option list \<Rightarrow> addr option list \<Rightarrow> addr set \<Rightarrow> addr set \<Rightarrow> bool" where
  "at_rest P V S0 ps ms N T \<longleftrightarrow> (\<exists>m h s ring mp hp sm.
     v_markets V (at_market P) = Some m \<and> slots (mk_count m) (mk_books m) = Some mp \<and>
     v_handlers V (at_handlers P) = Some h \<and> slots (hd_count h) (hd_books h) = Some hp \<and> ps = mp @ hp \<and> books_rep (v_books V) ps N T \<and>
     hd_message_queue h = Some (at_queue P) \<and> v_queues V (at_queue P) = Some ring \<and> slots (hd_queue_size h) ring = Some ms \<and>
     distinct (filter (\<lambda>p. p \<noteq> None) ms) \<and> (\<forall>a. Some a \<in> set ms \<longrightarrow> v_messages V a \<noteq> None) \<and>
     hd_worker_threads h = Some (at_threads P) \<and> v_threads V (at_threads P) \<noteq> None \<and>
     hd_client_queue h = Some (at_clients P) \<and> v_queues V (at_clients P) \<noteq> None \<and> at_clients P \<noteq> at_queue P \<and>
     sessions_at S0 (Some (at_sessions P)) (v_sessions V) sm \<and>
     v_servers V (at_server P) = Some s \<and> ss_context s = Some (at_context P) \<and> v_contexts V (at_context P) \<noteq> None)"

lemma server_cleanup_at_rest:
  assumes "at_rest P V S0 ps ms N T"
  shows "server_cleanup V (Some (at_market P)) (Some (at_sessions P)) (Some (at_handlers P)) (Some (at_server P)) = Some \<lparr>
    v_books = without (v_books V) N T {a. Some a \<in> set ps}, v_markets = (v_markets V)(at_market P := None), v_sessions = S0,
    v_messages = v_messages V |` (- {a. Some a \<in> set ms}), v_queues = (v_queues V)(at_queue P := None),
    v_threads = (v_threads V)(at_threads P := None), v_handlers = (v_handlers V)(at_handlers P := None),
    v_servers = (v_servers V)(at_server P := None), v_contexts = (v_contexts V)(at_context P := None)\<rparr>"
proof -
  obtain m h s ring mp hp sm where r: "v_markets V (at_market P) = Some m" "slots (mk_count m) (mk_books m) = Some mp"
     "v_handlers V (at_handlers P) = Some h" "slots (hd_count h) (hd_books h) = Some hp" "ps = mp @ hp" "books_rep (v_books V) ps N T"
     "hd_message_queue h = Some (at_queue P)" "v_queues V (at_queue P) = Some ring" "slots (hd_queue_size h) ring = Some ms"
     "distinct (filter (\<lambda>p. p \<noteq> None) ms)" "\<forall>a. Some a \<in> set ms \<longrightarrow> v_messages V a \<noteq> None"
     "hd_worker_threads h = Some (at_threads P)" "v_threads V (at_threads P) \<noteq> None"
     "sessions_at S0 (Some (at_sessions P)) (v_sessions V) sm"
     "v_servers V (at_server P) = Some s" "ss_context s = Some (at_context P)" "v_contexts V (at_context P) \<noteq> None"
    using assms unfolding at_rest_def by blast
  have "destroy_books (v_books V) (mp @ hp) = Some (without (v_books V) N T {a. Some a \<in> set ps})"
    using destroy_books_rep [OF r(6)] r(5) by simp
  then obtain B where B: "destroy_books (v_books V) mp = Some B" "destroy_books B hp = Some (without (v_books V) N T {a. Some a \<in> set ps})"
    by (auto simp: destroy_books_append bind_eq_Some_conv)
  have G: "free_all ms (v_messages V) = Some (v_messages V |` (- {a. Some a \<in> set ms}))" by (rule free_all_live) (use r(10,11) in auto)
  let ?V1 = "V\<lparr>v_books := B, v_markets := (v_markets V)(at_market P := None)\<rparr>"
  have "market_data_destroy V (Some (at_market P)) = Some ?V1"
    using r(1,2) B(1) by (simp add: market_data_destroy_def free_cell_def)
  moreover have "session_manager_destroy_v ?V1 (Some (at_sessions P)) = Some (?V1\<lparr>v_sessions := S0\<rparr>)"
    using sessions_at_destroy [OF r(14)] by (simp add: session_manager_destroy_v_def)
  moreover have "server_handlers_destroy_m (?V1\<lparr>v_sessions := S0\<rparr>) (Some (at_handlers P)) = Some (?V1\<lparr>v_sessions := S0,
      v_books := without (v_books V) N T {a. Some a \<in> set ps}, v_messages := v_messages V |` (- {a. Some a \<in> set ms}),
      v_queues := (v_queues V)(at_queue P := None), v_threads := (v_threads V)(at_threads P := None),
      v_handlers := (v_handlers V)(at_handlers P := None)\<rparr>)"
    using r(3,4,7-9,12,13) B(2) G by (auto simp: server_handlers_destroy_m_def free_cell_def free_ptr_def)
  ultimately show ?thesis
    using r(15-17) by (auto simp: server_cleanup_def ws_server_destroy_def free_cell_def free_ptr_def)
qed

section \<open>The snapshot thread\<close>

text \<open>
  One symbol: four arrays are allocated and freed again, whether or not all of them could be had; nothing is
  filled in. \<open>alloc i n\<close> is what the \<open>i\<close>-th call of \<open>malloc\<close> gives for \<open>n\<close> bytes (a negative product is a size too large to be had).
\<close>

definition malloc_block :: "((addr \<rightharpoonup> int) \<Rightarrow> addr option) \<Rightarrow> int \<Rightarrow> (addr \<rightharpoonup> int) \<Rightarrow> addr option \<times> (addr \<rightharpoonup> int)" where
  "malloc_block alloc n H = (case alloc H of None \<Rightarrow> (None, H) | Some a \<Rightarrow> (Some a, H(a \<mapsto> n)))"

definition snapshot_symbol :: "(nat \<Rightarrow> int \<Rightarrow> (addr \<rightharpoonup> int) \<Rightarrow> addr option) \<Rightarrow> int \<Rightarrow> (addr \<rightharpoonup> int) \<Rightarrow> (addr \<rightharpoonup> int) option" where
  "snapshot_symbol alloc depth H =
     (let (bp, H1) = malloc_block (alloc 0 (depth * 8)) (depth * 8) H;
          (bq, H2) = malloc_block (alloc 1 (depth * 4)) (depth * 4) H1;
          (ap, H3) = malloc_block (alloc 2 (depth * 8)) (depth * 8) H2;
          (aq, H4) = malloc_block (alloc 3 (depth * 4)) (depth * 4) H3
      in if bp = None \<or> bq = None \<or> ap = None \<or> aq = None then free_ptrs H4 [bp, bq, ap, aq]
         else free_ptrs H4 [bp, bq, ap, aq])"

fun snapshot_symbols :: "(nat \<Rightarrow> nat \<Rightarrow> int \<Rightarrow> (addr \<rightharpoonup> int) \<Rightarrow> addr option) \<Rightarrow> int \<Rightarrow> nat \<Rightarrow> (addr \<rightharpoonup> int) \<Rightarrow> (addr \<rightharpoonup> int) option" where
  "snapshot_symbols alloc depth 0 H = Some H"
| "snapshot_symbols alloc depth (Suc k) H = do { H1 \<leftarrow> snapshot_symbol (alloc k) depth H; snapshot_symbols alloc depth k H1 }"

text \<open>The time slept before a round, in seconds and nanoseconds, with the truncating division of C.\<close>

definition snapshot_sleep :: "int \<Rightarrow> int \<times> int" where
  "snapshot_sleep ms = (sgn ms * (\<bar>ms\<bar> div 1000), sgn ms * (\<bar>ms\<bar> mod 1000) * 1000000)"

text \<open>The loop: the value of \<open>running\<close> at each test, the registry and the allocations of the round.\<close>

fun snapshot_thread ::
  "(bool \<times> MarketData \<times> (nat \<Rightarrow> nat \<Rightarrow> int \<Rightarrow> (addr \<rightharpoonup> int) \<Rightarrow> addr option)) list \<Rightarrow> (addr \<rightharpoonup> int) \<Rightarrow> ((int \<times> int) list \<times> (addr \<rightharpoonup> int)) option" where
  "snapshot_thread [] H = Some ([], H)"
| "snapshot_thread ((run, m, alloc) # rs) H = (if \<not> run then Some ([], H)
     else do {
       H1 \<leftarrow> snapshot_symbols alloc (max_depth m) (nat (md_book_count m)) H;
       (sleeps, H2) \<leftarrow> snapshot_thread rs H1;
       Some (snapshot_sleep (snapshot_interval_ms m) # sleeps, H2) })"

lemma malloc_blocks_freed:
  assumes "\<And>i n. fresh_alloc (alloc i n)"
  shows "snapshot_symbol alloc depth H = Some H"
proof -
  have own: "\<exists>p H1. malloc_block (alloc i n) n H0 = (p, H1) \<and> owned H H1 (ks @ (case p of None \<Rightarrow> [] | Some a \<Rightarrow> [a]))"
    if "owned H H0 ks" for i n H0 ks
  proof (cases "alloc i n H0")
    case (Some a)
    then have "H0 a = None" using assms [of i n] by (auto simp: fresh_alloc_def)
    from owned_perm [OF owned_new [OF that this, of n], of "ks @ [a]"] Some show ?thesis by (simp add: malloc_block_def)
  qed (use that in \<open>simp add: malloc_block_def\<close>)
  have free: "\<exists>H1. free_ptrs H0 ps = Some H1 \<and> owned H H1 []"
    if "owned H H0 (concat (map (\<lambda>p. case p of None \<Rightarrow> [] | Some a \<Rightarrow> [a]) ps))" for H0 ps
    using that by (induction ps arbitrary: H0) (auto simp: free_ptr_def dest!: owned_free split: option.splits)
  let ?l = "\<lambda>p. case p of None \<Rightarrow> [] | Some a \<Rightarrow> [a]"
  have "owned H H []" by simp
  from own [OF this] obtain bp H1 where 1: "malloc_block (alloc 0 (depth * 8)) (depth * 8) H = (bp, H1)" "owned H H1 (?l bp)" by fastforce
  from own [OF 1(2)] obtain bq H2 where 2: "malloc_block (alloc 1 (depth * 4)) (depth * 4) H1 = (bq, H2)" "owned H H2 (?l bp @ ?l bq)" by fastforce
  from own [OF 2(2)] obtain ap H3 where 3: "malloc_block (alloc 2 (depth * 8)) (depth * 8) H2 = (ap, H3)" "owned H H3 ((?l bp @ ?l bq) @ ?l ap)" by fastforce
  from own [OF 3(2)] obtain aq H4 where 4: "malloc_block (alloc 3 (depth * 4)) (depth * 4) H3 = (aq, H4)" "owned H H4 (((?l bp @ ?l bq) @ ?l ap) @ ?l aq)" by fastforce
  from free [of H4 "[bp, bq, ap, aq]"] 4(2) have "free_ptrs H4 [bp, bq, ap, aq] = Some H" by auto
  with 1(1) 2(1) 3(1) 4(1) show ?thesis by (simp add: snapshot_symbol_def)
qed

lemma snapshot_thread_keeps_memory:
  assumes "\<forall>(run, m, alloc) \<in> set rs. \<forall>k i n. fresh_alloc (alloc k i n)"
  shows "\<exists>sleeps. snapshot_thread rs H = Some (sleeps, H)"
  using assms
proof (induction rs)
  case (Cons r rs)
  obtain run m alloc where r: "r = (run, m, alloc)" by (cases r)
  have "snapshot_symbols alloc d k H = Some H" for d k
  proof (induction k)
    case (Suc k)
    have "fresh_alloc (alloc k i n)" for i n using Cons.prems by (simp add: r)
    from malloc_blocks_freed [of "alloc k", OF this] Suc show ?case by simp
  qed simp
  moreover obtain sleeps where "snapshot_thread rs H = Some (sleeps, H)" using Cons by auto
  ultimately show ?case using r by simp
qed simp

end
