(* ===== verification/Server_Properties.thy ===== *)
theory Server_Properties
  imports End_To_End Server_Lifetimes Protocol_Properties
begin

text \<open>
  The properties of the server: the message queue, the handlers, the snapshots, the sessions on
  lists and on the heap, the registry of market data, the main function and its shutdown.
\<close>

section \<open>The message queue\<close>

definition sample_config :: HandlerConfig where
  "sample_config = \<lparr>thread_pool_size = 1, max_message_size = 4096, message_queue_size = 3, hc_trade_broadcaster = Some sample_broadcaster\<rparr>"

definition sample_handlers :: ServerHandlers where
  "sample_handlers = the (fst (snd (server_handlers_start_workers (\<lambda>_. True) (server_handlers_create True True True True sample_config))))"

lemma sample_handlers_simps:
  "sample_handlers = \<lparr>thread_count = 1, running = True, message_queue = [None, None, None], client_queue = [None, None, None],
     queue_size = 3, queue_head = 0, queue_tail = 0, books = replicate MAX_SYMBOLS None,
     symbols = replicate MAX_SYMBOLS (replicate 16 NUL), book_count = 0, sh_trade_broadcaster = Some sample_broadcaster\<rparr>"
  by (simp add: sample_handlers_def server_handlers_create_def sample_config_def server_handlers_start_workers_def numeral_3_eq_3)

lemma sample_ring_ok: "ring_ok sample_handlers"
  by (simp add: sample_handlers_simps ring_ok_def ring_used_def)

text \<open>C20. The ring of messages of a running server is a first-in first-out queue: over any sequence of
  \<open>server_handlers_process_message\<close> and \<open>dequeue_message\<close> calls, with memory for the copies of the messages, what was in the
  ring followed by the accepted messages is what came out followed by what is in it. It never holds more than
  \<open>queue_size - 1\<close> messages and refuses one exactly when it holds that many.\<close>

theorem message_queue_fifo:
  assumes "ring_ok h" "run_queue ring_put ring_get os h = (ins, outs, h')"
  shows "ring_contents h @ ins = outs @ ring_contents h' \<and> length (ring_contents h') < nat (queue_size h') \<and>
    (ring_put h' x = None \<longleftrightarrow> length (ring_contents h') = nat (queue_size h') - 1)"
proof -
  have f: "ring_contents h @ ins = outs @ ring_contents h'" "ring_ok h'" using ring.fifo_run [OF assms] by auto
  have n: "length (ring_contents h') < nat (queue_size h')"
    using ring_facts(1,2) [OF f(2)] by (simp add: ring_contents_def ring_used_def)
  have "ring_put h' x = None \<longleftrightarrow> \<not> length (ring_contents h') < ring_capacity h'"
    using ring.put_room [OF f(2)] ring.put_full [OF f(2)] by (metis option.distinct(1))
  with f(1) n show ?thesis by (auto simp: ring_capacity_def)
qed

theorem message_queue_fifo_witness:
  "\<exists>h'. run_queue ring_put ring_get [Put (10, Some 1), Put (11, Some 2), Put (12, Some 3), Get] sample_handlers =
       ([(10, Some 1), (11, Some 2)], [(10, Some 1)], h') \<and> ring_contents h' = [(11, Some 2)]"
proof -
  let ?r = "run_queue ring_put ring_get [Put (10, Some 1), Put (11, Some 2), Put (12, Some 3), Get] sample_handlers"
  obtain h' where r: "?r = ([(10, Some 1), (11, Some 2)], [(10, Some 1)], h')"
    by (simp add: sample_handlers_simps ring_put_def ring_get_def server_handlers_process_message_def dequeue_message_def
        array_get_def array_set_def)
  have "ring_contents sample_handlers = []" by (simp add: sample_handlers_simps ring_contents_def ring_used_def)
  with message_queue_fifo [OF sample_ring_ok r] r show ?thesis by auto
qed

lemma free_all_freed:
  assumes "Some a \<in> set ps" "heap a = None"
  shows "free_all ps heap = None"
  using assms
proof (induction ps arbitrary: heap)
  case (Cons p ps)
  show ?case
  proof (cases "p = Some a")
    case True
    with Cons.prems show ?thesis by (simp add: free_msg_def)
  next
    case False
    then have m: "Some a \<in> set ps" using Cons.prems(1) by auto
    show ?thesis
    proof (cases "free_msg p heap")
      case (Some heap1)
      then have "heap1 a = None" using Cons.prems(2) by (auto simp: free_msg_def split: option.splits if_splits)
      with Cons.IH [OF m] Some show ?thesis by simp
    qed simp
  qed
qed simp

text \<open>A handler leaves the ring alone.\<close>

definition same_ring :: "ServerHandlers \<Rightarrow> ServerHandlers \<Rightarrow> bool" where
  "same_ring h h' \<longleftrightarrow> message_queue h' = message_queue h \<and> queue_size h' = queue_size h \<and> running h' = running h"

lemma same_ring_refl [simp]: "same_ring h h" "same_ring h (h\<lparr>books := bs\<rparr>)"
  by (simp_all add: same_ring_def)

lemma find_or_create_ring: "find_or_create mem h sy = Some (h1, i) \<Longrightarrow> same_ring h h1"
  by (auto simp: find_or_create_def append_book_def same_ring_def Let_def split: option.splits bind_splits prod.splits)

lemma execute_order_ring: "execute_order env J h st client i x t = Some out \<Longrightarrow> same_ring h (o_handlers out)"
  by (auto simp: execute_order_def same_ring_def Let_def split: bind_splits prod.splits)

lemma place_order_ring:
  assumes "handle_place_order env J h st client node = Some out"
  shows "same_ring h (o_handlers out)"
  using assms
  by (auto simp: handle_place_order_def same_ring_def dest!: find_or_create_ring execute_order_ring
      split: bind_splits if_splits prod.splits option.splits)

lemma dispatch_ring:
  assumes "dispatch_message env J h st client message = Some out"
  shows "same_ring h (o_handlers out)"
proof -
  have "handle_cancel_order env J h st client node = Some out \<Longrightarrow> same_ring h (o_handlers out)" for node
    by (auto simp: handle_cancel_order_def split: option.splits bind_splits if_splits prod.splits)
  moreover have "handle_book_request env J h st client node = Some out \<Longrightarrow> same_ring h (o_handlers out)" for node
    by (auto simp: handle_book_request_def split: option.splits bind_splits)
  ultimately show ?thesis
    using assms place_order_ring by (auto simp: dispatch_message_def message_handlers_def split: option.splits if_splits)
qed

text \<open>C23. \<open>server_handlers_destroy\<close> frees every slot of the ring, but a message that a worker has taken out and freed is
  still in its slot: after a worker has handled a message, destroying the handlers frees it a second time.\<close>

theorem destroy_frees_twice:
  assumes "ring_ok h" "ring_contents h = (a, client) # rest" "worker_round env J heap h st = Some (heap1, out)"
  shows "server_handlers_destroy heap1 (Some (o_handlers out)) = None"
proof -
  obtain h1 where "ring_get h = Some ((a, client), h1)" using ring.get_head [OF assms(1,2)] by blast
  then have d: "dequeue_message h = Some (Got (Some a) client, h1)"
    by (auto simp: ring_get_def split: option.splits prod.splits dequeued.splits)
  then have q: "same_ring h h1" and m: "message_queue h ! nat (queue_head h) = Some a" "nat (queue_head h) < length (message_queue h)"
    by (auto simp: dequeue_message_def same_ring_def array_get_def split: if_splits bind_splits)
  obtain message where dm: "dispatch_message env J h1 st client message = Some out" and f: "free_msg (Some a) heap = Some heap1"
    using assms(3) d by (auto simp: worker_round_def Let_def split: bind_splits)
  have freed: "heap1 a = None" using f by (auto simp: free_msg_def split: if_splits)
  let ?h = "o_handlers out"
  have r: "message_queue ?h = message_queue h" "queue_size ?h = queue_size h" "running ?h = running h"
    using q dispatch_ring [OF dm] by (simp_all add: same_ring_def)
  have "Some a \<in> set (take (nat (queue_size h)) (message_queue h))"
    using m(1) nth_mem [OF m(2)] assms(1) by (simp add: ring_ok_def)
  then have "free_all (take (nat (queue_size h)) (message_queue h)) heap1 = None" using freed by (rule free_all_freed)
  with r show ?thesis by (simp add: server_handlers_destroy_def server_handlers_stop_workers_def Let_def)
qed

definition sample_env :: handler_env where
  "sample_env = \<lparr>book_mem = (True, True, True), e_order_mem = True, e_node_mem = True, e_new_addr = 500, e_now = 77, e_time_text = ''noon'',
     e_clock = sample_clock, e_stack = sample_stack, e_snapshot_mem = sample_mem,
     e_client = (\<lambda>a. \<lparr>wsi = Some a, info = \<lparr>client_id = ''c'', connect_time = 0, info_last_ping_time = 0\<rparr>, c_server = None\<rparr>),
     e_send = (\<lambda>_. (True, 1))\<rparr>"

definition sample_heap :: msg_heap where
  "sample_heap = (\<lambda>_. None)(10 := Some ''junk'')"

theorem destroy_frees_twice_witness:
  "\<exists>h heap1 out. ring_put sample_handlers (10, Some 1) = Some h \<and>
     worker_round sample_env json_cJSON sample_heap h (\<lambda>_. None) = Some (heap1, out) \<and>
     server_handlers_destroy heap1 (Some (o_handlers out)) = None"
proof -
  obtain h where h: "ring_put sample_handlers (10, Some 1) = Some h" "ring_ok h" "ring_contents h = ring_contents sample_handlers @ [(10, Some 1)]"
    using ring.put_room [OF sample_ring_ok, of "(10, Some 1)"]
    by (auto simp: sample_handlers_simps ring_contents_def ring_used_def ring_capacity_def)
  have c: "ring_contents h = (10, Some 1) # []" using h(3) by (simp add: sample_handlers_simps ring_contents_def ring_used_def)
  have p: "parse_base_message json_cJSON (Some ''junk'') = None" by code_simp
  obtain h1 where "ring_get h = Some ((10, Some 1), h1)" using ring.get_head [OF h(2) c] by blast
  then have d: "dequeue_message h = Some (Got (Some 10) (Some 1), h1)"
    by (auto simp: ring_get_def split: option.splits prod.splits dequeued.splits)
  obtain heap1 out where w: "worker_round sample_env json_cJSON sample_heap h (\<lambda>_. None) = Some (heap1, out)"
    using d p by (simp add: worker_round_def Let_def sample_heap_def dispatch_message_def free_msg_def)
  from destroy_frees_twice [OF h(2) c w] h(1) w show ?thesis by blast
qed

section \<open>Placing an order\<close>

text \<open>C18. A well-formed order message (identifiers of at most 30 and a symbol of at most 14 characters, a finite price, any
  quantity of type \<open>int\<close>, negative ones included) on a server with a trade broadcaster and room for the symbol, with
  memory for the book, the order and the texts: the book of the symbol is found or created, the order, at the price that the handler
  reads after cJSON has printed it once more, is added to it and the book is matched, after which it is not crossed; the
  table of books stays well formed, and the client is sent the confirmation and then the snapshot of the
  book's live orders. No check of the known symbols or of the price and quantity limits is made.\<close>

theorem order_placed:
  assumes "cjson_api J view reread" "handlers_ok st h" "sh_trade_broadcaster h \<noteq> None"
      "find_book h sy \<noteq> Some None \<or> book_count h < int MAX_SYMBOLS"
    and "cJSON_Parse J t = Some node"
      "view node = JObj [(''type'', JNum (Fin 1)), (''order_id'', JStr oid), (''trader_id'', JStr tid), (''symbol'', JStr sy),
        (''price'', JNum (Fin p')), (''quantity'', JNum (Fin (of_int q))), (''is_buy'', JBool buy)]"
    and "NUL \<notin> set oid" "NUL \<notin> set tid" "NUL \<notin> set sy" "length oid < 31" "length tid < 31" "length sy < 15"
      "fits 32 q" "reread (Fin p') = Fin p"
    and "book_mem env = (True, True, True)" "e_order_mem env" "st (e_new_addr env) = None" "mem_ok (e_snapshot_mem env)"
  shows "\<exists>out h1 i x b1 b' snap ts. dispatch_message env J h st client t = Some out \<and> o_rc out = 0 \<and>
    find_or_create (True, True, True) h sy = Some (h1, Some i) \<and>
    order_create True (e_now env) oid tid sy (Fin p) q buy = Some x \<and>
    order_book_add_order (e_node_mem env) (st(e_new_addr env \<mapsto> x)) (books h1 ! i) (Some (e_new_addr env)) = Some (0, Some b1) \<and>
    order_book_match_orders (e_clock env) (st(e_new_addr env \<mapsto> x)) (Some b1) = Some (o_store out, Some b', o_trades out) \<and>
    handlers_ok (o_store out) (o_handlers out) \<and> i < nat (book_count (o_handlers out)) \<and>
    c_string (symbols (o_handlers out) ! i) = Some sy \<and> books (o_handlers out) ! i = Some b' \<and>
    \<not> crossing (bids (o_store out) b') (asks (o_store out) b') \<and>
    bids_are snap (take 200 (filter live (rev (bids (o_store out) b')))) \<and>
    asks_are snap (take 200 (filter live (asks (o_store out) b'))) \<and>
    serialize_book_snapshot J (Some snap) = Some (Some ts) \<and>
    o_frames out = snd (send_nth env 0 client (accepted_text buy oid tid sy (Fin p) q (e_time_text env))) @ snd (send_nth env 1 client ts)"
  by (rule cjson_api.dispatch_place_ok [OF assms])

definition sample_order_json :: json where
  "sample_order_json = JObj [(''type'', JNum (Fin 1)), (''order_id'', JStr ''O9''), (''trader_id'', JStr ''T9''), (''symbol'', JStr ''XYZ''),
     (''price'', JNum (Fin 12)), (''quantity'', JNum (Fin (of_int (- 8)))), (''is_buy'', JBool True)]"

lemma sample_handlers_ok: "handlers_ok (\<lambda>_. None) sample_handlers"
  by (simp add: handlers_ok_def sample_handlers_simps)

theorem order_placed_witness:
  "\<exists>t out. cJSON_Parse json_cJSON t = Some sample_order_json \<and>
     dispatch_message sample_env json_cJSON sample_handlers (\<lambda>_. None) (Some 1) t = Some out \<and>
     o_rc out = 0 \<and> (\<exists>i < nat (book_count (o_handlers out)). c_string (symbols (o_handlers out) ! i) = Some ''XYZ'')"
proof -
  obtain t where t: "cJSON_Parse json_cJSON t = Some sample_order_json"
    using json_impl.print_parse [of sample_order_json] by (auto simp: sample_order_json_def renumber_id)
  have b: "sh_trade_broadcaster sample_handlers \<noteq> None" "book_count sample_handlers < int MAX_SYMBOLS"
    by (simp_all add: sample_handlers_simps MAX_SYMBOLS_def)
  have e: "book_mem sample_env = (True, True, True)" "e_order_mem sample_env" "mem_ok (e_snapshot_mem sample_env)"
    using sample_mem_ok by (simp_all add: sample_env_def)
  have "(\<lambda>j. j) sample_order_json = JObj [(''type'', JNum (Fin 1)), (''order_id'', JStr ''O9''), (''trader_id'', JStr ''T9''),
      (''symbol'', JStr ''XYZ''), (''price'', JNum (Fin 12)), (''quantity'', JNum (Fin (of_int (- 8)))), (''is_buy'', JBool True)]"
    by (simp add: sample_order_json_def)
  from order_placed [OF json_contract sample_handlers_ok b(1) disjI2 [OF b(2)] t this _ _ _ _ _ _ _ refl e(1,2) _ e(3), of "Some 1"] t
  show ?thesis by (auto simp: NUL_def fits_def)
qed

section \<open>Snapshots\<close>

text \<open>C31. The snapshot of a well-formed book lists, on each side, live orders only (not canceled, something left) in
  increasing order of price, at most 200 of them: the cheapest asks, which are the best, and the lowest bids, which
  are the worst. Its symbol is terminated.\<close>

theorem snapshot_of_book:
  assumes "book_ok st book" "mem_ok mem" "NUL \<notin> set sy" "length sy < 16"
  shows "\<exists>s. take_snapshot mem st sy book = Some (Some s) \<and> c_string (bs_symbol s) = Some sy \<and>
    bid_levels s = (let L = take 200 (filter live (rev (bids st book))) in (map price L, map remaining_quantity L)) \<and>
    ask_levels s = (let L = take 200 (filter live (asks st book)) in (map price L, map remaining_quantity L))"
proof -
  obtain s where s: "take_snapshot mem st sy book = Some (Some s)"
    "bids_are s (take 200 (filter live (rev (bids st book))))" "asks_are s (take 200 (filter live (asks st book)))"
    "bs_symbol s = strncpy (replicate 16 NUL) sy 15"
    by (rule take_snapshot_levels [OF assms(1,2)])
  have "c_string (bs_symbol s) = Some sy"
    using c_string_strncpy [OF assms(3), of 15 "replicate 16 NUL"] assms(4) by (simp add: s(4))
  moreover have "bid_levels s = (map price L, map remaining_quantity L)" if "bids_are s L" for L
    using that by (simp add: bids_are_def bid_levels_def)
  moreover have "ask_levels s = (map price L, map remaining_quantity L)" if "asks_are s L" for L
    using that by (simp add: asks_are_def ask_levels_def)
  ultimately show ?thesis using s(1-3) by (auto simp: Let_def)
qed

theorem snapshot_of_book_witness:
  "\<exists>s. take_snapshot sample_mem sample_store ''AAPL'' sample_book = Some (Some s) \<and>
     bid_levels s = ([Fin 100, Fin 101, Fin 101], [10, 5, 7]) \<and> ask_levels s = ([Fin 99, Fin 101, Fin 103], [4, 5, 6])"
proof -
  have n: "NUL \<notin> set ''AAPL''" "length ''AAPL'' < 16" by (simp_all add: NUL_def)
  have "(let L = take 200 (filter live (rev (bids sample_store sample_book))) in (map price L, map remaining_quantity L)) =
      ([Fin 100, Fin 101, Fin 101], [10, 5, 7])"
    "(let L = take 200 (filter live (asks sample_store sample_book)) in (map price L, map remaining_quantity L)) =
      ([Fin 99, Fin 101, Fin 103], [4, 5, 6])" by code_simp+
  with snapshot_of_book [OF sample_book_ok sample_mem_ok n] show ?thesis by metis
qed

section \<open>The server as its main function starts it\<close>

text \<open>C19. The main function configures no trade broadcaster, without which no order book can be created: in every state that
  the started server can reach no order is stored, and whatever message a worker takes, it only answers with
  errors, announces no trade and stores no order.\<close>

theorem started_server_refuses:
  assumes "reachable server_init (server_step J) (heap, app, st)" "sa_handlers app = Some h"
    and "worker_round env J heap h st = Some (heap1, out)"
  shows "st = (\<lambda>_. None) \<and> o_store out = (\<lambda>_. None) \<and> o_trades out = [] \<and>
    (o_frames out = [] \<or> (\<exists>client msg. o_frames out = snd (send_error_response env 0 client msg)))"
proof -
  have "server_inert (heap, app, st)" by (rule server_machine.reachable_inv [OF assms(1)])
  with assms(2) have "no_books h" "st = (\<lambda>_. None)" by (auto simp: server_inert_def)
  with worker_round_refused [OF _ assms(3)] show ?thesis by auto
qed

text \<open>The answer to a well-formed order.\<close>

context cjson_api
begin

lemma placing_refused:
  assumes "no_books h" "finite_json (view node) \<and> nested_le 1000 (view node)" "json_get (view node) ''order_id'' = Some (JStr oid)"
      "json_get (view node) ''trader_id'' = Some (JStr tid)" "json_get (view node) ''symbol'' = Some (JStr sy)"
      "json_get (view node) ''price'' = Some (JNum p)" "json_get (view node) ''quantity'' = Some (JNum (Fin (of_int q)))"
      "json_get (view node) ''is_buy'' = Some (JBool buy)" "NUL \<notin> set oid" "NUL \<notin> set sy" "length oid < 31" "length sy < 15" "fits 32 q"
  shows "handle_place_order env J h st client node = Some (error_outcome env client ''Failed to place order'' h st)"
proof -
  obtain tx j where tx: "cJSON_Print J (Some node) = Some tx" "cJSON_Parse J tx = Some j" "view j = renumber reread (view node)"
    using print_parse assms(2) by blast
  note p = parse_order_message_fields [where m0 = "e_stack env" and p = "reread p", OF tx(2) _ _ _ _ _ _ assms(13), of oid tid sy buy,
      unfolded tx(3) json_get_renumber assms(3-8), simplified, OF reread_int [OF assms(13)]]
  have "find_or_create (book_mem env) h sy = Some (h, None)"
    using assms(1) no_book_created unfolding no_books_def by blast
  with tx(1) p assms(9-12) show ?thesis by (simp add: handle_place_order_def c_string_strncpy_short)
qed

end

definition sample_server_env :: server_env where
  "sample_server_env = \<lparr>se_server_mem = True, se_lws = Some 5, se_handler_mem = (True, True, True, True), se_session_mem = True,
     se_market_mem = True, se_service_thread = True, se_workers = (\<lambda>_. True), se_timer_thread = True, fn_wrapper = 6, handlers_addr = 7\<rparr>"

definition started_handlers :: ServerHandlers where
  "started_handlers = \<lparr>thread_count = 4, running = True, message_queue = replicate 1000 None, client_queue = replicate 1000 None,
     queue_size = 1000, queue_head = 0, queue_tail = 0, books = replicate MAX_SYMBOLS None,
     symbols = replicate MAX_SYMBOLS (replicate 16 NUL), book_count = 0, sh_trade_broadcaster = None\<rparr>"

lemma start_threads_all: "start_threads (\<lambda>_. True) i k = (True, i + k)"
  by (induction k arbitrary: i) simp_all

lemma started_server:
  obtains app where "server_main sample_server_env = Some app" "sa_handlers app = Some started_handlers"
  by (simp add: server_main_def sample_server_env_def ws_server_create_def server_handlers_create_def handler_config_def
      session_manager_create_def market_data_create_def ws_server_start_def ws_server_set_message_callback_def
      server_handlers_start_workers_def start_threads_all started_handlers_def)

text \<open>A valid order is sent to the started server; a worker takes it and answers with one frame.\<close>

theorem started_server_refuses_witness:
  "\<exists>heap app st h heap1 out t. cJSON_Parse json_cJSON t = Some sample_order_json \<and> heap 10 = Some t \<and>
     reachable server_init (server_step json_cJSON) (heap, app, st) \<and> sa_handlers app = Some h \<and>
     ring_contents h = [(10, Some 1)] \<and> worker_round sample_env json_cJSON heap h st = Some (heap1, out) \<and>
     o_trades out = [] \<and> o_store out = (\<lambda>_. None) \<and> o_frames out = snd (send_error_response sample_env 0 (Some 1) ''Failed to place order'')"
proof -
  obtain app where app: "server_main sample_server_env = Some app" "sa_handlers app = Some started_handlers"
    by (rule started_server)
  obtain t where t: "cJSON_Parse json_cJSON t = Some sample_order_json"
    using json_impl.print_parse [of sample_order_json] by (auto simp: sample_order_json_def renumber_id)
  have r0: "reachable server_init (server_step json_cJSON) (\<lambda>_. None, app, \<lambda>_. None)"
    by (rule reachable.start) (use app(1) in \<open>auto simp: server_init_def\<close>)
  define h where "h = started_handlers\<lparr>message_queue := (message_queue started_handlers)[0 := Some 10],
    client_queue := (client_queue started_handlers)[0 := Some 1], queue_tail := 1\<rparr>"
  let ?app = "app\<lparr>sa_handlers := Some h\<rparr>" and ?heap = "(\<lambda>_. None)(10 \<mapsto> t) :: msg_heap" and ?h1 = "h\<lparr>queue_head := 1\<rparr>"
  have w: "message_handler_wrapper (Some 10) (\<lambda>_. None) app (Some 1) (Some t) = Some (?heap, ?app)"
    using app(2) by (simp add: message_handler_wrapper_def server_handlers_process_message_def h_def started_handlers_def)
  have r1: "reachable server_init (server_step json_cJSON) (?heap, ?app, \<lambda>_. None)"
    by (rule reachable.move [OF r0 server_step.receive [OF _ w]]) simp
  have d: "dequeue_message h = Some (Got (Some 10) (Some 1), ?h1)" and c: "ring_contents h = [(10, Some 1)]" and n: "no_books ?h1"
    by (simp_all add: dequeue_message_def h_def started_handlers_def ring_contents_def ring_used_def ring_slot_def no_books_def)
  note cmp = strcaseeq_def tolower_def isupper_def code_def
  have "handle_place_order sample_env json_cJSON ?h1 (\<lambda>_. None) (Some 1) sample_order_json =
      Some (error_outcome sample_env (Some 1) ''Failed to place order'' ?h1 (\<lambda>_. None))"
    by (rule json_impl.placing_refused [OF n, where oid = "''O9''" and tid = "''T9''" and sy = "''XYZ''" and p = "Fin 12" and q = "- 8" and buy = True])
      (simp_all add: sample_order_json_def cmp NUL_def fits_def)
  moreover have "parse_base_message json_cJSON (Some t) = Some 1"
    using json_impl.parse_base_message_typed [OF t, of 1] by (simp add: sample_order_json_def fits_def)
  ultimately have dm: "dispatch_message sample_env json_cJSON ?h1 (\<lambda>_. None) (Some 1) t =
      Some (error_outcome sample_env (Some 1) ''Failed to place order'' ?h1 (\<lambda>_. None))"
    by (simp add: dispatch_message_def t message_handlers_def msg_types)
  have o1: "worker_round sample_env json_cJSON ?heap h (\<lambda>_. None) = Some (\<lambda>_. None,
      error_outcome sample_env (Some 1) ''Failed to place order'' ?h1 (\<lambda>_. None))"
    using d dm by (simp add: worker_round_def Let_def free_msg_def fun_upd_idem)
  from started_server_refuses [OF r1 _ o1] o1 r1 t c show ?thesis
    by (intro exI [of _ ?heap] exI [of _ ?app] exI [of _ "\<lambda>_. None"] exI [of _ h]) auto
qed

section \<open>Sessions\<close>

text \<open>C32. The sessions stand for a map from clients to sets of symbols. In every state the session manager can reach there are
  at most the configured number of sessions, one per client, the counter agrees, and no client has more than
  100 symbols. There, with memory: adding a client without a session, while there is room, gives it the empty
  set; removing a client takes its set out; subscribing a client with fewer than 100 symbols adds the symbol to its
  set; unsubscribing removes a symbol of the set; each of them returns 0 and changes nothing else of the map, and in
  every other case returns -1 and changes nothing. \<open>session_manager_is_subscribed\<close> is membership.\<close>

theorem session_manager_refines_map:
  assumes "reachable session_init session_step m"
  shows "session_count m = int (length (sessions m)) \<and> session_count m \<le> max 0 (max_sessions m) \<and> distinct (map s_client (sessions m)) \<and>
    (\<forall>S. subscriptions m c = Some S \<longrightarrow> finite S \<and> card S \<le> 100) \<and>
    (session_manager_is_subscribed (Some m) (Some c) (Some sy) \<longleftrightarrow> (\<exists>S. subscriptions m c = Some S \<and> sy \<in> S)) \<and>
    (\<exists>r m1. session_manager_add_client True True now (Some m) (Some c) = (r, Some m1) \<and>
      (if session_count m < max_sessions m \<and> subscriptions m c = None then r = 0 \<and> subscriptions m1 = (subscriptions m)(c \<mapsto> {})
       else r = - 1 \<and> m1 = m)) \<and>
    (\<exists>r m1. session_manager_remove_client (Some m) (Some c) = (r, Some m1) \<and>
      (if subscriptions m c = None then r = - 1 \<and> m1 = m else r = 0 \<and> subscriptions m1 = (subscriptions m)(c := None))) \<and>
    (\<exists>r m1. session_manager_subscribe_symbol True (Some m) (Some c) (Some sy) = (r, Some m1) \<and>
      (case subscriptions m c of None \<Rightarrow> r = - 1 \<and> m1 = m
       | Some S \<Rightarrow> if card S < 100 then r = 0 \<and> subscriptions m1 = (subscriptions m)(c \<mapsto> insert sy S) else r = - 1 \<and> m1 = m)) \<and>
    (\<exists>r m1. session_manager_unsubscribe_symbol (Some m) (Some c) (Some sy) = (r, Some m1) \<and>
      (case subscriptions m c of None \<Rightarrow> r = - 1 \<and> m1 = m
       | Some S \<Rightarrow> if sy \<in> S then r = 0 \<and> subscriptions m1 = (subscriptions m)(c \<mapsto> S - {sy}) else r = - 1 \<and> m1 = m))"
proof (intro conjI)
  have ok: "manager_ok m" by (rule session_machine.reachable_inv [OF assms])
  then show "session_count m = int (length (sessions m))" "session_count m \<le> max 0 (max_sessions m)" "distinct (map s_client (sessions m))"
    by (auto simp: manager_ok_def)
  show "\<forall>S. subscriptions m c = Some S \<longrightarrow> finite S \<and> card S \<le> 100" using subscriptions_card [OF ok] by (simp add: MAX_SUBSCRIPTIONS_def)
  show "session_manager_is_subscribed (Some m) (Some c) (Some sy) \<longleftrightarrow> (\<exists>S. subscriptions m c = Some S \<and> sy \<in> S)" by (rule is_subscribed_abs)
  show "\<exists>r m1. session_manager_add_client True True now (Some m) (Some c) = (r, Some m1) \<and>
      (if session_count m < max_sessions m \<and> subscriptions m c = None then r = 0 \<and> subscriptions m1 = (subscriptions m)(c \<mapsto> {})
       else r = - 1 \<and> m1 = m)"
    unfolding add_client_abs by (auto simp: subscriptions_def fun_eq_iff)
  show "\<exists>r m1. session_manager_remove_client (Some m) (Some c) = (r, Some m1) \<and>
      (if subscriptions m c = None then r = - 1 \<and> m1 = m else r = 0 \<and> subscriptions m1 = (subscriptions m)(c := None))"
    using remove_client_abs [OF ok] by metis
  show "\<exists>r m1. session_manager_subscribe_symbol True (Some m) (Some c) (Some sy) = (r, Some m1) \<and>
      (case subscriptions m c of None \<Rightarrow> r = - 1 \<and> m1 = m
       | Some S \<Rightarrow> if card S < 100 then r = 0 \<and> subscriptions m1 = (subscriptions m)(c \<mapsto> insert sy S) else r = - 1 \<and> m1 = m)"
  proof (cases "\<exists>S. subscriptions m c = Some S \<and> card S < MAX_SUBSCRIPTIONS")
    case True
    then obtain S m1 where "subscriptions m c = Some S" "card S < MAX_SUBSCRIPTIONS"
        "session_manager_subscribe_symbol True (Some m) (Some c) (Some sy) = (0, Some m1)" "subscriptions m1 = (subscriptions m)(c \<mapsto> insert sy S)"
      using subscribe_abs [OF ok, of c _ sy] by metis
    then show ?thesis by (simp add: MAX_SUBSCRIPTIONS_def)
  next
    case False
    then show ?thesis using subscribe_refused [OF ok, of c True sy] by (auto simp: MAX_SUBSCRIPTIONS_def split: option.split)
  qed
  show "\<exists>r m1. session_manager_unsubscribe_symbol (Some m) (Some c) (Some sy) = (r, Some m1) \<and>
      (case subscriptions m c of None \<Rightarrow> r = - 1 \<and> m1 = m
       | Some S \<Rightarrow> if sy \<in> S then r = 0 \<and> subscriptions m1 = (subscriptions m)(c \<mapsto> S - {sy}) else r = - 1 \<and> m1 = m)"
  proof (cases "\<exists>S. subscriptions m c = Some S \<and> sy \<in> S")
    case True
    then obtain S m1 where "subscriptions m c = Some S" "sy \<in> S" "session_manager_unsubscribe_symbol (Some m) (Some c) (Some sy) = (0, Some m1)"
        "subscriptions m1 = (subscriptions m)(c \<mapsto> S - {sy})"
      using unsubscribe_abs [OF ok, of c _ sy] by metis
    then show ?thesis by simp
  next
    case False
    then show ?thesis using unsubscribe_refused [of m c sy] by (auto split: option.split)
  qed
qed

definition sample_manager :: SessionManager where
  "sample_manager = \<lparr>sessions = [\<lparr>s_client = 4, subscribed_symbols = [], last_ping_time = 100\<rparr>], session_count = 1, max_sessions = 2,
     session_timeout_ms = 30000\<rparr>"

lemma sample_manager_reachable: "reachable session_init session_step sample_manager"
proof -
  let ?m = "\<lparr>sessions = [], session_count = 0, max_sessions = 2, session_timeout_ms = 30000\<rparr>"
  have "session_init ?m"
    unfolding session_init_def
    by (intro exI [of _ "\<lparr>sc_max_sessions = 2, sc_session_timeout_ms = 30000, cleanup_interval_ms = 0\<rparr>"]) (simp add: session_manager_create_def)
  moreover have "session_step ?m sample_manager"
    by (rule session_step.add [of True True 100 _ "Some 4" 0]) (simp add: session_manager_add_client_def sample_manager_def)
  ultimately show ?thesis by (meson reachable.intros)
qed

theorem session_manager_refines_map_witness:
  "(\<exists>m1. session_manager_subscribe_symbol True (Some sample_manager) (Some 4) (Some ''AAPL'') = (0, Some m1) \<and> subscriptions m1 4 = Some {''AAPL''}) \<and>
   session_manager_unsubscribe_symbol (Some sample_manager) (Some 4) (Some ''AAPL'') = (- 1, Some sample_manager) \<and>
   \<not> session_manager_is_subscribed (Some sample_manager) (Some 4) (Some ''AAPL'')"
proof -
  have s: "subscriptions sample_manager 4 = Some {}" by (simp add: subscriptions_def sample_manager_def)
  from session_manager_refines_map [OF sample_manager_reachable, of 4 "''AAPL''" 0] s show ?thesis by auto
qed

text \<open>C33. The session manager with its pointers. From its creation, any sequence of calls of its operations, the queries
  \<open>session_manager_is_subscribed\<close> and \<open>session_manager_get_subscribers\<close> and NULL arguments included, returns with the linked
  sessions, arrays and symbols on the heap, gives call by call the same answers as the same calls on lists, and leaves a
  memory that stands for exactly the lists these calls reach. Each call of the allocator gives a block that is not in
  use, or NULL, as the flags of the call say. So no call touches a block that is not live; \<open>session_manager_destroy\<close>
  then gives back exactly the blocks of the manager: nothing is lost, freed twice or used after it was freed.\<close>

theorem sessions_on_heap:
  assumes "session_manager_create_h (Some a) conf M0 = (M, Some a)" "session_manager_create True conf = Some m"
    and "sm_structs M0 a = None" "finite_mem M0" "session_addrs_ok F"
  shows "\<exists>rs M' m'. run_calls (heap_call F (Some a)) cs M = Some (rs, M') \<and> run_calls list_call cs m = Some (rs, m') \<and>
    sessions_at M0 (Some a) M' m' \<and> session_manager_destroy M' (Some a) = Some M0"
proof -
  have "sessions_at M0 (Some a) M m \<and> finite_mem M0 \<and> session_addrs_ok F" using sessions_at_create assms by blast
  from session_heap.run_sim [OF this, of cs] sessions_at_destroy show ?thesis by blast
qed

definition sample_session_calls :: "session_op list" where
  "sample_session_calls = [Add_client True True 100 (Some 4), Add_client True False 100 (Some 5), Subscribe True (Some 4) (Some ''AAPL''),
     Subscribe False (Some 4) (Some ''IBM''), Is_subscribed (Some 4) (Some ''AAPL''), Get_subscribers (Some ''AAPL'') True 8, Cleanup 101,
     Unsubscribe (Some 4) (Some ''AAPL''), Unsubscribe (Some 4) (Some ''AAPL''), Is_subscribed (Some 4) (Some ''AAPL''), Cleanup 500, Remove_client (Some 4)]"

theorem sessions_on_heap_witness:
  "\<exists>M'. run_calls (heap_call \<lparr>sa_cell = first_free, sa_array = first_free, sa_string = first_free\<rparr> (Some 10)) sample_session_calls
       (fst (session_manager_create_h (Some 10) \<lparr>sc_max_sessions = 2, sc_session_timeout_ms = 30000, cleanup_interval_ms = 0\<rparr>
         (session_mem.make Map.empty Map.empty Map.empty Map.empty))) =
       Some ([Code 0, Code (- 1), Code 0, Code (- 1), Truth True, Clients 1 [4], Done, Code 0, Code (- 1), Truth False, Done, Code (- 1)], M') \<and>
     session_manager_destroy M' (Some 10) = Some (session_mem.make Map.empty Map.empty Map.empty Map.empty)"
proof -
  let ?c = "\<lparr>sc_max_sessions = 2, sc_session_timeout_ms = 30000, cleanup_interval_ms = 0\<rparr>" and ?M0 = "session_mem.make Map.empty Map.empty Map.empty Map.empty"
  obtain m where m: "session_manager_create True ?c = Some m" by (simp add: session_manager_create_def)
  have "map_option fst (Option.bind (session_manager_create True ?c) (run_calls list_call sample_session_calls)) =
      Some [Code 0, Code (- 1), Code 0, Code (- 1), Truth True, Clients 1 [4], Done, Code 0, Code (- 1), Truth False, Done, Code (- 1)]"
    by code_simp
  then have l: "map_option fst (run_calls list_call sample_session_calls m) =
      Some [Code 0, Code (- 1), Code 0, Code (- 1), Truth True, Clients 1 [4], Done, Code 0, Code (- 1), Truth False, Done, Code (- 1)]"
    using m by simp
  have M: "session_manager_create_h (Some 10) ?c ?M0 = (fst (session_manager_create_h (Some 10) ?c ?M0), Some 10)"
    by (simp add: session_manager_create_h_def)
  from sessions_on_heap [OF M m, of "\<lparr>sa_cell = first_free, sa_array = first_free, sa_string = first_free\<rparr>" sample_session_calls] l
  show ?thesis by (auto simp: session_mem.defs finite_mem_def session_addrs_ok_def fresh_addr_first_free)
qed

text \<open>A memory with one session and one symbol.\<close>

definition sample_session_mem :: session_mem where
  "sample_session_mem = \<lparr>sm_cells = [20 \<mapsto> \<lparr>cs_client = 4, cs_symbols = Some 21, cs_count = 1, cs_last_ping = 100, cs_next = None\<rparr>],
     sm_arrays = [21 \<mapsto> Some 22 # replicate 99 None], sm_strings = [22 \<mapsto> ''AAPL''],
     sm_structs = [10 \<mapsto> \<lparr>ms_sessions = Some 20, ms_count = 1, ms_max = 2, ms_timeout = 30000\<rparr>]\<rparr>"

lemma sample_session_mem_at:
  "sessions_at (session_mem.make Map.empty Map.empty Map.empty Map.empty) (Some 10) sample_session_mem
     \<lparr>sessions = [\<lparr>s_client = 4, subscribed_symbols = [''AAPL''], last_ping_time = 100\<rparr>], session_count = 1, max_sessions = 2, session_timeout_ms = 30000\<rparr>"
  by (rule sessions_atI [where as = "[20]" and Z = "[((21, [22]), \<lparr>s_client = 4, subscribed_symbols = [''AAPL''], last_ping_time = 100\<rparr>)]"
        and s = "\<lparr>ms_sessions = Some 20, ms_count = 1, ms_max = 2, ms_timeout = 30000\<rparr>"])
    (auto simp: sample_session_mem_def session_mem.defs held_def list_on_heap_def subs_own_def owned_def subs_at_def cell_val_def ghost_val_def
      MAX_SUBSCRIPTIONS_def)

text \<open>C34. The main loop never ends a session for inactivity: it pings every session itself in each round, so as long as a round
  comes within the timeout of the one before, all sessions keep their clients and subscriptions through any
  number of rounds.\<close>

theorem main_loop_keeps_sessions:
  assumes "pace_ok (session_timeout_ms m) (pinged m) rounds" "fits 32 (session_timeout_ms m)"
  shows "\<exists>m'. main_loop rounds (Some m) = Some m' \<and> map s_client (sessions m') = map s_client (sessions m) \<and>
    map subscribed_symbols (sessions m') = map subscribed_symbols (sessions m) \<and> session_count m' = session_count m"
  by (rule main_loop_keeps [OF assms])

theorem main_loop_keeps_sessions_witness:
  "\<exists>m'. main_loop [(101, \<lambda>_. 101), (130, \<lambda>_. 131), (160, \<lambda>_. 160)] (Some sample_manager) = Some m' \<and>
     map s_client (sessions m') = [4]"
proof -
  have p: "pace_ok (session_timeout_ms sample_manager) (pinged sample_manager) [(101, \<lambda>_. 101), (130, \<lambda>_. 131), (160, \<lambda>_. 160)]"
    "fits 32 (session_timeout_ms sample_manager)" by (simp_all add: sample_manager_def pinged_def fits_def)
  from main_loop_keeps_sessions [OF p] show ?thesis by (auto simp: sample_manager_def)
qed

section \<open>Shutdown\<close>

text \<open>C24. The end of \<open>main\<close> on a server at rest, no message of which was handled: market data, sessions, handlers and the
  WebSocket server are destroyed without touching a block that is not live. All books with their trees and nodes, the
  sessions with their arrays and symbols, the copies of the messages, the ring, the threads' array, the context and the
  four structs are given back, each once, and nothing else is touched. What stays allocated is the array of clients
  beside the ring, which \<open>server_handlers_destroy\<close> does not free, and every order that was placed.\<close>

theorem shutdown_gives_back:
  assumes "at_rest P V S0 ps ms N T"
  shows "\<exists>V'. server_cleanup V (Some (at_market P)) (Some (at_sessions P)) (Some (at_handlers P)) (Some (at_server P)) = Some V' \<and>
    bm_nodes (v_books V') = bm_nodes (v_books V) |` (- N) \<and> bm_trees (v_books V') = bm_trees (v_books V) |` (- T) \<and>
    bm_books (v_books V') = bm_books (v_books V) |` (- {a. Some a \<in> set ps}) \<and> v_sessions V' = S0 \<and>
    v_messages V' = v_messages V |` (- {a. Some a \<in> set ms}) \<and> v_queues V' = (v_queues V)(at_queue P := None) \<and>
    v_threads V' = (v_threads V)(at_threads P := None) \<and> v_contexts V' = (v_contexts V)(at_context P := None) \<and>
    v_markets V' = (v_markets V)(at_market P := None) \<and> v_handlers V' = (v_handlers V)(at_handlers P := None) \<and>
    v_servers V' = (v_servers V)(at_server P := None) \<and>
    v_queues V' (at_clients P) \<noteq> None \<and> bm_orders (v_books V') = bm_orders (v_books V)"
proof -
  have "v_queues V (at_clients P) \<noteq> None" "at_clients P \<noteq> at_queue P" using assms unfolding at_rest_def by blast+
  with server_cleanup_at_rest [OF assms] show ?thesis by (simp add: without_def)
qed

text \<open>A server with the sessions above, one empty book, one message in a ring of two, and an order that was filled.\<close>

definition sample_parts :: server_parts where
  "sample_parts = \<lparr>at_market = 1, at_sessions = 10, at_handlers = 2, at_server = 3, at_queue = 4, at_threads = 5, at_clients = 6, at_context = 7\<rparr>"

definition sample_server_mem :: server_mem where
  "sample_server_mem = \<lparr>
     v_books = \<lparr>bm_nodes = Map.empty, bm_trees = [41 \<mapsto> \<lparr>h_root = None, h_is_buy_tree = True\<rparr>, 42 \<mapsto> \<lparr>h_root = None, h_is_buy_tree = False\<rparr>],
       bm_books = [40 \<mapsto> \<lparr>bk_buy = Some 41, bk_sell = Some 42\<rparr>], bm_orders = [60 \<mapsto> sample_order ''B1'' 100 1 True 0]\<rparr>,
     v_markets = [1 \<mapsto> \<lparr>mk_running = False, mk_books = replicate 100 None, mk_count = 0\<rparr>], v_sessions = sample_session_mem,
     v_messages = [50 \<mapsto> ''{}''], v_queues = [4 \<mapsto> [Some 50, None], 6 \<mapsto> [Some 9, None]], v_threads = [5 \<mapsto> 4],
     v_handlers = [2 \<mapsto> \<lparr>hd_running = False, hd_worker_threads = Some 5, hd_message_queue = Some 4, hd_client_queue = Some 6, hd_queue_size = 2,
       hd_books = [Some 40, None], hd_count = 1\<rparr>],
     v_servers = [3 \<mapsto> \<lparr>ss_running = False, ss_context = Some 7\<rparr>], v_contexts = [7 \<mapsto> 0]\<rparr>"

theorem shutdown_gives_back_witness:
  "\<exists>V'. server_cleanup sample_server_mem (Some 1) (Some 10) (Some 2) (Some 3) = Some V' \<and> v_messages V' = Map.empty \<and>
    bm_trees (v_books V') = Map.empty \<and> v_queues V' 6 \<noteq> None \<and> bm_orders (v_books V') 60 \<noteq> None"
proof -
  let ?S0 = "session_mem.make Map.empty Map.empty Map.empty Map.empty"
  obtain sm where "sessions_at ?S0 (Some 10) sample_session_mem sm" using sample_session_mem_at by blast
  moreover have "books_rep (v_books sample_server_mem) [Some 40] {} {41, 42}"
    by (auto simp: sample_server_mem_def book_rep_def intro!: exI [of _ "41 :: nat"] exI [of _ "42 :: nat"])
  ultimately have r: "at_rest sample_parts sample_server_mem ?S0 [Some 40] [Some 50, None] {} {41, 42}"
    unfolding at_rest_def by (auto simp: sample_parts_def sample_server_mem_def slots_def)
  have "bm_trees (v_books sample_server_mem) |` (- {41, 42}) = Map.empty" "v_messages sample_server_mem |` (- {50}) = Map.empty"
    by (auto simp: sample_server_mem_def restrict_map_def fun_eq_iff)
  moreover have "bm_orders (v_books sample_server_mem) 60 \<noteq> None" by (simp add: sample_server_mem_def)
  moreover have "{a :: addr. Some a \<in> set [Some 50, None]} = {50}" by auto
  ultimately show ?thesis using shutdown_gives_back [OF r] by (auto simp: sample_parts_def)
qed

section \<open>Market data\<close>

text \<open>The registry of symbols: updating a known symbol changes nothing; an unknown one is appended, cut to 15 characters,
  while there is room, and refused after 100. Because of the cut, a longer symbol is never found again and is
  appended anew by every update.\<close>

lemma market_registry:
  assumes "market_ok m" "NUL \<notin> set sy"
  shows "\<exists>r m1. market_data_update_book mem (Some m) (Some sy) (Some b) = Some (r, Some m1) \<and> market_ok m1 \<and>
    (if sy \<in> set (market_names m) then r = 0 \<and> m1 = m
     else if length (market_names m) < 100 then r = 0 \<and> market_names m1 = market_names m @ [take 15 sy]
     else r = - 1 \<and> m1 = m)"
proof -
  have n: "int (length (market_names m)) = md_book_count m" using assms(1) by (auto simp: market_names_def market_ok_def)
  show ?thesis
  proof (cases rule: update_book_spec [OF assms, of mem b, case_names known added full])
    case known
    with assms(1) show ?thesis by auto
  next
    case (added m1)
    with n show ?thesis by (auto simp: MAX_SYMBOLS_def)
  next
    case full
    with n assms(1) show ?thesis by (auto simp: MAX_SYMBOLS_def)
  qed
qed

end
