(* ===== verification/Client_Heap.thy ===== *)
theory Client_Heap
  imports Trade_History Order_Entry Linked_Heap
begin

text \<open>
  The trade history and the order entry with their pointers: the linked records, the structs and the copied
  trader id on typed heaps, with \<open>calloc\<close>, \<open>strdup\<close> and \<open>free\<close>, and the destructors. They are related to the lists of
  theories \<open>Trade_History\<close> and \<open>Order_Entry\<close>.
\<close>

section \<open>Trade history\<close>

record TradeRecord =
  tr_trade :: TradeMessage
  tr_next :: "addr option"

record history_struct =
  hs_trades :: "addr option"
  hs_count :: int
  hs_max :: int
  hs_all :: bool

record history_mem =
  hm_records :: "addr \<rightharpoonup> TradeRecord"
  hm_structs :: "addr \<rightharpoonup> history_struct"

definition trade_history_create_h :: "addr option \<Rightarrow> TradeHistoryConfig \<Rightarrow> history_mem \<Rightarrow> history_mem \<times> addr option" where
  "trade_history_create_h new c M = (case new of None \<Rightarrow> (M, None)
     | Some a \<Rightarrow> (M\<lparr>hm_structs := (hm_structs M)(a \<mapsto> \<lparr>hs_trades = None, hs_count = 0, hs_max = hc_max_trades c,
          hs_all = hc_record_all_trades c\<rparr>)\<rparr>, Some a))"

text \<open>\<open>alloc\<close> is asked for a record after the dropped one was freed.\<close>

definition drop_record :: "(addr \<rightharpoonup> TradeRecord) \<Rightarrow> history_struct \<Rightarrow> ((addr \<rightharpoonup> TradeRecord) \<times> history_struct) option" where
  "drop_record R s = do {
     oldest \<leftarrow> hs_trades s;
     c \<leftarrow> R oldest;
     R1 \<leftarrow> free_cell R oldest;
     Some (R1, s\<lparr>hs_trades := tr_next c, hs_count := hs_count s - 1\<rparr>) }"

definition trade_history_add_trade_h ::
  "((addr \<rightharpoonup> TradeRecord) \<Rightarrow> addr option) \<Rightarrow> history_mem \<Rightarrow> addr option \<Rightarrow> TradeMessage option \<Rightarrow> (rc \<times> history_mem) option" where
  "trade_history_add_trade_h alloc M p trade' = (case (p, trade') of
     (Some a, Some trade) \<Rightarrow> do {
       s \<leftarrow> hm_structs M a;
       (R, s1) \<leftarrow> (if hs_max s \<le> hs_count s then drop_record (hm_records M) s else Some (hm_records M, s));
       (case alloc R of
          None \<Rightarrow> Some (- 1, M\<lparr>hm_records := R, hm_structs := (hm_structs M)(a \<mapsto> s1)\<rparr>)
        | Some r \<Rightarrow> Some (0, M\<lparr>hm_records := R(r \<mapsto> \<lparr>tr_trade = trade, tr_next = hs_trades s1\<rparr>),
            hm_structs := (hm_structs M)(a \<mapsto> s1\<lparr>hs_trades := Some r, hs_count := hs_count s1 + 1\<rparr>)\<rparr>)) }
   | _ \<Rightarrow> Some (- 1, M))"

definition trade_history_destroy :: "history_mem \<Rightarrow> addr option \<Rightarrow> history_mem option" where
  "trade_history_destroy M p = (case p of None \<Rightarrow> Some M
     | Some a \<Rightarrow> do {
         s \<leftarrow> hm_structs M a;
         R \<leftarrow> free_cells tr_next (hm_records M) (hs_trades s);
         S \<leftarrow> free_cell (hm_structs M) a;
         Some (M\<lparr>hm_records := R, hm_structs := S\<rparr>) })"

interpretation trade_cells: linked_cells tr_next "\<lambda>n. tr_next_update (\<lambda>_. n)" tr_trade
  by unfold_locales simp_all

text \<open>The history \<open>h\<close> is at \<open>p\<close>; without it the memory is \<open>M0\<close>.\<close>

definition history_at :: "history_mem \<Rightarrow> addr option \<Rightarrow> history_mem \<Rightarrow> TradeHistory \<Rightarrow> bool" where
  "history_at M0 p M h \<longleftrightarrow> (\<exists>a s as. p = Some a \<and> hm_structs M0 a = None \<and> hm_structs M = (hm_structs M0)(a \<mapsto> s) \<and>
     list_on_heap tr_next tr_trade (hm_records M0) (hm_records M) (hs_trades s) as (trades h) \<and>
     hs_count s = trade_count h \<and> hs_max s = max_trades h \<and> hs_all s = record_all_trades h)"

lemma history_atI:
  "hm_structs M0 a = None \<Longrightarrow> list_on_heap tr_next tr_trade (hm_records M0) R (hs_trades s) as (trades h) \<Longrightarrow>
   hs_count s = trade_count h \<Longrightarrow> hs_max s = max_trades h \<Longrightarrow> hs_all s = record_all_trades h \<Longrightarrow>
   history_at M0 (Some a) (M\<lparr>hm_records := R, hm_structs := (hm_structs M0)(a \<mapsto> s)\<rparr>) h"
  by (auto simp: history_at_def)

lemma history_at_destroy: "history_at M0 p M h \<Longrightarrow> trade_history_destroy M p = Some M0"
  using trade_cells.stored_destroy [of "hm_records M0" "hm_records M"]
  by (auto simp: history_at_def trade_history_destroy_def free_cell_def fun_upd_idem)

lemma drop_record_at:
  assumes "list_on_heap tr_next tr_trade R0 R (hs_trades s) as (t # ts)"
  obtains R1 s1 bs where "drop_record R s = Some (R1, s1)" "list_on_heap tr_next tr_trade R0 R1 (hs_trades s1) bs ts"
    "s1 = s\<lparr>hs_trades := hs_trades s1, hs_count := hs_count s - 1\<rparr>"
proof -
  obtain a where a: "hs_trades s = Some a" using assms by (cases "hs_trades s") auto
  obtain c bs where c: "R a = Some c" "list_on_heap tr_next tr_trade R0 (R(a := None)) (tr_next c) bs ts"
    using trade_cells.stored_pop [OF assms [unfolded a]] by (metis list.inject)
  with a that [of "R(a := None)" "s\<lparr>hs_trades := tr_next c, hs_count := hs_count s - 1\<rparr>" bs] show thesis
    by (simp add: drop_record_def free_cell_def)
qed

lemma make_room_at:
  assumes s: "list_on_heap tr_next tr_trade R0 R (hs_trades s) as (trades h)"
      "hs_count s = trade_count h" "hs_max s = max_trades h" "hs_all s = record_all_trades h" and h: "history_ok h"
  obtains R1 s1 bs h1 where "(if hs_max s \<le> hs_count s then drop_record R s else Some (R, s)) = Some (R1, s1)"
      "(if max_trades h \<le> trade_count h then (case trades h of [] \<Rightarrow> None
         | oldest # next \<Rightarrow> Some (h\<lparr>trades := next, trade_count := trade_count h - 1\<rparr>)) else Some h) = Some h1"
      "list_on_heap tr_next tr_trade R0 R1 (hs_trades s1) bs (trades h1)"
      "hs_count s1 = trade_count h1" "hs_max s1 = max_trades h1" "hs_all s1 = record_all_trades h1"
proof (cases "max_trades h \<le> trade_count h")
  case True
  then obtain x ts where x: "trades h = x # ts" using h by (cases "trades h") (auto simp: history_ok_def)
  obtain R1 s1 bs where r: "drop_record R s = Some (R1, s1)" "list_on_heap tr_next tr_trade R0 R1 (hs_trades s1) bs ts"
      "s1 = s\<lparr>hs_trades := hs_trades s1, hs_count := hs_count s - 1\<rparr>"
    by (rule drop_record_at [OF s(1) [unfolded x]])
  from r(3) have "hs_count s1 = hs_count s - 1" "hs_max s1 = hs_max s" "hs_all s1 = hs_all s"
    by (auto dest: arg_cong [of _ _ hs_count] arg_cong [of _ _ hs_max] arg_cong [of _ _ hs_all])
  with True s(2-4) x r(1,2) show thesis 
    by (intro that [of R1 s1 "h\<lparr>trades := ts, trade_count := trade_count h - 1\<rparr>" bs]) simp_all
qed (use s that in auto)

lemma history_at_add:
  assumes h: "history_at M0 p M h" "history_ok h" and alloc: "fresh_alloc alloc"
    and fin: "\<And>R. finite (dom R) \<Longrightarrow> alloc R \<noteq> None \<longleftrightarrow> ok" "finite (dom (hm_records M0))"
  shows "\<exists>r M1 h1. trade_history_add_trade_h alloc M p t' = Some (r, M1) \<and>
    trade_history_add_trade ok (Some h) t' = Some (r, Some h1) \<and> history_at M0 p M1 h1"
proof (cases t')
  case None
  with h show ?thesis by (auto simp: trade_history_add_trade_h_def trade_history_add_trade_def split: option.split)
next
  case (Some t)
  obtain a s as where a: "p = Some a" "hm_structs M0 a = None" "hm_structs M = (hm_structs M0)(a \<mapsto> s)"
     "list_on_heap tr_next tr_trade (hm_records M0) (hm_records M) (hs_trades s) as (trades h)"
     "hs_count s = trade_count h" "hs_max s = max_trades h" "hs_all s = record_all_trades h"
    using h(1) by (auto simp: history_at_def)
  obtain R s1 bs h1 where 1: "(if hs_max s \<le> hs_count s then drop_record (hm_records M) s else Some (hm_records M, s)) = Some (R, s1)"
      "(if max_trades h \<le> trade_count h then (case trades h of [] \<Rightarrow> None
         | oldest # next \<Rightarrow> Some (h\<lparr>trades := next, trade_count := trade_count h - 1\<rparr>)) else Some h) = Some h1"
      "list_on_heap tr_next tr_trade (hm_records M0) R (hs_trades s1) bs (trades h1)"
      "hs_count s1 = trade_count h1" "hs_max s1 = max_trades h1" "hs_all s1 = record_all_trades h1"
    by (rule make_room_at [OF a(4-7) h(2)])
  have ok: "alloc R \<noteq> None \<longleftrightarrow> ok" using fin(1) list_on_heap_finite [OF 1(3) fin(2)] by blast
  show ?thesis
  proof (cases "alloc R")
    case None
    with Some a(1,3) 1(1,2) ok have "trade_history_add_trade_h alloc M p t' =
        Some (- 1, M\<lparr>hm_records := R, hm_structs := (hm_structs M0)(a \<mapsto> s1)\<rparr>)"
      "trade_history_add_trade ok (Some h) t' = Some (- 1, Some h1)"
      by (simp_all add: trade_history_add_trade_h_def trade_history_add_trade_def)
    with history_atI [OF a(2) 1(3-6), of M] a(1) show ?thesis by blast
  next
    case (Some r)
    let ?s = "s1\<lparr>hs_trades := Some r, hs_count := hs_count s1 + 1\<rparr>" and ?h = "h1\<lparr>trades := t # trades h1, trade_count := trade_count h1 + 1\<rparr>"
    let ?R = "R(r \<mapsto> \<lparr>tr_trade = t, tr_next = hs_trades s1\<rparr>)"
    from Some a(1,3) 1(1,2) \<open>t' = Some t\<close> ok have "trade_history_add_trade_h alloc M p t' =
        Some (0, M\<lparr>hm_records := ?R, hm_structs := (hm_structs M0)(a \<mapsto> ?s)\<rparr>)"
      "trade_history_add_trade ok (Some h) t' = Some (0, Some ?h)"
      by (simp_all add: trade_history_add_trade_h_def trade_history_add_trade_def)
    moreover have "R r = None" using Some alloc by (auto simp: fresh_alloc_def)
    then have "list_on_heap tr_next tr_trade (hm_records M0) ?R (hs_trades ?s) (r # bs) (trades ?h)"
      using trade_cells.stored_push [OF 1(3), of r "\<lparr>tr_trade = t, tr_next = hs_trades s1\<rparr>"] by simp
    then have "history_at M0 (Some a) (M\<lparr>hm_records := ?R, hm_structs := (hm_structs M0)(a \<mapsto> ?s)\<rparr>) ?h"
      by (rule history_atI [OF a(2)]) (use 1(4-6) in simp_all)
    ultimately show ?thesis using a(1) by blast
  qed
qed

text \<open>
  A call that records a trade, or is given NULL; the flag says whether there is memory for the record, and \<open>f\<close> gives
  the address.
\<close>

fun record_h :: "((addr \<rightharpoonup> TradeRecord) \<Rightarrow> addr) \<Rightarrow> addr option \<Rightarrow> bool \<times> TradeMessage option \<Rightarrow> history_mem \<Rightarrow> (rc \<times> history_mem) option" where
  "record_h f p (ok, t) M = trade_history_add_trade_h (alloc_if ok f) M p t"

fun record_l :: "bool \<times> TradeMessage option \<Rightarrow> TradeHistory \<Rightarrow> (rc \<times> TradeHistory) option" where
  "record_l (ok, t) h = do { (r, h1) \<leftarrow> trade_history_add_trade ok (Some h) t; map_option (Pair r) h1 }"

lemma history_at_create:
  "hm_structs M0 a = None \<Longrightarrow> trade_history_create_h (Some a) c M0 = (M, Some a) \<Longrightarrow> trade_history_create True c = Some h \<Longrightarrow>
   history_at M0 (Some a) M h"
  by (auto simp: history_at_def trade_history_create_h_def trade_history_create_def list_on_heap_Nil)

interpretation history_heap: simulation "record_h f p" record_l
  "\<lambda>M h. history_at M0 p M h \<and> history_ok h \<and> finite (dom (hm_records M0)) \<and> fresh_addr f" for f M0 p
proof unfold_locales
  fix c :: "bool \<times> TradeMessage option" and M h
  assume h: "history_at M0 p M h \<and> history_ok h \<and> finite (dom (hm_records M0)) \<and> fresh_addr f"
  obtain ok t where c: "c = (ok, t)" by (cases c)
  obtain r M1 h1 where r: "trade_history_add_trade_h (alloc_if ok f) M p t = Some (r, M1)"
      "trade_history_add_trade ok (Some h) t = Some (r, Some h1)" "history_at M0 p M1 h1"
    using history_at_add [of M0 p M h "alloc_if ok f" ok t] h alloc_if_Some [of f _ ok] fresh_alloc_if by blast
  have "history_ok h1" using history_machine.step_inv history_step.intros [OF r(2)] h by blast
  with r h c show "\<exists>r M' h'. record_h f p c M = Some (r, M') \<and> record_l c h = Some (r, h') \<and>
      history_at M0 p M' h' \<and> history_ok h' \<and> finite (dom (hm_records M0)) \<and> fresh_addr f" by auto
qed

section \<open>Order entry\<close>

record order_cell =
  cell_record :: OrderRecord
  cell_next :: "addr option"

record entry_struct =
  es_active_orders :: "addr option"
  es_active_count :: int
  es_total_notional :: double
  es_max_orders :: int
  es_max_notional :: double
  es_trader_id :: "addr option"

record entry_mem =
  em_records :: "addr \<rightharpoonup> order_cell"
  em_strings :: "addr \<rightharpoonup> string"
  em_structs :: "addr \<rightharpoonup> entry_struct"

text \<open>\<open>dup\<close> is what \<open>strdup\<close> returns for the trader id; it is not tested.\<close>

definition order_entry_create_h :: "addr option \<Rightarrow> addr option \<Rightarrow> OrderEntryConfig \<Rightarrow> entry_mem \<Rightarrow> entry_mem \<times> addr option" where
  "order_entry_create_h new dup c M = (case new of None \<Rightarrow> (M, None)
     | Some a \<Rightarrow> (M\<lparr>em_strings := (case dup of None \<Rightarrow> em_strings M | Some t \<Rightarrow> (em_strings M)(t \<mapsto> oc_trader_id c)),
          em_structs := (em_structs M)(a \<mapsto> \<lparr>es_active_orders = None, es_active_count = 0, es_total_notional = Fin 0,
            es_max_orders = oc_max_orders c, es_max_notional = oc_max_notional c, es_trader_id = dup\<rparr>)\<rparr>, Some a))"

definition order_entry_submit_h ::
  "((addr \<rightharpoonup> order_cell) \<Rightarrow> addr option) \<Rightarrow> entry_mem \<Rightarrow> addr option \<Rightarrow> string option \<Rightarrow> double \<Rightarrow> int \<Rightarrow> bool \<Rightarrow> (rc \<times> entry_mem) option" where
  "order_entry_submit_h alloc M e' sy' p q buy = (case (e', sy') of
     (Some a, Some sy) \<Rightarrow> do {
       s \<leftarrow> em_structs M a;
       let new_notional = d_mul p (d_of_int q);
       if es_max_orders s \<le> es_active_count s then Some (- 1, M)
       else if d_lt (es_max_notional s) (d_add (es_total_notional s) new_notional) then Some (- 1, M)
       else (case alloc (em_records M) of None \<Rightarrow> Some (- 1, M)
         | Some r \<Rightarrow> Some (0, M\<lparr>
             em_records := (em_records M)(r \<mapsto> \<lparr>cell_record = \<lparr>or_order_id = snprintf 32 (''ORD'' @ show_int (es_active_count s + 1)),
                 or_symbol = copy_field 16 sy, or_price = p, or_quantity = q, or_is_buy = buy\<rparr>, cell_next = es_active_orders s\<rparr>),
             em_structs := (em_structs M)(a \<mapsto> s\<lparr>es_active_orders := Some r, es_active_count := es_active_count s + 1,
                 es_total_notional := d_add (es_total_notional s) new_notional\<rparr>)\<rparr>)) }
   | _ \<Rightarrow> Some (- 1, M))"

text \<open>The record is unlinked, its price and quantity are read, and it is freed.\<close>

definition order_entry_cancel_h :: "entry_mem \<Rightarrow> addr option \<Rightarrow> string option \<Rightarrow> (rc \<times> entry_mem) option" where
  "order_entry_cancel_h M e' oid' = (case (e', oid') of
     (Some a, Some oid) \<Rightarrow> do {
       s \<leftarrow> em_structs M a;
       found \<leftarrow> find_prev cell_next (\<lambda>c. or_order_id (cell_record c) = oid) (em_records M) None (es_active_orders s);
       (case found of None \<Rightarrow> Some (- 1, M)
        | Some (prev, k) \<Rightarrow> do {
            c \<leftarrow> em_records M k;
            (R, hd_ptr) \<leftarrow> unlink_after (\<lambda>n. cell_next_update (\<lambda>_. n)) (em_records M) (es_active_orders s) prev (cell_next c);
            c1 \<leftarrow> R k;
            R1 \<leftarrow> free_cell R k;
            Some (0, M\<lparr>em_records := R1, em_structs := (em_structs M)(a \<mapsto> s\<lparr>es_active_orders := hd_ptr,
                es_total_notional := d_sub (es_total_notional s) (d_mul (or_price (cell_record c1)) (d_of_int (or_quantity (cell_record c1)))),
                es_active_count := es_active_count s - 1\<rparr>)\<rparr>) }) }
   | _ \<Rightarrow> Some (- 1, M))"

definition order_entry_destroy :: "entry_mem \<Rightarrow> addr option \<Rightarrow> entry_mem option" where
  "order_entry_destroy M e' = (case e' of None \<Rightarrow> Some M
     | Some a \<Rightarrow> do {
         s \<leftarrow> em_structs M a;
         R \<leftarrow> free_cells cell_next (em_records M) (es_active_orders s);
         T \<leftarrow> free_ptr (em_strings M) (es_trader_id s);
         S \<leftarrow> free_cell (em_structs M) a;
         Some \<lparr>em_records = R, em_strings = T, em_structs = S\<rparr> })"

interpretation order_cells: linked_cells cell_next "\<lambda>n. cell_next_update (\<lambda>_. n)" cell_record
  by unfold_locales simp_all

text \<open>A string that was copied, or none.\<close>

definition string_at :: "(addr \<rightharpoonup> string) \<Rightarrow> (addr \<rightharpoonup> string) \<Rightarrow> addr option \<Rightarrow> string option \<Rightarrow> bool" where
  "string_at T0 T p x \<longleftrightarrow> (case p of None \<Rightarrow> x = None \<and> T = T0 | Some t \<Rightarrow> T0 t = None \<and> (\<exists>y. x = Some y \<and> T = T0(t \<mapsto> y)))"

definition entry_at :: "entry_mem \<Rightarrow> addr option \<Rightarrow> entry_mem \<Rightarrow> OrderEntry \<Rightarrow> bool" where
  "entry_at M0 p M e \<longleftrightarrow> (\<exists>a s as. p = Some a \<and> em_structs M0 a = None \<and> em_structs M = (em_structs M0)(a \<mapsto> s) \<and>
     list_on_heap cell_next cell_record (em_records M0) (em_records M) (es_active_orders s) as (active_orders e) \<and>
     string_at (em_strings M0) (em_strings M) (es_trader_id s) (oe_trader_id e) \<and> es_active_count s = active_count e \<and>
     es_total_notional s = total_notional e \<and> es_max_orders s = oe_max_orders e \<and> es_max_notional s = max_notional e)"

lemma entry_atI:
  "em_structs M0 a = None \<Longrightarrow> list_on_heap cell_next cell_record (em_records M0) R (es_active_orders s) as (active_orders e) \<Longrightarrow>
   string_at (em_strings M0) (em_strings M) (es_trader_id s) (oe_trader_id e) \<Longrightarrow> es_active_count s = active_count e \<Longrightarrow>
   es_total_notional s = total_notional e \<Longrightarrow> es_max_orders s = oe_max_orders e \<Longrightarrow> es_max_notional s = max_notional e \<Longrightarrow>
   entry_at M0 (Some a) (M\<lparr>em_records := R, em_structs := (em_structs M0)(a \<mapsto> s)\<rparr>) e"
  by (auto simp: entry_at_def)

lemma entry_atE:
  assumes "entry_at M0 p M e"
  obtains a s as where "p = Some a" "em_structs M0 a = None" "em_structs M = (em_structs M0)(a \<mapsto> s)"
     "list_on_heap cell_next cell_record (em_records M0) (em_records M) (es_active_orders s) as (active_orders e)"
     "string_at (em_strings M0) (em_strings M) (es_trader_id s) (oe_trader_id e)" "es_active_count s = active_count e"
     "es_total_notional s = total_notional e" "es_max_orders s = oe_max_orders e" "es_max_notional s = max_notional e"
  using assms unfolding entry_at_def by blast

lemma entry_at_destroy: "entry_at M0 p M e \<Longrightarrow> order_entry_destroy M p = Some M0"
  using order_cells.stored_destroy [of "em_records M0" "em_records M"]
  by (auto simp: entry_at_def order_entry_destroy_def free_cell_def free_ptr_def string_at_def fun_upd_idem split: option.splits)

lemma entry_at_submit:
  assumes e: "entry_at M0 p M e" and alloc: "fresh_alloc alloc"
  shows "\<exists>r M1 e1. order_entry_submit_h alloc M p sy' pr q buy = Some (r, M1) \<and>
    order_entry_submit (alloc (em_records M) \<noteq> None) (Some e) sy' pr q buy = (r, Some e1) \<and> entry_at M0 p M1 e1"
proof (cases sy')
  case None
  with e show ?thesis by (auto simp: order_entry_submit_h_def order_entry_submit_def split: option.split)
next
  case (Some sy)
  obtain a s as where a: "p = Some a" "em_structs M0 a = None" "em_structs M = (em_structs M0)(a \<mapsto> s)"
     "list_on_heap cell_next cell_record (em_records M0) (em_records M) (es_active_orders s) as (active_orders e)"
     "string_at (em_strings M0) (em_strings M) (es_trader_id s) (oe_trader_id e)" "es_active_count s = active_count e"
     "es_total_notional s = total_notional e" "es_max_orders s = oe_max_orders e" "es_max_notional s = max_notional e"
    using e by (rule entry_atE)
  let ?full = "oe_max_orders e \<le> active_count e \<or> d_lt (max_notional e) (d_add (total_notional e) (d_mul pr (d_of_int q)))"
  show ?thesis
  proof (cases "\<not> ?full \<and> alloc (em_records M) \<noteq> None")
    case False
    then have "order_entry_submit_h alloc M p sy' pr q buy = Some (- 1, M)"
      "order_entry_submit (alloc (em_records M) \<noteq> None) (Some e) sy' pr q buy = (- 1, Some e)"
      using a(1,3,6-9) Some by (auto simp: order_entry_submit_h_def order_entry_submit_def Let_def)
    with e show ?thesis by blast
  next
    case True
    then obtain r where r: "alloc (em_records M) = Some r" "em_records M r = None" using alloc by (auto simp: fresh_alloc_def)
    let ?n = "d_add (total_notional e) (d_mul pr (d_of_int q))"
    let ?x = "\<lparr>or_order_id = snprintf 32 (''ORD'' @ show_int (active_count e + 1)), or_symbol = copy_field 16 sy, or_price = pr,
      or_quantity = q, or_is_buy = buy\<rparr>"
    let ?R = "(em_records M)(r \<mapsto> \<lparr>cell_record = ?x, cell_next = es_active_orders s\<rparr>)"
    let ?s = "s\<lparr>es_active_orders := Some r, es_active_count := active_count e + 1, es_total_notional := ?n\<rparr>"
    let ?e = "e\<lparr>active_orders := ?x # active_orders e, active_count := active_count e + 1, total_notional := ?n\<rparr>"
    have "order_entry_submit_h alloc M p sy' pr q buy = Some (0, M\<lparr>em_records := ?R, em_structs := (em_structs M0)(a \<mapsto> ?s)\<rparr>)"
        "order_entry_submit (alloc (em_records M) \<noteq> None) (Some e) sy' pr q buy = (0, Some ?e)"
      using True a(1,3,6-9) Some r by (simp_all add: order_entry_submit_h_def order_entry_submit_def Let_def)
    moreover have "list_on_heap cell_next cell_record (em_records M0) ?R (Some r) (r # as) (active_orders ?e)"
      using order_cells.stored_push [OF a(4) r(2), of "\<lparr>cell_record = ?x, cell_next = es_active_orders s\<rparr>"] by simp
    then have "entry_at M0 (Some a) (M\<lparr>em_records := ?R, em_structs := (em_structs M0)(a \<mapsto> ?s)\<rparr>) ?e"
      by (intro entry_atI [OF a(2)]) (use a(5-9) in simp_all)
    ultimately show ?thesis using a(1) by blast
  qed
qed

lemma unlink_record_index:
  "unlink_record rs oid = map_option (\<lambda>i. (rs ! i, take i rs @ drop (Suc i) rs)) (find_index (\<lambda>r. or_order_id r = oid) rs)"
  by (induction rs) (auto simp: option.map_comp comp_def split: option.split)

lemma entry_at_cancel:
  assumes e: "entry_at M0 p M e"
  shows "\<exists>r M1 e1. order_entry_cancel_h M p oid' = Some (r, M1) \<and> order_entry_cancel (Some e) oid' = (r, Some e1) \<and> entry_at M0 p M1 e1"
proof (cases oid')
  case None
  with e show ?thesis by (auto simp: order_entry_cancel_h_def order_entry_cancel_def split: option.split)
next
  case (Some oid)
  obtain a s as where a: "p = Some a" "em_structs M0 a = None" "em_structs M = (em_structs M0)(a \<mapsto> s)"
     "list_on_heap cell_next cell_record (em_records M0) (em_records M) (es_active_orders s) as (active_orders e)"
     "string_at (em_strings M0) (em_strings M) (es_trader_id s) (oe_trader_id e)" "es_active_count s = active_count e"
     "es_total_notional s = total_notional e" "es_max_orders s = oe_max_orders e" "es_max_notional s = max_notional e"
    using e by (rule entry_atE)
  have f: "find_prev cell_next (\<lambda>c. or_order_id (cell_record c) = oid) (em_records M) None (es_active_orders s) =
      Some (map_option (\<lambda>i. ((None # map Some as) ! i, as ! i)) (find_index (\<lambda>r. or_order_id r = oid) (active_orders e)))"
    by (rule order_cells.stored_find [OF a(4)])
  show ?thesis
  proof (cases "find_index (\<lambda>r. or_order_id r = oid) (active_orders e)")
    case None
    then have "order_entry_cancel_h M p oid' = Some (- 1, M)" "order_entry_cancel (Some e) oid' = (- 1, Some e)"
      using f a(1,3) Some unlink_record_index [of "active_orders e" oid]
      by (simp_all add: order_entry_cancel_h_def order_entry_cancel_def del: find_index_None)
    with e show ?thesis by blast
  next
    case (Some i)
    let ?k = "as ! i" and ?x = "active_orders e ! i" and ?xs = "take i (active_orders e) @ drop (Suc i) (active_orders e)"
    have i: "i < length (active_orders e)" using find_index_SomeD [OF Some] by blast
    obtain c where c: "em_records M ?k = Some c" "cell_record c = ?x" using order_cells.stored_nth [OF a(4) i] by blast
    obtain R q where u: "unlink_after (\<lambda>n. cell_next_update (\<lambda>_. n)) (em_records M) (es_active_orders s) ((None # map Some as) ! i) (cell_next c) = Some (R, q)"
        "R ?k = Some c" "list_on_heap cell_next cell_record (em_records M0) (R(?k := None)) q (take i as @ drop (Suc i) as) ?xs"
      using order_cells.stored_remove [OF a(4) i c(1)] by blast
    let ?n = "d_sub (total_notional e) (d_mul (or_price ?x) (d_of_int (or_quantity ?x)))"
    let ?s = "s\<lparr>es_active_orders := q, es_total_notional := ?n, es_active_count := active_count e - 1\<rparr>"
    let ?e = "e\<lparr>active_orders := ?xs, total_notional := ?n, active_count := active_count e - 1\<rparr>"
    have "order_entry_cancel_h M p oid' = Some (0, M\<lparr>em_records := R(?k := None), em_structs := (em_structs M0)(a \<mapsto> ?s)\<rparr>)"
      using f Some c u(1,2) a(1,3,6,7) \<open>oid' = Some oid\<close> by (simp add: order_entry_cancel_h_def free_cell_def)
    moreover have "order_entry_cancel (Some e) oid' = (0, Some ?e)"
      using Some \<open>oid' = Some oid\<close> unlink_record_index [of "active_orders e" oid] by (simp add: order_entry_cancel_def)
    moreover have "entry_at M0 (Some a) (M\<lparr>em_records := R(?k := None), em_structs := (em_structs M0)(a \<mapsto> ?s)\<rparr>) ?e"
      by (rule entry_atI [OF a(2)]) (use u(3) a(5-9) in simp_all)
    ultimately show ?thesis using a(1) by blast
  qed
qed

text \<open>A call of the order entry with its arguments; the flag of a submission says whether there is memory for its record.\<close>

datatype entry_op = Submit bool "string option" double int bool | Cancel "string option"

fun entry_call_h :: "((addr \<rightharpoonup> order_cell) \<Rightarrow> addr) \<Rightarrow> addr option \<Rightarrow> entry_op \<Rightarrow> entry_mem \<Rightarrow> (rc \<times> entry_mem) option" where
  "entry_call_h f p (Submit ok sy pr q buy) M = order_entry_submit_h (alloc_if ok f) M p sy pr q buy"
| "entry_call_h f p (Cancel oid) M = order_entry_cancel_h M p oid"

fun entry_call_l :: "entry_op \<Rightarrow> OrderEntry \<Rightarrow> (rc \<times> OrderEntry) option" where
  "entry_call_l (Submit ok sy pr q buy) e = (let (r, e1) = order_entry_submit ok (Some e) sy pr q buy in map_option (Pair r) e1)"
| "entry_call_l (Cancel oid) e = (let (r, e1) = order_entry_cancel (Some e) oid in map_option (Pair r) e1)"

lemma entry_at_create:
  "em_structs M0 a = None \<Longrightarrow> (\<And>t. dup = Some t \<Longrightarrow> em_strings M0 t = None) \<Longrightarrow> order_entry_create_h (Some a) dup c M0 = (M, Some a) \<Longrightarrow>
   order_entry_create True (dup \<noteq> None) c = Some e \<Longrightarrow> entry_at M0 (Some a) M e"
  by (auto simp: entry_at_def order_entry_create_h_def order_entry_create_def list_on_heap_Nil string_at_def split: option.split)

interpretation entry_heap: simulation "entry_call_h f p" entry_call_l
  "\<lambda>M e. entry_at M0 p M e \<and> finite (dom (em_records M0)) \<and> fresh_addr f" for f M0 p
proof unfold_locales
  fix c :: entry_op and M e
  assume e: "entry_at M0 p M e \<and> finite (dom (em_records M0)) \<and> fresh_addr f"
  then have "finite (dom (em_records M))" by (meson entry_atE list_on_heap_finite)
  then have ok: "alloc_if ok f (em_records M) \<noteq> None \<longleftrightarrow> ok" for ok using e alloc_if_Some by blast
  have "\<exists>r M' e'. entry_call_h f p c M = Some (r, M') \<and> entry_call_l c e = Some (r, e') \<and> entry_at M0 p M' e'"
  proof (cases c)
    case (Submit ok sy pr q buy)
    with entry_at_submit [of M0 p M e "alloc_if ok f" sy pr q buy] e ok [of ok] show ?thesis by auto
  next
    case (Cancel oid)
    with entry_at_cancel [of M0 p M e oid] e show ?thesis by auto
  qed
  with e show "\<exists>r M' e'. entry_call_h f p c M = Some (r, M') \<and> entry_call_l c e = Some (r, e') \<and>
      entry_at M0 p M' e' \<and> finite (dom (em_records M0)) \<and> fresh_addr f" by blast
qed

end
