(* ===== verification/Client_Lifetimes.thy ===== *)
theory Client_Lifetimes
  imports Client_App Client_Heap
begin

text \<open>
  What the client gives back: \<open>market_monitor_destroy\<close> with the arrays of the stored books, and the end of \<open>main\<close> of
  \<open>src/client/client_app.c\<close>, which destroys the five components in turn. The arrays of a stored book are the
  caller's: \<open>market_monitor_update_book\<close> copies the pointers.
\<close>

section \<open>Market monitor\<close>

text \<open>Of each watched symbol the four array pointers of its latest book.\<close>

record monitor_struct =
  mo_symbols :: "addr option"
  mo_count :: int

record monitor_mem =
  nm_structs :: "addr \<rightharpoonup> monitor_struct"
  nm_symbols :: "addr \<rightharpoonup> addr option list list"
  nm_arrays :: "addr \<rightharpoonup> nat"

text \<open>The \<open>memcpy\<close> of \<open>market_monitor_update_book\<close> for the symbol at index \<open>i\<close>.\<close>

definition store_book :: "monitor_mem \<Rightarrow> addr option \<Rightarrow> nat \<Rightarrow> addr option list \<Rightarrow> monitor_mem option" where
  "store_book M p i ptrs = do {
     a \<leftarrow> p;
     s \<leftarrow> nm_structs M a;
     q \<leftarrow> mo_symbols s;
     syms \<leftarrow> nm_symbols M q;
     syms1 \<leftarrow> array_set syms (int i) ptrs;
     Some (M\<lparr>nm_symbols := (nm_symbols M)(q \<mapsto> syms1)\<rparr>) }"

definition market_monitor_destroy :: "monitor_mem \<Rightarrow> addr option \<Rightarrow> monitor_mem option" where
  "market_monitor_destroy M p = (case p of None \<Rightarrow> Some M
     | Some a \<Rightarrow> do {
         s \<leftarrow> nm_structs M a;
         q \<leftarrow> mo_symbols s;
         syms \<leftarrow> nm_symbols M q;
         used \<leftarrow> (if mo_count s \<le> int (length syms) then Some (take (nat (mo_count s)) syms) else None);
         A \<leftarrow> free_ptrs (nm_arrays M) (concat used);
         Y \<leftarrow> free_ptr (nm_symbols M) (mo_symbols s);
         S \<leftarrow> free_cell (nm_structs M) a;
         Some \<lparr>nm_structs = S, nm_symbols = Y, nm_arrays = A\<rparr> })"

text \<open>
  The monitor frees the arrays of its books exactly when they are live and no two of them are the same; a caller that
  frees the arrays of a snapshot it passed on makes the destructor fault.
\<close>

lemma monitor_destroy_shared:
  assumes s: "nm_structs M a = Some s" "mo_symbols s = Some q" "nm_symbols M q = Some syms" "mo_count s = int (length syms)"
    and b: "store_book M (Some a) i ptrs = Some M1" "Some k \<in> set ptrs" "nm_arrays M k \<noteq> None"
  shows "market_monitor_destroy (M1\<lparr>nm_arrays := (nm_arrays M1)(k := None)\<rparr>) (Some a) = None"
proof -
  have i: "i < length syms" and M1: "M1 = M\<lparr>nm_symbols := (nm_symbols M)(q \<mapsto> syms[i := ptrs])\<rparr>"
    using s b(1) by (auto simp: store_book_def array_set_def split: if_splits)
  have "ptrs \<in> set (syms[i := ptrs])" using i by (rule set_update_memI)
  then have "Some k \<in> set (concat (syms[i := ptrs]))" using b(2) by auto
  from free_ptrs_dead [OF this, of "(nm_arrays M)(k := None)"] s M1 show ?thesis by (simp add: market_monitor_destroy_def)
qed

section \<open>The end of main\<close>

record client_mem =
  cm_monitor :: monitor_mem
  cm_history :: history_mem
  cm_entry :: entry_mem
  cm_lines :: "addr \<rightharpoonup> CommandLine"
  cm_clients :: "addr \<rightharpoonup> WSConnection"

text \<open>How often the main loop sleeps, given the values of \<open>running\<close> it reads.\<close>

fun wait_loop :: "bool list \<Rightarrow> nat" where
  "wait_loop [] = 0"
| "wait_loop (run # rs) = (if run then Suc (wait_loop rs) else 0)"

text \<open>The label \<open>cleanup\<close>; the last component is whether the process was ended on the way.\<close>

definition client_cleanup ::
  "client_mem \<Rightarrow> addr option \<Rightarrow> addr option \<Rightarrow> addr option \<Rightarrow> addr option \<Rightarrow> addr option \<Rightarrow> (client_mem \<times> bool) option" where
  "client_cleanup K monitor history entry line_ptr client_ptr = do {
     N \<leftarrow> market_monitor_destroy (cm_monitor K) monitor;
     H \<leftarrow> trade_history_destroy (cm_history K) history;
     E \<leftarrow> order_entry_destroy (cm_entry K) entry;
     L \<leftarrow> free_ptr (cm_lines K) line_ptr;
     let K1 = K\<lparr>cm_monitor := N, cm_history := H, cm_entry := E, cm_lines := L\<rparr>;
     (case client_ptr of None \<Rightarrow> Some (K1, False)
      | Some a \<Rightarrow> do {
          c \<leftarrow> cm_clients K a;
          (if fst (ws_client_destroy (Some c)) then do { W \<leftarrow> free_cell (cm_clients K) a; Some (K1\<lparr>cm_clients := W\<rparr>, False) }
           else Some (K1, True)) }) }"

lemma client_cleanup_frees:
  assumes m: "nm_structs (cm_monitor K) a = Some s" "mo_symbols s = Some q" "nm_symbols (cm_monitor K) q = Some syms" "mo_count s = int (length syms)"
      "distinct (filter (\<lambda>p. p \<noteq> None) (concat syms))" "\<And>k. Some k \<in> set (concat syms) \<Longrightarrow> nm_arrays (cm_monitor K) k \<noteq> None"
    and h: "history_at H0 hp (cm_history K) h" and e: "entry_at E0 ep (cm_entry K) oe"
    and c: "cm_lines K l = Some cl" "cm_clients K w = Some c" "\<not> wc_running c"
  shows "client_cleanup K (Some a) hp ep (Some l) (Some w) = Some (\<lparr>
    cm_monitor = \<lparr>nm_structs = (nm_structs (cm_monitor K))(a := None), nm_symbols = (nm_symbols (cm_monitor K))(q := None),
      nm_arrays = nm_arrays (cm_monitor K) |` (- {k. Some k \<in> set (concat syms)})\<rparr>,
    cm_history = H0, cm_entry = E0, cm_lines = (cm_lines K)(l := None), cm_clients = (cm_clients K)(w := None)\<rparr>, False)"
  using m(1-4) free_ptrs_live [OF m(5), of "nm_arrays (cm_monitor K)"] m(6) history_at_destroy [OF h] entry_at_destroy [OF e] c
  by (simp add: client_cleanup_def market_monitor_destroy_def free_ptr_def free_cell_def ws_client_destroy_def Let_def)

text \<open>A client that is still running ends the process in \<open>ws_client_destroy\<close> before its struct is freed.\<close>

lemma client_cleanup_exits:
  assumes "client_cleanup K m hp ep l (Some w) = Some (K1, ended)" "cm_clients K w = Some c" "wc_running c"
  shows "ended \<and> cm_clients K1 w = Some c"
  using assms by (auto simp: client_cleanup_def ws_client_destroy_def ws_client_disconnect_def ws_client_force_shutdown_def Let_def bind_eq_Some_conv)

end
