(* ===== verification/Client_Properties.thy ===== *)
theory Client_Properties
  imports Client_Lifetimes Ws_Server Protocol_Properties
begin

text \<open>
  The properties of the client: its trade history and order limits, on lists and with their linked records, its
  reaction to the server's messages, reconnection, and the command line.
\<close>

section \<open>Trade history\<close>

text \<open>C38. After any number of recorded trades the history holds at most \<open>max_trades\<close> of them and its counter agrees. While
  they fit, it holds all, the latest first; after that it holds the latest trade and the first
  \<open>max_trades - 1\<close> ever recorded: the record dropped to make room is the newest, not the oldest.\<close>

theorem history_holds:
  assumes "trade_history_create True c = Some h" "0 < hc_max_trades c"
  shows "\<exists>h'. record_trades h ts = Some h' \<and> trade_count h' = int (length (trades h')) \<and> trade_count h' \<le> hc_max_trades c \<and>
    trades h' = (if int (length ts) \<le> hc_max_trades c then rev ts else last ts # rev (take (nat (hc_max_trades c) - 1) ts))"
proof -
  obtain h' where h': "record_trades h ts = Some h'" "history_ok h'" "max_trades h' = hc_max_trades c"
      "trades h' = kept (nat (hc_max_trades c)) ts"
    using record_trades_kept [OF assms, of ts] by blast
  have "int (length ts) \<le> hc_max_trades c \<longleftrightarrow> length ts \<le> nat (hc_max_trades c)" using assms(2) by linarith
  with h' show ?thesis by (auto simp: history_ok_def kept_def)
qed

definition sample_trade_message :: "int \<Rightarrow> TradeMessage" where
  "sample_trade_message t = \<lparr>tm_symbol = strncpy (replicate 16 NUL) ''AAPL'' 15, tm_buy_order_id = strncpy (replicate 32 NUL) ''B'' 31,
     tm_sell_order_id = strncpy (replicate 32 NUL) ''S'' 31, tm_price = Fin 10, tm_quantity = 1, tm_timestamp = t\<rparr>"

theorem history_holds_witness:
  "\<exists>h h'. trade_history_create True \<lparr>hc_max_trades = 2, hc_record_all_trades = True\<rparr> = Some h \<and>
     record_trades h [sample_trade_message 1, sample_trade_message 2, sample_trade_message 3] = Some h' \<and>
     map tm_timestamp (trades h') = [3, 1]"
proof -
  let ?c = "\<lparr>hc_max_trades = 2, hc_record_all_trades = True\<rparr>"
  obtain h where h: "trade_history_create True ?c = Some h" by (simp add: trade_history_create_def)
  from history_holds [OF h, of "[sample_trade_message 1, sample_trade_message 2, sample_trade_message 3]"] h
  show ?thesis by (auto simp: sample_trade_message_def)
qed

section \<open>Order entry\<close>

lemma unlink_record_None: "unlink_record rs oid = None \<longleftrightarrow> oid \<notin> or_order_id ` set rs"
  by (induction rs) auto

lemma fresh_ids:
  assumes "order_entry_create True d c = Some e" "submit_all e os = Some e1"
  shows "map or_order_id (active_orders e1) = rev (map (\<lambda>i. ord_id (int i + 1)) [0..<length os])"
    "active_count e1 = int (length os)" "os = [] \<or> int (length os) \<le> oc_max_orders c"
  using submit_all_ids [OF assms(2)] assms(1) by (auto simp: order_entry_create_def algebra_simps)

text \<open>The ids that \<open>order_entry_submit\<close> gives to consecutive orders are different. But the id is made from the number of open
  orders: after an earlier one of \<open>n\<close> orders was canceled, the next accepted order gets the id of the
  \<open>n\<close>-th, which is still open.\<close>

lemma order_ids_collide:
  assumes "order_entry_create True d c = Some e" "fits 32 (oc_max_orders c)" "submit_all e os = Some e1"
    and "1 \<le> k" "k < int (length os)" "order_entry_cancel (Some e1) (Some (ord_id k)) = (r, Some e2)"
    and "order_entry_submit True (Some e2) (Some sy) p q buy = (0, Some e3)"
  shows "distinct (map or_order_id (active_orders e1)) \<and> r = 0 \<and>
    or_order_id (hd (active_orders e3)) = ord_id (int (length os)) \<and>
    ord_id (int (length os)) \<in> or_order_id ` set (active_orders e2) \<and> \<not> distinct (map or_order_id (active_orders e3))"
proof -
  let ?n = "int (length os)"
  note ids = fresh_ids [OF assms(1,3)]
  have fit: "fits 32 i" if "0 \<le> i" "i \<le> ?n" for i using that ids(3) assms(2,5,4) by (auto simp: fits_def)
  have inj: "ord_id i = ord_id j \<longleftrightarrow> i = j" if "0 \<le> i" "i \<le> ?n" "0 \<le> j" "j \<le> ?n" for i j
    using ord_id_inj [of i j] fit [of i] fit [of j] that by blast
  have dist: "distinct (map or_order_id (active_orders e1))"
    unfolding ids(1) distinct_rev distinct_map using inj by (auto intro!: inj_onI)
  have mem: "ord_id i \<in> or_order_id ` set (active_orders e1)" if "1 \<le> i" "i \<le> ?n" for i
  proof -
    have "i = int (nat (i - 1)) + 1" "nat (i - 1) < length os" using that by linarith+
    then have "ord_id i \<in> set (map or_order_id (active_orders e1))"
      unfolding ids(1) set_rev set_map by (intro image_eqI [of _ _ "nat (i - 1)"]) auto
    then show ?thesis by simp
  qed
  obtain x rs where u: "unlink_record (active_orders e1) (ord_id k) = Some (x, rs)"
    using mem [of k] assms(4,5) unlink_record_None by (metis less_le not_None_eq surj_pair)
  from unlink_record_SomeD [OF u] obtain us vs where uv: "active_orders e1 = us @ x # vs" "rs = us @ vs" "or_order_id x = ord_id k" by blast
  have e2: "r = 0" "active_orders e2 = rs" "active_count e2 = ?n - 1"
    using assms(6) u ids(2) by (auto simp: order_entry_cancel_def)
  have "ord_id ?n \<noteq> ord_id k" using inj [of ?n k] assms(4,5) by simp
  then have in2: "ord_id ?n \<in> or_order_id ` set (active_orders e2)"
    using mem [of ?n] assms(4,5) uv e2(2) by auto
  note s = submit_SomeD(1) [OF assms(7)]
  show ?thesis using dist e2 in2 s by auto
qed

section \<open>The lists with their pointers\<close>

text \<open>C39. The linked records of the client. On a new trade history with a positive \<open>max_trades\<close> any sequence of
  \<open>trade_history_add_trade\<close> calls, and on a new order entry any sequence of \<open>order_entry_submit\<close> and \<open>order_entry_cancel\<close>
  calls, NULL arguments included, returns with the linked records on the heap, gives call by call the same return
  codes as the same calls on lists, and leaves records on the heap that stand for exactly the lists these calls
  reach. Each call of the allocator gives a block that is not in use, or NULL, as the flag of the call says. So no call
  touches a block that is not live; \<open>trade_history_destroy\<close> and \<open>order_entry_destroy\<close> then give back exactly what
  was allocated, the copied trader id included.\<close>

theorem client_lists_on_heap:
  assumes "trade_history_create_h (Some a) hc H0 = (H, Some a)" "trade_history_create True hc = Some h" "0 < hc_max_trades hc"
      "hm_structs H0 a = None" "finite (dom (hm_records H0))" "fresh_addr f"
    and "order_entry_create_h (Some b) dup oc E0 = (E, Some b)" "order_entry_create True (dup \<noteq> None) oc = Some e"
      "em_structs E0 b = None" "\<And>t. dup = Some t \<Longrightarrow> em_strings E0 t = None" "finite (dom (em_records E0))" "fresh_addr g"
  shows "(\<exists>rs H' h'. run_calls (record_h f (Some a)) ts H = Some (rs, H') \<and> run_calls record_l ts h = Some (rs, h') \<and>
      history_at H0 (Some a) H' h' \<and> trade_history_destroy H' (Some a) = Some H0) \<and>
    (\<exists>rs E' e'. run_calls (entry_call_h g (Some b)) cs E = Some (rs, E') \<and> run_calls entry_call_l cs e = Some (rs, e') \<and>
      entry_at E0 (Some b) E' e' \<and> order_entry_destroy E' (Some b) = Some E0)"
proof -
  have "history_ok h" using assms(2,3) by (intro history_machine.init_inv) (auto simp: history_init_def)
  then have h: "history_at H0 (Some a) H h \<and> history_ok h \<and> finite (dom (hm_records H0)) \<and> fresh_addr f"
    using history_at_create assms(1,2,4,5,6) by blast
  have e: "entry_at E0 (Some b) E e \<and> finite (dom (em_records E0)) \<and> fresh_addr g"
    using entry_at_create assms(7-12) by blast
  show ?thesis
    using history_heap.run_sim [OF h, of ts] entry_heap.run_sim [OF e, of cs] history_at_destroy entry_at_destroy by blast
qed

text \<open>Three trades in a history of two, the third without memory; an order, one over the limit, a cancel and an unknown id.\<close>

definition sample_recordings :: "(bool \<times> TradeMessage option) list" where
  "sample_recordings = [(True, Some (sample_trade_message 1)), (True, None), (True, Some (sample_trade_message 2)), (False, Some (sample_trade_message 3))]"

definition sample_entry_ops :: "entry_op list" where
  "sample_entry_ops = [Submit True (Some ''AAPL'') (Fin 10) 5 True, Submit True (Some ''AAPL'') (Fin 1000) 5 True, Submit False (Some ''IBM'') (Fin 1) 1 False,
     Cancel (Some ''ORD9''), Cancel (Some ''ORD1'')]"

definition sample_entry_config :: OrderEntryConfig where
  "sample_entry_config = \<lparr>oc_trader_id = ''TRADER1'', oc_max_orders = 10, oc_max_notional = Fin 1000\<rparr>"

lemma sample_entry_codes:
  "map_option fst (Option.bind (order_entry_create True True sample_entry_config) (run_calls entry_call_l sample_entry_ops)) = Some [0, - 1, - 1, - 1, 0]"
proof -
  have oid: "snprintf 32 (''ORD'' @ show_int 1) = ''ORD1''" by code_simp
  have notional: "d_mul (Fin 10) (d_of_int 5) = Fin 50" "d_mul (Fin 1000) (d_of_int 5) = Fin 5000" "d_mul (Fin 1) (d_of_int 1) = Fin 1"
    "d_add (Fin 0) (Fin 50) = Fin 50" "d_add (Fin 50) (Fin 5000) = Fin 5050" "d_add (Fin 50) (Fin 1) = Fin 51"
    using round_double_of_int [of 1] by (simp_all add: d_of_int_def)
  show ?thesis
    unfolding sample_entry_ops_def sample_entry_config_def
    by (simp add: order_entry_create_def order_entry_submit_def order_entry_cancel_def oid [simplified] notional del: d_mul.simps d_add.simps)
qed

theorem client_lists_on_heap_witness:
  "\<exists>H' E'. run_calls (record_h first_free (Some 1)) sample_recordings
       (fst (trade_history_create_h (Some 1) \<lparr>hc_max_trades = 2, hc_record_all_trades = True\<rparr> (history_mem.make Map.empty Map.empty))) =
       Some ([0, - 1, 0, - 1], H') \<and> trade_history_destroy H' (Some 1) = Some (history_mem.make Map.empty Map.empty) \<and>
     run_calls (entry_call_h first_free (Some 1)) sample_entry_ops
       (fst (order_entry_create_h (Some 1) (Some 6) sample_entry_config
         (entry_mem.make Map.empty Map.empty Map.empty))) = Some ([0, - 1, - 1, - 1, 0], E') \<and>
     order_entry_destroy E' (Some 1) = Some (entry_mem.make Map.empty Map.empty Map.empty)"
proof -
  let ?hc = "\<lparr>hc_max_trades = 2, hc_record_all_trades = True\<rparr>" and ?H0 = "history_mem.make Map.empty Map.empty"
  let ?oc = sample_entry_config and ?E0 = "entry_mem.make Map.empty Map.empty Map.empty"
  obtain h where h: "trade_history_create True ?hc = Some h" by (simp add: trade_history_create_def)
  obtain e where e: "order_entry_create True (Some (6 :: nat) \<noteq> None) ?oc = Some e" by (simp add: order_entry_create_def)
  have l: "map_option fst (run_calls record_l sample_recordings h) = Some [0, - 1, 0, - 1]"
    using h by (auto simp: trade_history_create_def sample_recordings_def trade_history_add_trade_def)
  have l': "map_option fst (run_calls entry_call_l sample_entry_ops e) = Some [0, - 1, - 1, - 1, 0]"
    using sample_entry_codes e by simp
  have H: "trade_history_create_h (Some 1) ?hc ?H0 = (fst (trade_history_create_h (Some 1) ?hc ?H0), Some 1)"
    by (simp add: trade_history_create_h_def)
  have E: "order_entry_create_h (Some 1) (Some 6) ?oc ?E0 = (fst (order_entry_create_h (Some 1) (Some 6) ?oc ?E0), Some 1)"
    by (simp add: order_entry_create_h_def)
  from client_lists_on_heap [OF H h _ _ _ fresh_addr_first_free E e _ _ _ fresh_addr_first_free, of sample_recordings sample_entry_ops] l l'
  show ?thesis by (auto simp: history_mem.defs entry_mem.defs)
qed

section \<open>Messages from the server\<close>

definition sample_app :: ClientApp where
  "sample_app = \<lparr>app_running = True, cmd_line = None, app_client = None, order_entry = None, trade_history = None,
     market_monitor = None, is_view_requested = True\<rparr>"

text \<open>C36. The trade broadcaster announces a trade under the type number of a rejected order and without an order id. A client
  that receives the announcement in a buffer with a NUL character behind it, and whatever else, dereferences a NULL pointer.\<close>

theorem trade_announcement_faults_client:
  assumes "cjson_api J view reread"
  shows "\<exists>t. trade_broadcaster_send_trade J time_text (Some br) (Some sy) (Some bid) (Some sid) (Fin p) q ts = Some (Some (server br, t)) \<and>
    handle_message J stack m (t @ NUL # behind) app = None"
proof -
  obtain t j where t: "trade_broadcaster_send_trade J time_text (Some br) (Some sy) (Some bid) (Some sid) (Fin p) q ts = Some (Some (server br, t))"
    "cJSON_Parse J t = Some j"
    "view j = JObj [(''type'', JNum (Fin 102)), (''trade'', JObj [(''symbol'', JStr sy), (''buy_order'', JStr bid),
       (''sell_order'', JStr sid), (''price'', JNum (reread (Fin p))), (''quantity'', JNum (reread (Fin (of_int q)))),
       (''time'', JStr (take 31 (time_text ts)))])]" "NUL \<notin> set t"
    by (rule cjson_api.trade_notification_text [OF assms refl])
  have "handle_message J stack m (t @ NUL # behind) app = None"
    by (rule cjson_nodes.rejected_without_id [OF cjson_api.axioms(1) [OF assms] t(2) _ _ t(4)])
      (simp_all add: t(3) strcaseeq_def tolower_def isupper_def code_def)
  with t(1) show ?thesis by blast
qed

theorem trade_announcement_faults_client_witness:
  "\<exists>t. trade_broadcaster_send_trade json_cJSON (\<lambda>_. ''noon'') (Some sample_broadcaster) (Some ''AAPL'') (Some ''B1'') (Some ''S1'') (Fin 10) 5 7 =
       Some (Some (Some 77, t)) \<and> handle_message json_cJSON (sample_trade_message 0) True (t @ NUL # ''junk'') sample_app = None"
  using trade_announcement_faults_client [OF json_contract, of "\<lambda>_. ''noon''" sample_broadcaster "''AAPL''" "''B1''" "''S1''" 10 5 7
      "sample_trade_message 0" True "''junk''" sample_app]
  by (simp add: sample_broadcaster_def)

section \<open>Reconnection\<close>

text \<open>C37. The service thread tries to reconnect at most three times in the whole life of the client, because the counter is never
  reset: over any sequence of service rounds, which a disconnect by another thread may cut short, it has made as many
  attempts as there were rounds that found the connection down, up to three, and it ends the process exactly when there was a
  fourth such round, however long the connection was up in between.\<close>

theorem reconnect_budget:
  assumes "wc_running c" "service_thread rounds c 0 = (c1, n, es, ended)"
  shows "attempts es = min 3 (down_rounds (connected c) rounds) \<and> (ended \<longleftrightarrow> 4 \<le> down_rounds (connected c) rounds) \<and>
    n = int (attempts es)"
  using service_thread_effect [OF assms(1), of 0 rounds] assms(2) by (auto simp: max_retries_def)

definition sample_connection :: WSConnection where
  "sample_connection = \<lparr>wc_context = 1, connection = Some 2, wc_running = True, connected = True, wc_host = Some ''localhost'', wc_port = 8080,
     wc_reconnect_interval_ms = 5000, wc_ping_ms = 30000, wc_connect_cb = None, wc_disconnect_cb = Some 3, wc_message_cb = None,
     wc_user_data = None, command_callback = None, command_handler_data = None\<rparr>"

definition lost_and_back :: "service_input list" where
  "lost_and_back = [\<lparr>si_calls = [(CLIENT_CLOSED, [], 0)], si_stopped = False, si_conn = Some 2, si_stopped_later = False\<rparr>,
     \<lparr>si_calls = [(CLIENT_ESTABLISHED, [], 0)], si_stopped = False, si_conn = None, si_stopped_later = False\<rparr>]"

theorem reconnect_budget_witness:
  "\<exists>c1 n es. service_thread (concat (replicate 4 lost_and_back)) sample_connection 0 = (c1, n, es, True) \<and> attempts es = 3"
proof -
  obtain c1 n es ended where r: "service_thread (concat (replicate 4 lost_and_back)) sample_connection 0 = (c1, n, es, ended)"
    using prod_cases4 by blast
  have d: "down_rounds True (concat (replicate 4 lost_and_back)) = 4" by code_simp
  have "wc_running sample_connection" "connected sample_connection" by (simp_all add: sample_connection_def)
  with reconnect_budget [OF _ r] d r show ?thesis by auto
qed

section \<open>Command line\<close>

text \<open>C40. The input thread calls back once for each valid command other than HELP, in the order of the lines, until the first
  QUIT, which it passes on too before it stops; invalid and empty lines call nothing back. At the end of the input
  it neither stops nor waits: reading goes on for ever without effect.\<close>

theorem command_line_calls:
  assumes "cl_callback cl = Some cb" "cl_running cl"
  shows "callbacks (fst (input_thread now i ls cl)) = commands_until_quit now i ls \<and>
    (cl_running (snd (input_thread now i ls cl)) \<longleftrightarrow> \<not> list_ex (\<lambda>cmd. cmd_type cmd = CMD_QUIT) (commands_until_quit now i ls)) \<and>
    input_thread now i (replicate n None) cl = ([], cl)"
  using input_thread_callbacks [OF assms] input_thread_eof by (auto simp: list_ex_iff)

theorem command_line_calls_witness:
  "map cmd_type (callbacks (fst (input_thread (\<lambda>_. 9) 0 [Some ''view AAPL'', None, Some ''help'', Some ''QUIT'', Some ''VIEW X'']
       \<lparr>cl_running = True, cl_callback = Some 1, cl_user_data = None\<rparr>))) = [CMD_VIEW, CMD_QUIT]"
proof -
  have m: "map cmd_type (commands_until_quit (\<lambda>_. 9) 0 [Some ''view AAPL'', None, Some ''help'', Some ''QUIT'', Some ''VIEW X'']) =
      [CMD_VIEW, CMD_QUIT]" by code_simp
  have cl: "cl_callback \<lparr>cl_running = True, cl_callback = Some 1, cl_user_data = None\<rparr> = Some 1"
    "cl_running \<lparr>cl_running = True, cl_callback = Some 1, cl_user_data = None\<rparr>" by simp_all
  show ?thesis unfolding conjunct1 [OF command_line_calls [OF cl]] by (rule m)
qed

end
