(* ===== verification/Worker_Race.thy ===== *)
theory Worker_Race
  imports Handler_Facts
begin

text \<open>
  The table of books under several workers. \<open>handle_place_order\<close> of \<open>src/server/server_handlers.c\<close> holds
  \<open>books_lock\<close> for reading while it looks for the book of a symbol and, when there is none, appends a new one: other
  workers may be doing the same. Here the table holds pointers to books, and the statements of one
  worker are single steps that interleave with those of the others. A worker that runs alone does what
  \<open>find_or_create\<close> does.
\<close>

section \<open>The table and the steps of a worker\<close>

record book_table =
  t_books :: "addr option list"
  t_symbols :: "char list list"
  t_count :: int

type_synonym book_heap = "addr \<rightharpoonup> OrderBook"

text \<open>Where a worker is: before the search, before \<open>order_book_create\<close>, before each of the three statements that append, or done.\<close>

datatype worker_pc = Search | Create | Set_book addr | Set_symbol addr | Add_count addr | Has_book addr | No_book

text \<open>
  One step of a worker that looks for the symbol \<open>sy\<close>; \<open>a\<close> is the address of a new book. The search, which
  only reads, is one step. \<open>None\<close> is an access outside an array.
\<close>

fun find_step ::
  "bool \<times> bool \<times> bool \<Rightarrow> TradeBroadcaster option \<Rightarrow> addr \<Rightarrow> string \<Rightarrow> worker_pc \<Rightarrow> book_table \<Rightarrow> book_heap \<Rightarrow>
   (worker_pc \<times> book_table \<times> book_heap) option" where
  "find_step mem br a sy Search T H = do {
     found \<leftarrow> find_symbol (take (nat (t_count T)) (t_symbols T)) sy;
     (case found of None \<Rightarrow> Some (Create, T, H)
      | Some i \<Rightarrow> do {
          p \<leftarrow> array_get (t_books T) (int i);
          Some (case p of None \<Rightarrow> Create | Some b \<Rightarrow> Has_book b, T, H) }) }"
| "find_step mem br a sy Create T H = (case mem of (m1, m2, m3) \<Rightarrow>
     (case order_book_create m1 m2 m3 br of None \<Rightarrow> Some (No_book, T, H)
      | Some b \<Rightarrow> Some (Set_book a, T, H(a \<mapsto> b))))"
| "find_step mem br a sy (Set_book p) T H = do {
     bs \<leftarrow> array_set (t_books T) (t_count T) (Some p);
     Some (Set_symbol p, T\<lparr>t_books := bs\<rparr>, H) }"
| "find_step mem br a sy (Set_symbol p) T H = do {
     old \<leftarrow> array_get (t_symbols T) (t_count T);
     ss \<leftarrow> array_set (t_symbols T) (t_count T) (strncpy old sy 15);
     Some (Add_count p, T\<lparr>t_symbols := ss\<rparr>, H) }"
| "find_step mem br a sy (Add_count p) T H = Some (Has_book p, T\<lparr>t_count := t_count T + 1\<rparr>, H)"
| "find_step mem br a sy pc T H = Some (pc, T, H)"

text \<open>The steps of one worker after the other, \<open>n\<close> of them.\<close>

fun lone_worker ::
  "nat \<Rightarrow> bool \<times> bool \<times> bool \<Rightarrow> TradeBroadcaster option \<Rightarrow> addr \<Rightarrow> string \<Rightarrow> worker_pc \<Rightarrow> book_table \<Rightarrow> book_heap \<Rightarrow>
   (worker_pc \<times> book_table \<times> book_heap) option" where
  "lone_worker 0 mem br a sy pc T H = Some (pc, T, H)"
| "lone_worker (Suc n) mem br a sy pc T H = do {
     (pc1, T1, H1) \<leftarrow> find_step mem br a sy pc T H;
     lone_worker n mem br a sy pc1 T1 H1 }"

section \<open>Several workers\<close>

text \<open>Each worker has the symbol of its order and its place in the code.\<close>

record workers_state =
  w_table :: book_table
  w_heap :: book_heap
  w_workers :: "(string \<times> worker_pc) list"

inductive workers_step :: "TradeBroadcaster option \<Rightarrow> workers_state \<Rightarrow> workers_state \<Rightarrow> bool" for br where
  "i < length (w_workers s) \<Longrightarrow> w_workers s ! i = (sy, pc) \<Longrightarrow> w_heap s a = None \<Longrightarrow>
   find_step mem br a sy pc (w_table s) (w_heap s) = Some (pc', T', H') \<Longrightarrow>
   workers_step br s \<lparr>w_table = T', w_heap = H', w_workers = (w_workers s)[i := (sy, pc')]\<rparr>"

text \<open>A schedule: which worker moves, and the address a new book would get.\<close>

fun run_schedule :: "TradeBroadcaster option \<Rightarrow> (nat \<times> addr) list \<Rightarrow> workers_state \<Rightarrow> workers_state option" where
  "run_schedule br [] s = Some s"
| "run_schedule br ((i, a) # is) s = do {
     (sy, pc) \<leftarrow> (if i < length (w_workers s) then Some (w_workers s ! i) else None);
     (pc', T', H') \<leftarrow> find_step (True, True, True) br a sy pc (w_table s) (w_heap s);
     run_schedule br is \<lparr>w_table = T', w_heap = H', w_workers = (w_workers s)[i := (sy, pc')]\<rparr> }"

section \<open>A worker alone\<close>

text \<open>The table as the handlers have it, with the books in place of the pointers.\<close>

definition shows_table :: "ServerHandlers \<Rightarrow> book_table \<Rightarrow> book_heap \<Rightarrow> bool" where
  "shows_table h T H \<longleftrightarrow> books h = map (\<lambda>p. Option.bind p H) (t_books T) \<and> symbols h = t_symbols T \<and>
     book_count h = t_count T \<and> (\<forall>p \<in> set (t_books T). \<forall>a. p = Some a \<longrightarrow> H a \<noteq> None)"

lemma find_symbol_bound: "find_symbol bs sy = Some (Some i) \<Longrightarrow> i < length bs"
  by (induction bs arbitrary: i) (auto simp: bind_eq_Some_conv split: if_splits)

lemma lone_worker_found:
  assumes "shows_table h T H" "length (t_books T) = length (t_symbols T)"
    and "find_book h sy = Some (Some i)" "array_get (books h) (int i) \<noteq> Some None"
  shows "\<exists>p. find_step mem br a sy Search T H = Some (Has_book p, T, H) \<and> i < length (t_books T) \<and> t_books T ! i = Some p"
proof -
  have f: "find_symbol (take (nat (t_count T)) (t_symbols T)) sy = Some (Some i)"
    using assms(1,3) by (simp add: shows_table_def find_book_def)
  have i: "i < length (t_books T)" using find_symbol_bound [OF f] assms(2) by simp
  with assms(1,4) obtain p where "t_books T ! i = Some p" by (cases "t_books T ! i") (auto simp: shows_table_def)
  with f i show ?thesis by simp
qed

lemma lone_worker_append:
  assumes "shows_table h T H" "H a = None" "order_book_create m1 m2 m3 br = Some b" "append_book h sy b = Some h1"
  shows "\<exists>T' H'. lone_worker 4 (m1, m2, m3) br a sy Create T H = Some (Has_book a, T', H') \<and> shows_table h1 T' H' \<and>
    nat (book_count h) < length (t_books T') \<and> t_books T' ! nat (book_count h) = Some a"
proof -
  let ?n = "nat (t_count T)"
  have t: "books h = map (\<lambda>p. Option.bind p H) (t_books T)" "symbols h = t_symbols T" "book_count h = t_count T"
    "\<forall>p \<in> set (t_books T). \<forall>c. p = Some c \<longrightarrow> H c \<noteq> None"
    using assms(1) by (auto simp: shows_table_def)
  have n: "0 \<le> t_count T" "t_count T < int (length (t_books T))" "t_count T < int (length (t_symbols T))"
    and h1: "h1 = h\<lparr>books := (books h)[?n := Some b], symbols := (symbols h)[?n := strncpy (t_symbols T ! ?n) sy 15], book_count := t_count T + 1\<rparr>"
    using assms(4) t by (auto simp: append_book_def array_set_def array_get_def bind_eq_Some_conv split: if_splits)
  have old: "map (\<lambda>p. Option.bind p (H(a \<mapsto> b))) (t_books T) = map (\<lambda>p. Option.bind p H) (t_books T)"
  proof (rule map_cong [OF refl])
    fix p assume "p \<in> set (t_books T)"
    with t(4) assms(2) show "Option.bind p (H(a \<mapsto> b)) = Option.bind p H" by (cases p) auto
  qed
  have "shows_table h1 (T\<lparr>t_books := (t_books T)[?n := Some a], t_symbols := (t_symbols T)[?n := strncpy (t_symbols T ! ?n) sy 15],
      t_count := t_count T + 1\<rparr>) (H(a \<mapsto> b))"
    unfolding shows_table_def h1
    using t assms(2) n set_update_subset_insert [of "t_books T" ?n "Some a"] by (auto simp: map_update old simp del: map_eq_conv)
  with assms(3) n t(3) show ?thesis by (simp add: eval_nat_numeral)
qed

lemma lone_worker_done: "lone_worker n mem br a sy (Has_book p) T H = Some (Has_book p, T, H)"
    "lone_worker n mem br a sy No_book T H = Some (No_book, T, H)"
  by (induction n) auto

lemma lone_worker_first:
  "find_step mem br a sy pc T H = Some (pc1, T1, H1) \<Longrightarrow> lone_worker 5 mem br a sy pc T H = lone_worker 4 mem br a sy pc1 T1 H1"
  using lone_worker.simps(2) [of 4] by simp

lemma lone_worker_find_or_create:
  assumes T: "shows_table h T H" "length (t_books T) = length (t_symbols T)" "H a = None"
    and f: "find_or_create mem h sy = Some (h1, idx)"
  shows "\<exists>pc T' H'. lone_worker 5 mem (sh_trade_broadcaster h) a sy Search T H = Some (pc, T', H') \<and> shows_table h1 T' H' \<and>
    (case idx of None \<Rightarrow> pc = No_book
     | Some i \<Rightarrow> \<exists>p. pc = Has_book p \<and> i < length (t_books T') \<and> t_books T' ! i = Some p)"
proof -
  let ?br = "sh_trade_broadcaster h"
  obtain m1 m2 m3 where mem: "mem = (m1, m2, m3)" by (cases mem)
  obtain found where found: "find_book h sy = Some found" using f by (auto simp: find_or_create_def bind_eq_Some_conv)
  show ?thesis
  proof (cases "\<exists>i. found = Some i \<and> array_get (books h) (int i) \<noteq> Some None")
    case True
    then obtain i where i: "found = Some i" "array_get (books h) (int i) \<noteq> Some None" by blast
    obtain p where p: "find_step mem ?br a sy Search T H = Some (Has_book p, T, H)" "i < length (t_books T)" "t_books T ! i = Some p"
      using lone_worker_found [OF T(1,2) found [unfolded i(1)] i(2)] by blast
    moreover have "h1 = h" "idx = Some i" using f found i by (simp_all add: find_or_create_def)
    ultimately show ?thesis using T(1) p by (simp add: lone_worker_first [OF p(1)] lone_worker_done)
  next
    case False
    then have create: "find_step mem ?br a sy Search T H = Some (Create, T, H)"
    proof (cases found)
      case None
      with found T(1) show ?thesis by (simp add: shows_table_def find_book_def)
    next
      case (Some i)
      with found T(1) have s: "find_symbol (take (nat (t_count T)) (t_symbols T)) sy = Some (Some i)"
        by (simp add: shows_table_def find_book_def)
      have i: "i < length (t_books T)" using find_symbol_bound [OF s] T(2) by simp
      have "t_books T ! i = None"
      proof (cases "t_books T ! i")
        case (Some p)
        with i T(1) have "H p \<noteq> None" by (metis nth_mem shows_table_def)
        with False \<open>found = Some i\<close> i T(1) Some show ?thesis by (auto simp: shows_table_def)
      qed
      with s i show ?thesis by simp
    qed
    have c: "(case order_book_create m1 m2 m3 ?br of None \<Rightarrow> Some (h, None)
        | Some book \<Rightarrow> do { h1 \<leftarrow> append_book h sy book; Some (h1, Some (nat (book_count h))) }) = Some (h1, idx)"
      using f found False by (cases found) (auto simp: find_or_create_def mem)
    show ?thesis
    proof (cases "order_book_create m1 m2 m3 ?br")
      case None
      then have "lone_worker 4 mem ?br a sy Create T H = Some (No_book, T, H)" by (simp add: eval_nat_numeral mem)
      with None c T(1) show ?thesis using lone_worker_first [OF create] by auto
    next
      case (Some b)
      with c have "append_book h sy b = Some h1" "idx = Some (nat (book_count h))" by (auto simp: bind_eq_Some_conv)
      with lone_worker_append [OF T(1,3) Some, of sy h1] show ?thesis
        using lone_worker_first [OF create] by (auto simp: mem)
    qed
  qed
qed

section \<open>A symbol that has a book\<close>

text \<open>The pointer the search finds for a symbol, if any.\<close>

definition book_at :: "book_table \<Rightarrow> string \<Rightarrow> addr option" where
  "book_at T sy = (case find_symbol (take (nat (t_count T)) (t_symbols T)) sy of
     Some (Some i) \<Rightarrow> Option.bind (array_get (t_books T) (int i)) id
   | _ \<Rightarrow> None)"

definition workers_start :: "book_table \<Rightarrow> book_heap \<Rightarrow> string list \<Rightarrow> workers_state" where
  "workers_start T H sys = \<lparr>w_table = T, w_heap = H, w_workers = map (\<lambda>sy. (sy, Search)) sys\<rparr>"

lemma find_step_known: "book_at T sy = Some p \<Longrightarrow> find_step mem br a sy Search T H = Some (Has_book p, T, H)"
  by (auto simp: book_at_def split: option.splits bind_splits)

text \<open>Nothing of the table has changed, and each worker is before the search or has the book of its symbol.\<close>

definition book_shared :: "book_table \<Rightarrow> book_heap \<Rightarrow> string list \<Rightarrow> workers_state \<Rightarrow> bool" where
  "book_shared T H sys s \<longleftrightarrow> w_table s = T \<and> w_heap s = H \<and> map fst (w_workers s) = sys \<and>
     (\<forall>(sy, pc) \<in> set (w_workers s). pc = Search \<or> (\<exists>p. book_at T sy = Some p \<and> pc = Has_book p))"

lemma workers_step_shared:
  assumes known: "\<forall>sy \<in> set sys. book_at T sy \<noteq> None" and s: "book_shared T H sys s" and step: "workers_step br s s'"
  shows "book_shared T H sys s'"
  using step
proof cases
  case (1 i sy pc a mem pc' T' H')
  then have mem: "(sy, pc) \<in> set (w_workers s)" by (metis nth_mem)
  then have "sy \<in> set sys" using s by (force simp: book_shared_def)
  then obtain p where p: "book_at T sy = Some p" using known by blast
  have "pc = Search \<or> pc = Has_book p" using s mem p by (auto simp: book_shared_def)
  with find_step_known [OF p] 1 s have new: "pc' = Has_book p" "T' = T" "H' = H" by (auto simp: book_shared_def)
  have "map fst ((w_workers s)[i := (sy, pc')]) = map fst (w_workers s)"
    using 1(2,3) by (simp add: map_update list_update_same_conv)
  moreover have "set ((w_workers s)[i := (sy, pc')]) \<subseteq> insert (sy, pc') (set (w_workers s))"
    by (rule set_update_subset_insert)
  ultimately show ?thesis using s p 1(1) new by (auto simp: book_shared_def)
qed

interpretation shared_table: invariant_machine
  "\<lambda>s. s = workers_start T H sys \<and> (\<forall>sy \<in> set sys. book_at T sy \<noteq> None)" "workers_step br"
  "\<lambda>s. book_shared T H sys s \<and> (\<forall>sy \<in> set sys. book_at T sy \<noteq> None)" for T H sys br
proof unfold_locales
  show "book_shared T H sys s \<and> (\<forall>sy \<in> set sys. book_at T sy \<noteq> None)"
    if "s = workers_start T H sys \<and> (\<forall>sy \<in> set sys. book_at T sy \<noteq> None)" for s
    using that by (auto simp: book_shared_def workers_start_def comp_def)
qed (blast intro: workers_step_shared)

section \<open>Two workers that create the same book\<close>

text \<open>The schedules: one worker after the other, and statement by statement in turn.\<close>

definition one_after_other :: "addr \<Rightarrow> addr \<Rightarrow> (nat \<times> addr) list" where
  "one_after_other a b = [(0, a), (0, a), (0, a), (0, a), (0, a), (1, b), (1, b), (1, b), (1, b), (1, b)]"

definition in_turn :: "addr \<Rightarrow> addr \<Rightarrow> (nat \<times> addr) list" where
  "in_turn a b = [(0, a), (1, b), (0, a), (1, b), (0, a), (1, b), (0, a), (1, b), (0, a), (1, b)]"

text \<open>A table with room for two more books that has none for \<open>sy\<close>; the free slots are zeroed.\<close>

definition room_for_two :: "book_table \<Rightarrow> string \<Rightarrow> bool" where
  "room_for_two T sy \<longleftrightarrow> 0 \<le> t_count T \<and> t_count T + 1 < int (length (t_books T)) \<and> t_count T + 1 < int (length (t_symbols T)) \<and>
     find_symbol (take (nat (t_count T)) (t_symbols T)) sy = Some None \<and> t_symbols T ! nat (t_count T) = replicate 16 NUL"

lemma find_symbol_appended:
  "find_symbol bs sy = Some None \<Longrightarrow> c_string b = Some sy \<Longrightarrow> find_symbol (bs @ b # cs) sy = Some (Some (length bs))"
  by (induction bs) (auto simp: bind_eq_Some_conv split: if_splits)

lemma find_symbol_slot:
  assumes "room_for_two T sy" "NUL \<notin> set sy" "length sy \<le> 15" "nat (t_count T) < m"
  shows "find_symbol (take m ((t_symbols T)[nat (t_count T) := strncpy (replicate 16 NUL) sy 15])) sy = Some (Some (nat (t_count T)))"
proof -
  let ?n = "nat (t_count T)" and ?b = "strncpy (replicate 16 NUL) sy 15"
  have n: "?n < length (t_symbols T)" using assms(1) by (auto simp: room_for_two_def)
  have "c_string ?b = Some sy" using assms(2,3) c_string_strncpy [of sy 15 "replicate 16 NUL"] by simp
  moreover have "take m ((t_symbols T)[?n := ?b]) = take ?n (t_symbols T) @ ?b # take (m - Suc ?n) (drop (Suc ?n) (t_symbols T))"
    using n assms(4) by (simp add: upd_conv_take_nth_drop take_Cons')
  ultimately show ?thesis using assms(1) n find_symbol_appended by (auto simp: room_for_two_def)
qed

lemma strncpy_again: "length buf = 16 \<Longrightarrow> strncpy (strncpy buf sy 15) sy 15 = strncpy buf sy 15"
  by (simp add: strncpy_def)

text \<open>Statement by statement in turn, both workers write the same slot and both advance the count.\<close>

lemma run_in_turn:
  assumes T: "room_for_two T sy" "NUL \<notin> set sy" "length sy \<le> 15" and b: "order_book_create True True True br = Some book"
  shows "run_schedule br (in_turn a b) (workers_start T H [sy, sy]) = Some \<lparr>
    w_table = T\<lparr>t_books := (t_books T)[nat (t_count T) := Some b],
      t_symbols := (t_symbols T)[nat (t_count T) := strncpy (replicate 16 NUL) sy 15], t_count := t_count T + 2\<rparr>,
    w_heap = H(a \<mapsto> book, b \<mapsto> book), w_workers = [(sy, Has_book a), (sy, Has_book b)]\<rparr>"
proof -
  have "nat (t_count T) < length (t_symbols T)" using T(1) by (auto simp: room_for_two_def)
  with T b show ?thesis by (simp add: room_for_two_def in_turn_def workers_start_def strncpy_again ac_simps del: replicate.simps)
qed

lemma run_one_after_other:
  assumes T: "room_for_two T sy" "NUL \<notin> set sy" "length sy \<le> 15" and b: "order_book_create True True True br = Some book"
  shows "run_schedule br (one_after_other a b) (workers_start T H [sy, sy]) = Some \<lparr>
    w_table = T\<lparr>t_books := (t_books T)[nat (t_count T) := Some a],
      t_symbols := (t_symbols T)[nat (t_count T) := strncpy (replicate 16 NUL) sy 15], t_count := t_count T + 1\<rparr>,
    w_heap = H(a \<mapsto> book), w_workers = [(sy, Has_book a), (sy, Has_book a)]\<rparr>"
proof -
  have "nat (t_count T) < length (t_books T)" using T(1) by (auto simp: room_for_two_def)
  with T b find_symbol_slot [OF T, of "nat (t_count T + 1)"] show ?thesis
    by (simp add: room_for_two_def one_after_other_def workers_start_def ac_simps)
qed

lemma book_at_slot:
  assumes T: "room_for_two T sy" "NUL \<notin> set sy" "length sy \<le> 15" and m: "t_count T < m"
  shows "book_at (T\<lparr>t_books := (t_books T)[nat (t_count T) := Some p],
    t_symbols := (t_symbols T)[nat (t_count T) := strncpy (replicate 16 NUL) sy 15], t_count := m\<rparr>) sy = Some p"
proof -
  have "nat (t_count T) < nat m" "nat (t_count T) < length (t_books T)" "0 \<le> t_count T"
    using T(1) m by (auto simp: room_for_two_def)
  with find_symbol_slot [OF T, of "nat m"] show ?thesis by (simp add: book_at_def)
qed

end
