(* ===== verification/System_Properties.thy ===== *)
theory System_Properties
  imports Server_Properties Client_Properties Worker_Race
begin

text \<open>
  The properties of client and server together: what a typed line leads to on both sides, and what
  several workers of the server do to the table of books at the same time.
\<close>

section \<open>A typed order\<close>



definition sample_client_app :: ClientApp where
  "sample_client_app = \<lparr>app_running = True, cmd_line = None, app_client = Some sample_connection, order_entry = None,
     trade_history = None, market_monitor = None, is_view_requested = False\<rparr>"

definition sample_command_line :: CommandLine where
  "sample_command_line = \<lparr>cl_running = True, cl_callback = Some 5, cl_user_data = Some 6\<rparr>"


section \<open>A book on request\<close>

lemma level_list_reread: "level_list (reread_levels f lv) = map (apfst f) (level_list lv)"
  by (simp add: level_list_def reread_levels_def zip_map1 apfst_def map_prod_def case_prod_unfold)

text \<open>C26. A typed \<open>VIEW\<close> of a symbol that has a book, with finite prices: the client notes the request and sends it, the worker that
  takes it out of the server's empty ring answers with one frame and changes nothing, and the client, which receives the
  frame in a buffer with a NUL character behind it, shows it as a table of the live orders of the book: the bids by
  falling price beside the asks by rising price, of each at most the 200 lowest, each price as cJSON prints and
  reads it. There is memory on both sides, and the frame is sent.\<close>

theorem view_command_shows_book:
  assumes J: "cjson_api J view reread"
    and client: "cl_callback cl = Some cb" "app_client app = Some c" "connected c"
    and line: "word kw" "command_word kw = CMD_VIEW" "word sy" "length sy < 16" "length (view_line kw sy) < 256" "NUL \<notin> set sy"
    and ring: "ring_ok h" "ring_contents h = []" "2 \<le> queue_size h" "heap a = None"
    and book: "handlers_ok st h" "find_book h sy = Some (Some i)" "books h ! i = Some b"
    and env: "mem_ok (e_snapshot_mem env)" "fst (e_send env 0)"
  shows "\<exists>cmd t h1 out ts.
    input_round now (Some (view_line kw sy)) cl =
      ([AddHistory (view_line kw sy), CommandCallback cb cmd (cl_user_data cl)], cl) \<and>
    handle_command J pid True written cmd True app = (app\<lparr>is_view_requested := True\<rparr>, [], [(connection c, t)]) \<and>
    server_handlers_process_message (Some a) heap (Some h) (Some w) (Some t) = Some (0, heap(a \<mapsto> t), Some h1) \<and>
    worker_round env J (heap(a \<mapsto> t)) h1 st = Some (heap, out) \<and>
    o_store out = st \<and> books (o_handlers out) = books h \<and> o_trades out = [] \<and>
    o_frames out = [(wsi (e_client env w), ts)] \<and>
    handle_message J stack m (ts @ NUL # behind) (app\<lparr>is_view_requested := True\<rparr>) = Some (app\<lparr>is_view_requested := False\<rparr>,
      view_header sy @ view_table (map (apfst reread) (shown_bids st b)) (map (apfst reread) (shown_asks st b)) @
      view_footer (shown_bids st b = [] \<and> shown_asks st b = []))"
proof -
  let ?cmd = "no_command\<lparr>cmd_type := CMD_VIEW, cmd_symbol := sy\<rparr>"
  have inp: "input_round now (Some (view_line kw sy)) cl = ([AddHistory (view_line kw sy), CommandCallback cb ?cmd (cl_user_data cl)], cl)"
    by (rule input_round_command [OF client(1) _ parse_view_line [OF line(1-5)]]) (simp_all add: view_line_def)
  obtain t j where t: "format_command_as_json J ?cmd (snprintf 32 (''TRADER'' @ show_int pid)) = Some t" "cJSON_Parse J t = Some j"
    "view j = JObj [(''type'', JNum (Fin 3)), (''symbol'', JStr sy)]"
    by (rule cjson_api.view_message_text [OF J])
  have cmd: "handle_command J pid True written ?cmd True app = (app\<lparr>is_view_requested := True\<rparr>, [], [(connection c, t)])"
    using client(2,3) t(1) by (simp add: handle_command_def ws_client_is_connected_def ws_client_send_def)
  obtain h1 h2 where h1: "server_handlers_process_message (Some a) heap (Some h) (Some w) (Some t) = Some (0, heap(a \<mapsto> t), Some h1)"
    "dequeue_message h1 = Some (Got (Some a) (Some w), h2)" and h2: "books h2 = books h" "symbols h2 = symbols h" "book_count h2 = book_count h"
    by (rule message_through_ring [OF ring(1-3)])
  have hs: "handlers_ok st h2" "find_book h2 sy = Some (Some i)" "books h2 ! i = Some b"
    using book handlers_ok_cong [OF h2] h2(1) by simp_all
  obtain out snap ts where out: "dispatch_message env J h2 st (Some w) t = Some out" "o_handlers out = h2" "o_store out = st" "o_trades out = []"
    "bids_are snap (take 200 (filter live (rev (bids st b))))" "asks_are snap (take 200 (filter live (asks st b)))"
    "snapshot_ok snap" "c_string (bs_symbol snap) = Some sy"
    "serialize_book_snapshot J (Some snap) = Some (Some ts)" "o_frames out = snd (send_nth env 0 (Some w) ts)"
    by (rule cjson_api.book_request_ok [OF J hs t(2,3) line(6,4) env(1)])
  have wr: "worker_round env J (heap(a \<mapsto> t)) h1 st = Some (heap, out)"
    by (rule worker_round_got [where heap = heap, OF h1(2) out(1) ring(4)])
  have v: "handle_message J stack m (ts @ NUL # behind) (app\<lparr>is_view_requested := True\<rparr>) = Some (app\<lparr>is_view_requested := False\<rparr>,
      view_header sy @ view_table (map (apfst reread) (shown_bids st b)) (map (apfst reread) (shown_asks st b)) @
      view_footer (shown_bids st b = [] \<and> shown_asks st b = []))"
    using cjson_api.snapshot_viewed [OF J out(7,8), of "app\<lparr>is_view_requested := True\<rparr>" stack m behind] out(9)
    unfolding shown_levels [OF out(5,6)] level_list_reread rev_map by simp
  show ?thesis
    using inp cmd h1(1) wr out(2,3,4,10) h2(1) v send_nth_frame [OF env(2)] by fastforce
qed

text \<open>A server with one book, the sample book under its symbol.\<close>

definition sample_server :: ServerHandlers where
  "sample_server = sample_handlers\<lparr>books := (replicate MAX_SYMBOLS None)[0 := Some sample_book],
     symbols := (replicate MAX_SYMBOLS (replicate 16 NUL))[0 := strncpy (replicate 16 NUL) ''AAPL'' 15], book_count := 1\<rparr>"

lemma sample_server_ok: "handlers_ok sample_store sample_server" "find_book sample_server ''AAPL'' = Some (Some 0)"
proof -
  have pf: "prices_finite sample_store sample_book" by code_simp
  have c: "c_string (strncpy (replicate 16 NUL) ''AAPL'' 15) = Some ''AAPL''" by code_simp
  show ok: "handlers_ok sample_store sample_server"
    using sample_book_ok pf c by (simp add: handlers_ok_def sample_server_def MAX_SYMBOLS_def)
  show "find_book sample_server ''AAPL'' = Some (Some 0)"
    using c unfolding find_book_total [OF ok] by (simp add: sample_server_def MAX_SYMBOLS_def numeral_eq_Suc)
qed

theorem view_command_shows_book_witness:
  "\<exists>cmd t h1 out ts.
    input_round 0 (Some ''view AAPL'') sample_command_line = ([AddHistory ''view AAPL'', CommandCallback 5 cmd (Some 6)], sample_command_line) \<and>
    handle_command json_cJSON 42 True 0 cmd True sample_client_app =
      (sample_client_app\<lparr>is_view_requested := True\<rparr>, [], [(connection sample_connection, t)]) \<and>
    server_handlers_process_message (Some 10) (\<lambda>_. None) (Some sample_server) (Some 1) (Some t) = Some (0, [10 \<mapsto> t], Some h1) \<and>
    worker_round sample_env json_cJSON [10 \<mapsto> t] h1 sample_store = Some (\<lambda>_. None, out) \<and> o_frames out = [(Some 1, ts)] \<and>
    handle_message json_cJSON (sample_trade_message 0) True (ts @ NUL # ''junk'') (sample_client_app\<lparr>is_view_requested := True\<rparr>) =
      Some (sample_client_app\<lparr>is_view_requested := False\<rparr>, view_header ''AAPL'' @
        view_table [(Fin 101, 7), (Fin 101, 5), (Fin 100, 10)] [(Fin 99, 4), (Fin 101, 5), (Fin 103, 6)] @ view_footer False)"
proof -
  have w: "word ''view''" "command_word ''view'' = CMD_VIEW" "word ''AAPL''" "view_line ''view'' ''AAPL'' = ''view AAPL''" by code_simp+
  have b: "shown_bids sample_store sample_book = [(Fin 101, 7), (Fin 101, 5), (Fin 100, 10)]"
    "shown_asks sample_store sample_book = [(Fin 99, 4), (Fin 101, 5), (Fin 103, 6)]" by code_simp+
  have r: "ring_ok sample_server" "ring_contents sample_server = []" "2 \<le> queue_size sample_server"
    by (simp_all add: sample_server_def sample_handlers_simps ring_contents_def ring_used_def ring_ok_def)
  have s: "books sample_server ! 0 = Some sample_book" by (simp add: sample_server_def MAX_SYMBOLS_def)
  have e: "mem_ok (e_snapshot_mem sample_env)" "fst (e_send sample_env 0)" "wsi (e_client sample_env 1) = Some 1"
    using sample_mem_ok by (simp_all add: sample_env_def)
  have a: "cl_callback sample_command_line = Some 5" "app_client sample_client_app = Some sample_connection" "connected sample_connection"
    "cl_user_data sample_command_line = Some 6"
    by (simp_all add: sample_command_line_def sample_client_app_def sample_connection_def)
  show ?thesis
    using view_command_shows_book [OF json_contract a(1-3) w(1-3) _ _ _ r _ sample_server_ok s e(1,2),
        of "\<lambda>_. None" 10 0 42 0 1 "sample_trade_message 0" True "''junk''", unfolded w(4) b a(4) e(3)]
    by (auto simp: NUL_def)
qed

section \<open>Several workers at the same time\<close>

text \<open>C21. Any number of workers look for the books of their orders at the same time, in any interleaving of their
  statements: as long as each symbol has a book, the table and the books are never changed, no worker creates a
  book, and a worker that is past the search has the book the table holds for its symbol.\<close>

theorem workers_share_existing_book:
  assumes "\<forall>sy \<in> set sys. book_at T sy \<noteq> None"
    and "reachable (\<lambda>s. s = workers_start T H sys) (workers_step br) s"
  shows "w_table s = T \<and> w_heap s = H \<and> map fst (w_workers s) = sys \<and>
    (\<forall>(sy, pc) \<in> set (w_workers s). pc = Search \<or> (\<exists>p. book_at T sy = Some p \<and> pc = Has_book p))"
  using shared_table.reachable_inv [of T H sys br s] assms by (simp add: book_shared_def)

text \<open>A table with the sample book at address 30.\<close>

definition sample_table :: book_table where
  "sample_table = \<lparr>t_books = [Some 30, None, None], t_symbols = strncpy (replicate 16 NUL) ''AAPL'' 15 # replicate 2 (replicate 16 NUL), t_count = 1\<rparr>"

theorem workers_share_existing_book_witness:
  "\<exists>s. reachable (\<lambda>s. s = workers_start sample_table [30 \<mapsto> sample_book] [''AAPL'', ''AAPL'']) (workers_step None) s \<and>
    w_workers s = [(''AAPL'', Search), (''AAPL'', Has_book 30)] \<and> book_at sample_table ''AAPL'' = Some 30 \<and>
    w_table s = sample_table \<and> w_heap s = [30 \<mapsto> sample_book]"
proof -
  let ?s = "\<lparr>w_table = sample_table, w_heap = [30 \<mapsto> sample_book], w_workers = [(''AAPL'', Search), (''AAPL'', Has_book 30)]\<rparr>"
  have b: "book_at sample_table ''AAPL'' = Some 30" by code_simp
  have "workers_step None (workers_start sample_table [30 \<mapsto> sample_book] [''AAPL'', ''AAPL'']) ?s"
    using workers_step.intros [of 1 "workers_start sample_table [30 \<mapsto> sample_book] [''AAPL'', ''AAPL'']" "''AAPL''" Search 31]
      find_step_known [OF b] by (force simp: workers_start_def)
  then have "reachable (\<lambda>s. s = workers_start sample_table [30 \<mapsto> sample_book] [''AAPL'', ''AAPL'']) (workers_step None) ?s"
    by (blast intro: reachable.intros)
  then obtain s where s: "reachable (\<lambda>s. s = workers_start sample_table [30 \<mapsto> sample_book] [''AAPL'', ''AAPL'']) (workers_step None) s"
    "w_workers s = [(''AAPL'', Search), (''AAPL'', Has_book 30)]" by force
  with workers_share_existing_book [OF _ s(1)] b show ?thesis by auto
qed

text \<open>C22. A symbol without a book and two workers with orders for it, in a table with room. One after the other, the
  first creates the book and the second finds it. Statement by statement in turn, as the lock held for reading
  allows, both create a book and both write the same slot: the second book is the one the table holds, the first is in
  no slot, so the order of the first worker goes to a book that no later request can find, and the count has grown by
  two, one slot of which was never filled.\<close>

theorem racing_workers_split_book:
  assumes T: "room_for_two T sy" "NUL \<notin> set sy" "length sy \<le> 15" "Some a \<notin> set (t_books T)" "a \<noteq> b"
    and mem: "order_book_create True True True br = Some book"
  shows "(\<exists>s. run_schedule br (one_after_other a b) (workers_start T H [sy, sy]) = Some s \<and>
      w_workers s = [(sy, Has_book a), (sy, Has_book a)] \<and> book_at (w_table s) sy = Some a \<and> t_count (w_table s) = t_count T + 1) \<and>
    (\<exists>s. run_schedule br (in_turn a b) (workers_start T H [sy, sy]) = Some s \<and>
      w_workers s = [(sy, Has_book a), (sy, Has_book b)] \<and> book_at (w_table s) sy = Some b \<and>
      Some a \<notin> set (t_books (w_table s)) \<and> t_count (w_table s) = t_count T + 2)"
proof -
  have "Some a \<notin> set ((t_books T)[nat (t_count T) := Some b])"
    using T(4,5) set_update_subset_insert [of "t_books T" "nat (t_count T)" "Some b"] by auto
  with run_one_after_other [OF T(1-3) mem, of a b H] run_in_turn [OF T(1-3) mem, of a b H]
    book_at_slot [OF T(1-3), of "t_count T + 1" a] book_at_slot [OF T(1-3), of "t_count T + 2" b]
  show ?thesis by simp
qed

theorem racing_workers_split_book_witness:
  "\<exists>s. run_schedule (sh_trade_broadcaster sample_handlers) (in_turn 31 32) (workers_start sample_table [30 \<mapsto> sample_book] [''MSFT'', ''MSFT'']) = Some s \<and>
    w_workers s = [(''MSFT'', Has_book 31), (''MSFT'', Has_book 32)] \<and> book_at (w_table s) ''MSFT'' = Some 32 \<and>
    Some 31 \<notin> set (t_books (w_table s)) \<and> t_count (w_table s) = 3"
proof -
  have r: "room_for_two sample_table ''MSFT''" by code_simp
  obtain book where "order_book_create True True True (sh_trade_broadcaster sample_handlers) = Some book"
    by (auto simp: order_book_create_def avl_create_def sample_handlers_simps)
  from racing_workers_split_book [OF r _ _ _ _ this, of 31 32 "[30 \<mapsto> sample_book]"] show ?thesis
    by (simp add: NUL_def sample_table_def)
qed

end
