(* ===== verification/Logging.thy ===== *)
theory Logging
  imports C_Text
begin

text \<open>
  \<open>src/utils/logging.c\<close>: which messages are written and with what prefix. The level is a static variable,
  here an argument; the time as \<open>strftime\<close> writes it and the formatted message are arguments too.
  The calls of the logging macros in the other components have no effect on their state and are not
  repeated there.
\<close>

datatype LogLevel = LOG_DEBUG | LOG_INFO | LOG_WARNING | LOG_ERROR

primrec level_number :: "LogLevel \<Rightarrow> nat" where
  "level_number LOG_DEBUG = 0"
| "level_number LOG_INFO = 1"
| "level_number LOG_WARNING = 2"
| "level_number LOG_ERROR = 3"

lemma level_number_inject: "level_number a = level_number b \<longleftrightarrow> a = b"
  by (cases a; cases b) simp_all

instantiation LogLevel :: linorder
begin

definition less_eq_LogLevel :: "LogLevel \<Rightarrow> LogLevel \<Rightarrow> bool" where
  "less_eq_LogLevel a b \<longleftrightarrow> level_number a \<le> level_number b"

definition less_LogLevel :: "LogLevel \<Rightarrow> LogLevel \<Rightarrow> bool" where
  "less_LogLevel a b \<longleftrightarrow> level_number a < level_number b"

instance
  by standard (auto simp: less_eq_LogLevel_def less_LogLevel_def level_number_inject)

end

definition level_strings :: "string list" where
  "level_strings = [''DEBUG'', ''INFO'', ''WARNING'', ''ERROR'']"

definition get_filename :: "string \<Rightarrow> string" where
  "get_filename path = (case after_last (CHR ''/'') path of None \<Rightarrow> path | Some name \<Rightarrow> name)"

definition log_message :: "LogLevel \<Rightarrow> string \<Rightarrow> LogLevel \<Rightarrow> string \<Rightarrow> int \<Rightarrow> string \<Rightarrow> string" where
  "log_message current_log_level time_text level src_file line message =
     (if level < current_log_level then []
      else ''['' @ take 31 time_text @ ''] ['' @ level_strings ! level_number level @ ''] ['' @ get_filename src_file @ '':'' @
        show_int line @ ''] '' @ message @ [CHR 0x0A])"

definition set_log_level :: "LogLevel \<Rightarrow> LogLevel \<Rightarrow> LogLevel" where
  "set_log_level current_log_level level = level"

lemma after_last_spec:
  "after_last c s = None \<longleftrightarrow> c \<notin> set s"
  "after_last c s = Some r \<Longrightarrow> c \<notin> set r \<and> (\<exists>dir. s = dir @ c # r)"
proof -
  show 1: "after_last c s = None \<longleftrightarrow> c \<notin> set s" for s by (induction s) (auto split: option.splits)
  show "after_last c s = Some r \<Longrightarrow> c \<notin> set r \<and> (\<exists>dir. s = dir @ c # r)"
  proof (induction s)
    case (Cons x xs)
    show ?case
    proof (cases "after_last c xs")
      case None
      with Cons.prems 1 [of xs] show ?thesis by (intro conjI exI [of _ "[]"]) (auto split: if_splits)
    next
      case (Some r')
      with Cons obtain dir where "c \<notin> set r" "xs = dir @ c # r" by auto
      then show ?thesis by (intro conjI exI [of _ "x # dir"]) auto
    qed
  qed simp
qed

lemma get_filename_spec:
  "CHR ''/'' \<notin> set (get_filename path) \<and> (\<exists>dir. path = dir @ get_filename path \<and> (dir = [] \<or> last dir = CHR ''/''))"
proof (cases "after_last (CHR ''/'') path")
  case None
  then show ?thesis using after_last_spec(1) [of "CHR ''/''" path] by (simp add: get_filename_def)
next
  case (Some r)
  then obtain dir where "CHR ''/'' \<notin> set r" "path = dir @ CHR ''/'' # r" using after_last_spec(2) by blast
  with Some show ?thesis by (intro conjI exI [of _ "dir @ [CHR ''/'']"]) (auto simp: get_filename_def)
qed

end
