(* ===== verification/Spec2Isabelle.thy ===== *)
theory Spec2Isabelle
  imports Engine_Properties Protocol_Properties System_Properties Logging
begin

text \<open>
  A verification development for the trading system of \<open>src/\<close>: a matching engine, the JSON protocol its
  messages use, a WebSocket server and an interactive client, all written in C. This theory imports
  the whole library; the models stand in one theory per component, the properties in the five
  theories whose names end in \<open>_Properties\<close>.

  \<^bold>\<open>The program and how its parts interact.\<close> A line typed at the client (\<open>command_line.c\<close>) is parsed
  (\<open>client_commands.c\<close>) and sent as a JSON text through \<open>ws_client.c\<close>. On the server \<open>ws_server.c\<close> hands a
  received text to \<open>server_handlers_process_message\<close>, which puts a copy of it into a ring; worker
  threads take the copies out, recognise the type (\<open>json_protocol.c\<close>) and call the handler. Placing
  an order finds or creates the symbol's order book, adds the order to one of the two AVL trees of
  the book, confirms it, runs the matching loop, announces every trade through the broadcaster,
  and answers with a snapshot of the book. The client shows what comes back (\<open>client_app.c\<close>). Beside
  this path stand the session manager and the market data registry of the server, the loader of
  order files, the traders' accounts, and the client's trade history, order limits and market
  monitor.

  \<^bold>\<open>Theories and sources.\<close>
    \<^item> \<open>Prelude\<close>: C integers at their width, fixed character arrays, arrays with bounds, linear search,
      sorted association lists. \<open>Double\<close>: IEEE binary64 as exact rationals with infinities and NaN,
      rounding to nearest even. \<open>C_Text\<close>: the text functions of the C library that the code calls.
      \<open>Machine\<close>: runs of a component, sequences of calls with their answers, and the contracts \<open>invariant_machine\<close> and
      \<open>simulation\<close> (call by call, with the same answers). \<open>Linked_Heap\<close>: singly
      linked lists on a heap, with search, unlinking and freeing, and the contract \<open>linked_cells\<close>.
    \<^item> \<open>Orders\<close> (\<open>order.c\<close>), \<open>Price_Index\<close> (the contract between a book and the index of one of its sides),
      \<open>AVL_Tree\<close> (\<open>avl_tree.c\<close>, an instance of it for buy and for sell trees), \<open>AVL_Heap\<close> (\<open>avl_tree.c\<close>
      with its pointers, \<open>malloc\<close> and \<open>free\<close>), \<open>Order_Book\<close> (\<open>order_book.c\<close>),
      \<open>Matching\<close> and \<open>Book_Operations\<close> (invariant, refinement and effects), \<open>Trader\<close> (\<open>trader.c\<close>, \<open>trade.c\<close>),
      \<open>Samples\<close> (a concrete book), \<open>Engine_Properties\<close>.
    \<^item> \<open>Order_Loader\<close> (\<open>utils/order_loader.c\<close>), \<open>Protocol\<close> (\<open>message_types.h\<close>, \<open>protocol_constants.h\<close>,
      \<open>protocol_validation.c\<close>), \<open>Json\<close> (the interface of cJSON), \<open>Json_Protocol\<close> (\<open>json_protocol.c\<close>),
      \<open>Client_Commands\<close> (\<open>client_commands.c\<close>), \<open>Protocol_Properties\<close>.
    \<^item> \<open>Message_Queue\<close> and \<open>Server_Handlers\<close> (\<open>server_handlers.c\<close>), \<open>Handler_Facts\<close> (what the handlers do),
      \<open>Ws_Server\<close> (\<open>ws_server.c\<close>, \<open>trade_broadcaster.c\<close>), \<open>Session_Manager\<close> (\<open>session_manager.c\<close>), \<open>Market_Data\<close>
      (\<open>market_data.c\<close>), \<open>Server_App\<close> (\<open>server_app.c\<close>), \<open>Session_Heap\<close> and \<open>Session_Heap_Facts\<close> (\<open>session_manager.c\<close>
      with its pointers), \<open>Server_Lifetimes\<close> (the destructors of engine and server, the end of the server's
      \<open>main\<close>, the snapshot thread of \<open>market_data.c\<close>), \<open>Server_Properties\<close>.
    \<^item> \<open>Trade_History\<close>, \<open>Order_Entry\<close>, \<open>Market_Monitor\<close>, \<open>Command_Line\<close>, \<open>Ws_Client\<close>, \<open>Client_App\<close> (the files of
      \<open>src/client\<close> with these names), \<open>Client_Heap\<close> (\<open>trade_history.c\<close> and \<open>order_entry.c\<close> with their pointers),
      \<open>Client_Lifetimes\<close> (\<open>market_monitor_destroy\<close> and the end of the client's \<open>main\<close>), \<open>Client_Properties\<close>; \<open>Logging\<close>
      (\<open>utils/logging.c\<close>).
    \<^item> \<open>End_To_End\<close> (client and server composed), \<open>Worker_Race\<close> (several workers that look for or create the book
      of a symbol at the same time, access by access), \<open>System_Properties\<close>.

  \<^bold>\<open>How the code is read.\<close>
    \<^item> A struct is a record, an enumeration a datatype or its numbers, a linked list or an array in
      use a list. A character array is the list of its bytes; \<open>strncpy\<close> fills it as C does, without a
      terminator when the text is too long, and reading it as a string needs one.
    \<^item> A pointer that the code tests for NULL is an option. Orders are shared by trees, handlers and
      loader, so they live in a store from addresses to orders, and so do the copies of messages.
    \<^item> Trees, sessions, the trade history and the order entry are modelled twice: as values, on which the
      behaviour is stated, and as cells on typed heaps with every allocation and \<open>free\<close>. The second
      kind has names that end in \<open>_h\<close>, and each is shown to implement the first.
    \<^item> \<open>int\<close> and \<open>int64_t\<close> are \<^typ>\<open>int\<close> with the wrap or the range written out where a value can leave it.
      \<open>double\<close> keeps NaN, infinities and rounding, so that the comparisons are those of C.
    \<^item> A result of type \<^typ>\<open>'a option\<close> whose \<open>None\<close> is called a fault stands for undefined behaviour: an
      access outside an array, a NULL dereference, a missing terminator, a double free. Return
      codes, early returns and failed allocations are ordinary results.
    \<^item> Whether an allocation succeeds, the time, the content of uninitialised memory, the addresses of
      new objects and what libwebsockets and readline return are arguments, in a record where there
      are many. cJSON is a record of operations with two locales as its contract: \<open>cjson_nodes\<close> says what the getters
      find in a parsed text; \<open>cjson_api\<close>, for runs in which memory suffices, adds what the constructors build and that a
      printed tree is parsed again. A number comes back as \<open>reread\<close> of itself: cJSON prints 15 digits when they are close
      enough, so only whole numbers of 32 bits are exact and others change by at most one part in \<open>2 ^ 51\<close>.
      \<open>Json\<close> interprets both by a concrete tree type with printer and parser, so that the contracts can hold.
    \<^item> A message that the client receives is the memory at the pointer that \<open>ws_client.c\<close> passes on, which is not the
      terminated copy it makes: the text ends at the first NUL character, and without one reading it is a fault.
    \<^item> In the theorems about calls on the heap every call says by flags which of its allocations succeed, and the
      addresses come from functions that give a block not in use as long as finitely many are.
    \<^item> Sends, prints and user callbacks are returned as lists of events in the order in which they
      happen. Calls of the logger and of locks are left out; a critical section is one step. The
      section of \<open>handle_place_order\<close> that only holds the lock for reading is one step in \<open>Server_Handlers\<close> and
      one step per access in \<open>Worker_Race\<close>.
    \<^item> Loops are total functions, but for the recursions along pointers: on a heap with a cycle they
      need not end, so they are partial functions, and the theorems say that they return. The matching loop ends because every pass takes quantity out of the
      book, the loader's because every pass consumes text; neither needs fuel. The input thread and the
      service thread are functions of the finite list of lines or service calls they have met (a disconnect by
      another thread is part of a service round), and
      the server's main loop of the number of its rounds.

  \<^bold>\<open>What is shown.\<close>
    \<^item> Engine: insertion and deletion keep the trees ordered, balanced and of logarithmic height and are
      insertion and deletion of a sorted list; on a heap of cells the same functions use only live
      cells, lose none, and \<open>avl_destroy\<close> gives all back; the matching loop over trees and shared orders is the
      matching of two sorted lists, faults nowhere, leaves no tradeable top pair, conserves
      quantity, trades at the ask's price inside both limits, in the order of the ranking, and changes
      nothing else; in every book that the operations can reach, from orders of any price but NaN and any quantity,
      negative ones too, no operation faults, and a new order goes to the place of its price and time; accounts are
      never overdrawn. Also what the code does and should not: which of two bids at one price
      goes first, which orders can be cancelled, what blocks the matching, lost orders.
    \<^item> Protocol: order and snapshot messages come back as they were, prices as cJSON rereads them; which
      order messages are valid; when a field is left without a terminator; loading a file returns the number of its
      good lines, and which of their orders are then in the book; a written CSV line is read back.
    \<^item> Server: a well-formed order message is confirmed, matched and answered from the ring to the
      frames; the ring is a bounded queue, whatever the interleaving of the critical sections; a
      snapshot's levels; sessions and subscriptions refine a map to sets, in every reachable state and for every
      outcome of the operations; any sequence of calls on the sessions on the heap returns, answers as the same calls on
      lists do and leaves the same sessions, and the destructor frees all they own and nothing else; the main loop keeps every session; the server as \<open>main\<close> sets it up
      refuses orders; destruction frees handled messages twice, and without these the shutdown gives
      back every block but the array of clients and the orders; the snapshot thread leaves the memory as it was.
    \<^item> Client: the reaction to a trade announcement; the reconnection budget; the trade history, the ids of
      orders; sequences of calls on their linked records answer and end as on lists; the callbacks of the command line; what \<open>main\<close> frees.
    \<^item> System: a typed order with any accepted price is placed, matched, confirmed and answered, given a trade
      broadcaster and room; a typed request for a book
      shows the book as the server holds it; workers that find the book of a symbol all use it; two that
      do not find it can make two books, of which later orders see one.

  \<^bold>\<open>Interfaces.\<close> \<open>price_index\<close> (interpreted by both AVL trees), \<open>fifo_queue\<close> (by the ring), \<open>cjson_nodes\<close> and its
  extension \<open>cjson_api\<close> (by the tree type of \<open>Json\<close>), \<open>invariant_machine\<close> (by trees, books, accounts, sessions, history, order entry,
  market monitor, the server and racing workers), \<open>linked_cells\<close> (by the cells of sessions, trade records and
  order records), \<open>simulation\<close> (by the same three components: each call on the heap answers as the same
  call on lists and leads to a memory that stands for the list after it).

  \<^bold>\<open>Not modelled.\<close> Data races other than that on the table of books: the other critical sections are
  steps. The averages of the trade history and the rest of the market monitor
  only read and are modelled on lists alone. The tables of protocols that \<open>ws_server.c\<close> and \<open>ws_client.c\<close>
  hand to libwebsockets, the installation of signal handlers, the text of log messages, the prototypes of
  headers. Vendored readline, the tests and the build files. \<open>market_view.h\<close> and \<open>client_handlers.h\<close> declare functions
  that no file defines.
\<close>

end
